(* ===== verification/Prelude.thy ===== *)
theory Prelude
  imports Main "HOL-Library.Word" "HOL-Library.Monad_Syntax"
begin

text \<open>
  What every component shares.

  \<^item> Machine integers. A \<open>u64\<close> (and a \<open>usize\<close>, on the 64-bit targets the crate
    is used on) is a natural number below \<open>2 ^ 64\<close>; every addition and subtraction of the
    source that is not a saturating one goes through \<open>add_u64\<close> and \<open>sub_u64\<close>. Their first
    argument is the build's \<open>overflow-checks\<close> switch: with it an overflow panics (the dev
    profile), without it the value wraps around (the release profile). A \<open>u8\<close> is an
    \<open>8 word\<close>.
  \<^item> Panics. A computation that may panic has type \<open>'a option\<close>, and \<open>None\<close> is the panic.
  \<^item> Errors. A Rust \<open>Result<T, E>\<close> is \<open>'e + 'a\<close>, with \<open>Inl\<close> for \<open>Err\<close>;
    \<open>and_then\<close> is the \<open>?\<close> operator.
  \<^item> \<open>BTreeMap<K, V>\<close> is a list of key-value pairs with strictly increasing keys. The
    contract its clients rely on is the locale \<open>ordered_map\<close>.
  \<^item> A state machine is an initial predicate and a step relation; the locales
    \<open>machine_invariant\<close> and \<open>machine_order\<close> lift one-step facts to every reachable state.
\<close>

section \<open>Collections of proof rules\<close>

named_theorems u64_simps \<open>arithmetic of u64 values that stay in range\<close>
named_theorems bt_simps \<open>the operations of an ordered map\<close>
named_theorems wf_intros \<open>well-formedness of a component is kept by its operations\<close>

section \<open>Machine integers\<close>

type_synonym u8 = "8 word"
type_synonym u16 = nat
type_synonym u32 = nat
type_synonym u64 = nat
type_synonym bytes = "u8 list"

abbreviation u64_bound :: nat where "u64_bound \<equiv> 18446744073709551616"
abbreviation u32_bound :: nat where "u32_bound \<equiv> 4294967296"

definition add_u64 :: "bool \<Rightarrow> u64 \<Rightarrow> u64 \<Rightarrow> u64 option" where
  "add_u64 oc a b =
     (if a + b < u64_bound then Some (a + b)
      else if oc then None else Some ((a + b) mod u64_bound))"

definition sub_u64 :: "bool \<Rightarrow> u64 \<Rightarrow> u64 \<Rightarrow> u64 option" where
  "sub_u64 oc a b =
     (if b \<le> a then Some (a - b)
      else if oc then None else Some (u64_bound + a - b))"

definition saturating_add_u64 :: "u64 \<Rightarrow> u64 \<Rightarrow> u64" where
  "saturating_add_u64 a b = min (a + b) (u64_bound - 1)"

lemma add_u64_in_range [u64_simps]: "a + b < u64_bound \<Longrightarrow> add_u64 oc a b = Some (a + b)"
  by (simp add: add_u64_def)

lemma sub_u64_in_range [u64_simps]: "b \<le> a \<Longrightarrow> sub_u64 oc a b = Some (a - b)"
  by (simp add: sub_u64_def)

lemma add_u64_overflow: "u64_bound \<le> a + b \<Longrightarrow> add_u64 True a b = None"
  by (simp add: add_u64_def)

lemma add_u64_bound: "add_u64 oc a b = Some c \<Longrightarrow> c < u64_bound"
  by (auto simp: add_u64_def split: if_splits)

lemma sub_u64_bound: "sub_u64 oc a b = Some c \<Longrightarrow> a < u64_bound \<Longrightarrow> c < u64_bound"
  by (auto simp: sub_u64_def split: if_splits)

lemma add_u64_checked: "add_u64 True a b = Some c \<longleftrightarrow> a + b < u64_bound \<and> c = a + b"
  by (auto simp: add_u64_def)

lemma sub_u64_checked: "sub_u64 True a b = Some c \<longleftrightarrow> b \<le> a \<and> c = a - b"
  by (auto simp: sub_u64_def)

section \<open>Big-endian bytes\<close>

text \<open>
  \<open>to_be_bytes\<close> and \<open>from_be_bytes\<close> of an integer of \<open>k\<close> bytes: \<open>k\<close> is 8 for a \<open>u64\<close>,
  4 for a \<open>u32\<close> and 2 for a \<open>u16\<close>.
\<close>

fun to_be_bytes :: "nat \<Rightarrow> nat \<Rightarrow> bytes" where
  "to_be_bytes 0 n = []"
| "to_be_bytes (Suc k) n = to_be_bytes k (n div 256) @ [word_of_nat n]"

definition from_be_bytes :: "bytes \<Rightarrow> nat" where
  "from_be_bytes bs = foldl (\<lambda>acc b. 256 * acc + unat b) 0 bs"

lemma length_to_be_bytes [simp]: "length (to_be_bytes k n) = k"
  by (induction k arbitrary: n) auto

lemma from_be_bytes_snoc: "from_be_bytes (bs @ [b]) = 256 * from_be_bytes bs + unat b"
  by (simp add: from_be_bytes_def)

lemma from_to_be_bytes_mod: "from_be_bytes (to_be_bytes k n) = n mod 256 ^ k"
proof (induction k arbitrary: n)
  case 0
  then show ?case by (simp add: from_be_bytes_def)
next
  case (Suc k)
  have "from_be_bytes (to_be_bytes (Suc k) n) = 256 * (n div 256 mod 256 ^ k) + n mod 256"
    by (simp add: from_be_bytes_snoc Suc unat_of_nat)
  also have "\<dots> = n mod (256 * 256 ^ k)"
    by (simp add: mod_mult2_eq)
  finally show ?case by simp
qed

lemma from_to_be_bytes [simp]: "n < 256 ^ k \<Longrightarrow> from_be_bytes (to_be_bytes k n) = n"
  by (simp add: from_to_be_bytes_mod)

lemma unat_u8_less: "unat (b :: u8) < 256"
  using unsigned_less [of b, where 'a = nat] by simp

lemma from_be_bytes_bound: "from_be_bytes bs < 256 ^ length bs"
proof (induction bs rule: rev_induct)
  case Nil
  then show ?case by (simp add: from_be_bytes_def)
next
  case (snoc b bs)
  then show ?case
    using unat_u8_less [of b] by (simp add: from_be_bytes_snoc)
qed

lemma to_from_be_bytes: "to_be_bytes (length bs) (from_be_bytes bs) = bs"
proof (induction bs rule: rev_induct)
  case Nil
  then show ?case by simp
next
  case (snoc b bs)
  have "(256 * from_be_bytes bs + unat b) div 256 = from_be_bytes bs"
    using unat_u8_less [of b] by simp
  moreover have "unat (word_of_nat (256 * from_be_bytes bs + unat b) :: u8) = unat b"
    using unat_u8_less [of b] by (simp only: unat_of_nat) simp
  then have "word_of_nat (256 * from_be_bytes bs + unat b) = b"
    by (rule word_unat_eq_iff [THEN iffD2])
  ultimately show ?case
    using snoc by (simp add: from_be_bytes_snoc)
qed

section \<open>Results\<close>

fun and_then :: "'e + 'a \<Rightarrow> ('a \<Rightarrow> 'e + 'b) \<Rightarrow> 'e + 'b" where
  "and_then (Inl e) f = Inl e"
| "and_then (Inr a) f = f a"

lemma and_then_Inr: "and_then r f = Inr b \<longleftrightarrow> (\<exists>a. r = Inr a \<and> f a = Inr b)"
  by (cases r) auto

lemma and_then_Inl: "and_then r f = Inl e \<longleftrightarrow> r = Inl e \<or> (\<exists>a. r = Inr a \<and> f a = Inl e)"
  by (cases r) auto

definition is_err :: "'e + 'a \<Rightarrow> bool" where
  "is_err r = (case r of Inl _ \<Rightarrow> True | Inr _ \<Rightarrow> False)"

definition ok_or :: "'a option \<Rightarrow> 'e \<Rightarrow> 'e + 'a" where
  "ok_or x e = (case x of None \<Rightarrow> Inl e | Some a \<Rightarrow> Inr a)"

section \<open>Ordered maps\<close>

type_synonym ('k, 'v) btree_map = "('k \<times> 'v) list"

definition bt_wf :: "('k::linorder, 'v) btree_map \<Rightarrow> bool" where
  "bt_wf m = sorted_wrt (<) (map fst m)"

fun bt_insert :: "'k::linorder \<Rightarrow> 'v \<Rightarrow> ('k, 'v) btree_map \<Rightarrow> ('k, 'v) btree_map" where
  "bt_insert k v [] = [(k, v)]"
| "bt_insert k v (p # m) =
     (if fst p < k then p # bt_insert k v m
      else if fst p = k then (k, v) # m
      else (k, v) # p # m)"

definition bt_get :: "('k::linorder, 'v) btree_map \<Rightarrow> 'k \<Rightarrow> 'v option" where
  "bt_get m k = map_of m k"

definition bt_retain :: "('k::linorder \<Rightarrow> 'v \<Rightarrow> bool) \<Rightarrow> ('k, 'v) btree_map \<Rightarrow> ('k, 'v) btree_map" where
  "bt_retain P m = filter (\<lambda>p. P (fst p) (snd p)) m"

definition bt_remove :: "'k::linorder \<Rightarrow> ('k, 'v) btree_map \<Rightarrow> ('k, 'v) btree_map" where
  "bt_remove k m = bt_retain (\<lambda>k' _. k' \<noteq> k) m"

text \<open>\<open>range(k..)\<close> and \<open>range(..k)\<close>, and the first and last entry of such an iterator.\<close>

definition bt_from :: "'k::linorder \<Rightarrow> ('k, 'v) btree_map \<Rightarrow> ('k, 'v) btree_map" where
  "bt_from k m = bt_retain (\<lambda>k' _. k \<le> k') m"

definition bt_below :: "'k::linorder \<Rightarrow> ('k, 'v) btree_map \<Rightarrow> ('k, 'v) btree_map" where
  "bt_below k m = bt_retain (\<lambda>k' _. k' < k) m"

definition bt_first :: "('k, 'v) btree_map \<Rightarrow> ('k \<times> 'v) option" where
  "bt_first m = (case m of [] \<Rightarrow> None | p # _ \<Rightarrow> Some p)"

definition bt_last :: "('k, 'v) btree_map \<Rightarrow> ('k \<times> 'v) option" where
  "bt_last m = (if m = [] then None else Some (last m))"

lemma bt_first_simps [simp]: "bt_first [] = None" "bt_first (p # m) = Some p"
  by (simp_all add: bt_first_def)

lemma bt_last_simps [simp]: "bt_last [] = None" "bt_last (m @ [p]) = Some p"
  by (simp_all add: bt_last_def)

subsection \<open>The contract of an ordered map\<close>

text \<open>
  What the slice and the message manager rely on of \<open>BTreeMap\<close>: an insert is seen by the next
  lookup and by no other key, \<open>retain\<close> keeps exactly the entries that satisfy its predicate,
  and both leave the entries in key order.
\<close>

locale ordered_map =
  fixes entries :: "'m \<Rightarrow> ('k::linorder \<times> 'v) list"
    and get :: "'m \<Rightarrow> 'k \<Rightarrow> 'v option"
    and insert_entry :: "'k \<Rightarrow> 'v \<Rightarrow> 'm \<Rightarrow> 'm"
    and retain :: "('k \<Rightarrow> 'v \<Rightarrow> bool) \<Rightarrow> 'm \<Rightarrow> 'm"
    and invar :: "'m \<Rightarrow> bool"
  assumes entries_sorted: "invar m \<Longrightarrow> sorted_wrt (<) (map fst (entries m))"
    and get_entries: "invar m \<Longrightarrow> get m k = Some v \<longleftrightarrow> (k, v) \<in> set (entries m)"
    and get_insert: "invar m \<Longrightarrow> get (insert_entry k v m) = (get m)(k \<mapsto> v)"
    and get_retain: "invar m \<Longrightarrow>
      get (retain P m) k = (case get m k of Some v \<Rightarrow> if P k v then Some v else None | None \<Rightarrow> None)"
    and invar_insert: "invar m \<Longrightarrow> invar (insert_entry k v m)"
    and invar_retain: "invar m \<Longrightarrow> invar (retain P m)"
begin

lemma set_insert:
  "invar m \<Longrightarrow> set (entries (insert_entry k v m)) = insert (k, v) {p \<in> set (entries m). fst p \<noteq> k}"
  by (auto simp: get_entries [symmetric] get_insert invar_insert split: if_splits)

lemma set_retain:
  "invar m \<Longrightarrow> set (entries (retain P m)) = {p \<in> set (entries m). P (fst p) (snd p)}"
  by (auto simp: get_entries [symmetric] get_retain invar_retain split: option.splits if_splits)

lemma entry_unique:
  "invar m \<Longrightarrow> (k, v) \<in> set (entries m) \<Longrightarrow> (k, w) \<in> set (entries m) \<Longrightarrow> v = w"
  by (metis get_entries option.inject)

lemma entries_determined:
  assumes "invar m" "invar m'" "set (entries m) = set (entries m')"
  shows "entries m = entries m'"
proof -
  have keys: "map fst (entries m) = map fst (entries m')"
    using assms entries_sorted strict_sorted_equal [of "map fst (entries m)" "map fst (entries m')"]
    by simp
  have "distinct (map fst (entries m))"
    using assms(1) entries_sorted strict_sorted_iff by blast
  then have "inj_on fst (set (entries m) \<union> set (entries m'))"
    using assms(3) by (simp add: distinct_map)
  then show ?thesis
    by (rule map_inj_on [OF keys])
qed

end

lemma bt_wf_simps [simp]: "bt_wf []" "bt_wf (p # m) \<longleftrightarrow> (\<forall>q \<in> set m. fst p < fst q) \<and> bt_wf m"
  by (auto simp: bt_wf_def)

lemma bt_wf_append:
  "bt_wf (m @ m') \<longleftrightarrow> bt_wf m \<and> bt_wf m' \<and> (\<forall>p \<in> set m. \<forall>q \<in> set m'. fst p < fst q)"
  by (auto simp: bt_wf_def sorted_wrt_append)

lemma bt_wf_distinct: "bt_wf m \<Longrightarrow> distinct (map fst m)"
  by (simp add: bt_wf_def strict_sorted_iff)

lemma bt_wf_retain [wf_intros]: "bt_wf m \<Longrightarrow> bt_wf (bt_retain P m)"
  by (induction m) (auto simp: bt_retain_def)

lemma fst_in_set_bt_insert: "q \<in> set (bt_insert k v m) \<Longrightarrow> fst q = k \<or> q \<in> set m"
  by (induction m) (auto split: if_splits)

lemma bt_wf_insert [wf_intros]: "bt_wf m \<Longrightarrow> bt_wf (bt_insert k v m)"
proof (induction m)
  case Nil
  then show ?case by simp
next
  case (Cons p m)
  then show ?case
    by (auto dest!: fst_in_set_bt_insert)
qed

lemma bt_get_insert: "bt_wf m \<Longrightarrow> bt_get (bt_insert k v m) = (bt_get m)(k \<mapsto> v)"
  by (induction m) (auto simp: bt_get_def fun_eq_iff)

lemma bt_get_retain:
  "bt_wf m \<Longrightarrow> bt_get (bt_retain P m) k =
     (case bt_get m k of Some v \<Rightarrow> if P k v then Some v else None | None \<Rightarrow> None)"
proof (induction m)
  case Nil
  then show ?case by (simp add: bt_get_def bt_retain_def)
next
  case (Cons p m)
  have "fst p = k \<Longrightarrow> map_of m k = None"
    using Cons.prems by (auto simp: map_of_eq_None_iff)
  with Cons show ?case
    by (auto simp: bt_get_def bt_retain_def)
qed

interpretation bt: ordered_map "\<lambda>m. m" bt_get bt_insert bt_retain bt_wf
proof unfold_locales
  fix m :: "('a, 'b) btree_map" and k v
  assume m: "bt_wf m"
  show "sorted_wrt (<) (map fst m)"
    using m by (simp add: bt_wf_def)
  show "bt_get m k = Some v \<longleftrightarrow> (k, v) \<in> set m"
    using bt_wf_distinct [OF m] by (simp add: bt_get_def)
qed (simp_all add: bt_get_insert bt_get_retain bt_wf_insert bt_wf_retain)

subsection \<open>Derived operations\<close>

lemma bt_remove_set [bt_simps]: "bt_wf m \<Longrightarrow> set (bt_remove k m) = {p \<in> set m. fst p \<noteq> k}"
  by (simp add: bt_remove_def bt.set_retain)

lemma bt_wf_remove [wf_intros]: "bt_wf m \<Longrightarrow> bt_wf (bt_remove k m)"
  by (simp add: bt_remove_def bt_wf_retain)

lemma bt_wf_from [wf_intros]: "bt_wf m \<Longrightarrow> bt_wf (bt_from k m)"
  by (simp add: bt_from_def bt_wf_retain)

lemma bt_wf_below [wf_intros]: "bt_wf m \<Longrightarrow> bt_wf (bt_below k m)"
  by (simp add: bt_below_def bt_wf_retain)

lemma bt_remove_mid:
  "bt_wf (l @ (k, v) # r) \<Longrightarrow> bt_remove k (l @ (k, v) # r) = l @ r"
proof -
  assume "bt_wf (l @ (k, v) # r)"
  then have "filter (\<lambda>p. fst p \<noteq> k) l = l" "filter (\<lambda>p. fst p \<noteq> k) r = r"
    by (auto simp: bt_wf_append filter_id_conv)
  then show ?thesis by (simp add: bt_remove_def bt_retain_def)
qed

lemma bt_insert_mid:
  "bt_wf (l @ (k, v) # r) \<Longrightarrow> bt_insert k v' (l @ (k, v) # r) = l @ (k, v') # r"
  by (induction l) auto

lemma bt_insert_between:
  "\<forall>p \<in> set l. fst p < k \<Longrightarrow> \<forall>p \<in> set r. k < fst p \<Longrightarrow> bt_insert k v (l @ r) = l @ (k, v) # r"
  by (induction l) (cases r, auto)

lemma bt_below_append:
  "\<forall>p \<in> set l. fst p < k \<Longrightarrow> \<forall>p \<in> set r. k \<le> fst p \<Longrightarrow> bt_below k (l @ r) = l"
  by (force simp: bt_below_def bt_retain_def filter_id_conv filter_empty_conv)

lemma bt_from_append:
  "\<forall>p \<in> set l. fst p < k \<Longrightarrow> \<forall>p \<in> set r. k \<le> fst p \<Longrightarrow> bt_from k (l @ r) = r"
  by (force simp: bt_from_def bt_retain_def filter_id_conv filter_empty_conv)

lemma bt_split: "bt_wf m \<Longrightarrow> bt_below k m @ bt_from k m = m"
proof (induction m)
  case Nil
  then show ?case by (simp add: bt_below_def bt_from_def bt_retain_def)
next
  case (Cons p m)
  show ?case
  proof (cases "fst p < k")
    case True
    with Cons show ?thesis
      by (auto simp: bt_below_def bt_from_def bt_retain_def)
  next
    case False
    with Cons.prems have "\<forall>q \<in> set m. k \<le> fst q"
      by auto
    with False bt_below_append [of "[]" k "p # m"] bt_from_append [of "[]" k "p # m"]
    show ?thesis by auto
  qed
qed

lemma bt_below_keys: "p \<in> set (bt_below k m) \<Longrightarrow> fst p < k \<and> p \<in> set m"
  by (simp add: bt_below_def bt_retain_def)

lemma bt_from_keys: "p \<in> set (bt_from k m) \<Longrightarrow> k \<le> fst p \<and> p \<in> set m"
  by (simp add: bt_from_def bt_retain_def)

section \<open>State machines\<close>

text \<open>
  A machine is a predicate of its initial states and a step relation. Reachability is the least
  predicate that holds initially and is closed under steps; \<open>machine_invariant\<close> says what has to
  be shown of a predicate for it to hold in every reachable state, and \<open>machine_order\<close> what has
  to be shown of a preorder on the states for a machine never to move down in it.
\<close>

inductive reaches :: "('s \<Rightarrow> 's \<Rightarrow> bool) \<Rightarrow> 's \<Rightarrow> 's \<Rightarrow> bool" for step where
  reaches_refl: "reaches step s s"
| reaches_step: "reaches step s t \<Longrightarrow> step t u \<Longrightarrow> reaches step s u"

locale machine_invariant =
  fixes initial :: "'s \<Rightarrow> bool"
    and step :: "'s \<Rightarrow> 's \<Rightarrow> bool"
    and inv :: "'s \<Rightarrow> bool"
  assumes inv_initial: "initial s \<Longrightarrow> inv s"
    and inv_step: "inv s \<Longrightarrow> step s t \<Longrightarrow> inv t"
begin

lemma inv_reaches: "reaches step s t \<Longrightarrow> inv s \<Longrightarrow> inv t"
  by (induction rule: reaches.induct) (auto intro: inv_step)

lemma inv_reachable: "initial s \<Longrightarrow> reaches step s t \<Longrightarrow> inv t"
  by (blast intro: inv_initial inv_reaches)

end

locale machine_order = machine_invariant +
  fixes le :: "'s \<Rightarrow> 's \<Rightarrow> bool"
  assumes le_refl: "le s s"
    and le_trans: "le s t \<Longrightarrow> le t u \<Longrightarrow> le s u"
    and le_step: "inv s \<Longrightarrow> step s t \<Longrightarrow> le s t"
begin

lemma le_reaches: "reaches step s t \<Longrightarrow> inv s \<Longrightarrow> le s t"
proof (induction rule: reaches.induct)
  case (reaches_refl s)
  show ?case by (rule le_refl)
next
  case (reaches_step s t u)
  then have "inv t" by (blast intro: inv_reaches)
  with reaches_step show ?case by (blast intro: le_step le_trans)
qed

end

text \<open>
  \<open>machine_progress\<close>: every step uses up some of the work there is, so no run is longer than the work
  at its beginning.
\<close>

locale machine_progress = machine_invariant +
  fixes work :: "'s \<Rightarrow> nat"
  assumes work_step: "inv s \<Longrightarrow> step s t \<Longrightarrow> work t < work s"
begin

lemma run_bounded: "(step ^^ n) s t \<Longrightarrow> inv s \<Longrightarrow> inv t \<and> n + work t \<le> work s"
proof (induction n arbitrary: t)
  case (Suc n)
  then obtain u where u: "(step ^^ n) s u" "step u t" by auto
  note ih = Suc.IH [OF u(1) Suc.prems(2)]
  show ?case using inv_step [OF ih [THEN conjunct1] u(2)] work_step [OF ih [THEN conjunct1] u(2)] ih by simp
qed simp

end

text \<open>
  \<open>machine_refinement\<close>: every step of a detailed machine is a sequence of steps of an abstract one,
  seen through \<open>view\<close>; then so is every run, and what is invariant above holds below.
\<close>

lemma reaches_one: "step s t \<Longrightarrow> reaches step s t"
  by (rule reaches_step [OF reaches_refl])

lemma reaches_two: "step s t \<Longrightarrow> step t u \<Longrightarrow> reaches step s u"
  by (rule reaches_step [OF reaches_one])

lemma reaches_trans: "reaches step t u \<Longrightarrow> reaches step s t \<Longrightarrow> reaches step s u"
  by (induction rule: reaches.induct) (auto intro: reaches_step)

locale machine_refinement =
  fixes initial :: "'s \<Rightarrow> bool"
    and step :: "'s \<Rightarrow> 's \<Rightarrow> bool"
    and ainitial :: "'a \<Rightarrow> bool"
    and astep :: "'a \<Rightarrow> 'a \<Rightarrow> bool"
    and view :: "'s \<Rightarrow> 'a"
  assumes view_initial: "initial s \<Longrightarrow> ainitial (view s)"
    and view_step: "step s t \<Longrightarrow> reaches astep (view s) (view t)"
begin

lemma view_reaches: "reaches step s t \<Longrightarrow> reaches astep (view s) (view t)"
  by (induction rule: reaches.induct) (auto intro: reaches_refl reaches_trans [OF view_step])

end

end
