(* ===== verification/Epochs.thy ===== *)
theory Epochs
  imports Prelude
begin

text \<open>
  \<^verbatim>\<open>src/src/epoch.rs\<close> and \<^verbatim>\<open>src/src/error.rs\<close>.

  An epoch is a non-zero \<open>u64\<close>; it numbers the connections of a link set. The type wraps the
  integer, and \<open>valid_epoch\<close> is what \<open>NonZero<u64>\<close> guarantees; every operation keeps it.
  The derived \<open>Ord\<close> of the source is the \<open>linorder\<close> instance.
\<close>

section \<open>Errors\<close>

text \<open>A boxed \<open>dyn Error\<close> is only ever carried along, so it is the message it prints.\<close>

type_synonym boxed_error = string

datatype LinkSetError =
    IncorrectAddrType string string
  | DeserializeEOF
  | DeserializeInvalid u8
  | DeserializeInvalidLen
  | TaskTerminated boxed_error
  | SendableSerialization boxed_error
  | SendableDeserialization boxed_error
  | LinkError boxed_error
  | Implementation u32 u32
  | ReceiverTaken
  | Closed
  | Terminated

type_synonym 'a LinkSetResult = "LinkSetError + 'a"

section \<open>Epochs\<close>

datatype Epoch = Epoch u64

primrec to_int :: "Epoch \<Rightarrow> u64" where
  "to_int (Epoch n) = n"

definition valid_epoch :: "Epoch \<Rightarrow> bool" where
  "valid_epoch e = (0 < to_int e \<and> to_int e < u64_bound)"

definition valid_opt_epoch :: "Epoch option \<Rightarrow> bool" where
  "valid_opt_epoch e = (case e of None \<Rightarrow> True | Some e \<Rightarrow> valid_epoch e)"

instantiation Epoch :: linorder
begin

definition less_eq_Epoch :: "Epoch \<Rightarrow> Epoch \<Rightarrow> bool" where
  "less_eq_Epoch a b = (to_int a \<le> to_int b)"

definition less_Epoch :: "Epoch \<Rightarrow> Epoch \<Rightarrow> bool" where
  "less_Epoch a b = (to_int a < to_int b)"

instance
proof
  fix a b c :: Epoch
  show "a < b \<longleftrightarrow> a \<le> b \<and> \<not> b \<le> a"
    by (auto simp: less_eq_Epoch_def less_Epoch_def)
  show "a \<le> a"
    by (simp add: less_eq_Epoch_def)
  show "a \<le> b \<Longrightarrow> b \<le> c \<Longrightarrow> a \<le> c"
    by (simp add: less_eq_Epoch_def)
  show "a \<le> b \<Longrightarrow> b \<le> a \<Longrightarrow> a = b"
    by (cases a; cases b) (simp add: less_eq_Epoch_def)
  show "a \<le> b \<or> b \<le> a"
    by (auto simp: less_eq_Epoch_def)
qed

end

definition Epoch_ONE :: Epoch where
  "Epoch_ONE = Epoch 1"

definition from_int :: "u64 \<Rightarrow> Epoch option" where
  "from_int value = (if value = 0 then None else Some (Epoch value))"

text \<open>\<open>Epoch::random\<close>; the argument is the number drawn from the generator.\<close>

definition Epoch_random :: "u64 \<Rightarrow> Epoch" where
  "Epoch_random drawn = Epoch (if drawn = 0 then drawn + 1 else drawn)"

definition increment :: "Epoch \<Rightarrow> Epoch" where
  "increment e = Epoch (saturating_add_u64 (to_int e) 1)"

definition opt_epoch_to_int :: "Epoch option \<Rightarrow> u64" where
  "opt_epoch_to_int epoch = (case epoch of Some e \<Rightarrow> to_int e | None \<Rightarrow> 0)"

definition opt_epoch_increment :: "Epoch option \<Rightarrow> Epoch option" where
  "opt_epoch_increment epoch = map_option increment epoch"

datatype Ordering = Less | Equal | Greater

definition compare_epochs :: "Epoch option \<Rightarrow> Epoch option \<Rightarrow> Ordering" where
  "compare_epochs a b =
     (case a of
        Some epoch_a \<Rightarrow>
          (case b of
             Some epoch_b \<Rightarrow>
               if epoch_a < epoch_b then Less else if epoch_a = epoch_b then Equal else Greater
           | None \<Rightarrow> Greater)
      | None \<Rightarrow> Less)"

section \<open>Laws\<close>

lemma to_int_inject [simp]: "to_int a = to_int b \<longleftrightarrow> a = b"
  by (cases a; cases b) simp

lemma from_int_to_int: "valid_epoch e \<Longrightarrow> from_int (to_int e) = Some e"
  by (cases e) (simp add: from_int_def valid_epoch_def)

lemma from_int_opt: "valid_opt_epoch e \<Longrightarrow> from_int (opt_epoch_to_int e) = e"
proof (cases e)
  case None
  then show ?thesis by (simp add: opt_epoch_to_int_def from_int_def)
next
  case (Some x)
  assume "valid_opt_epoch e"
  with Some show ?thesis by (simp add: opt_epoch_to_int_def valid_opt_epoch_def from_int_to_int)
qed

lemma valid_from_int: "n < u64_bound \<Longrightarrow> valid_opt_epoch (from_int n)"
  by (simp add: from_int_def valid_opt_epoch_def valid_epoch_def)

lemma opt_epoch_to_int_from_int [simp]: "opt_epoch_to_int (from_int n) = n"
  by (simp add: from_int_def opt_epoch_to_int_def)

lemma opt_epoch_to_int_bound: "valid_opt_epoch e \<Longrightarrow> opt_epoch_to_int e < u64_bound"
  by (auto simp: valid_opt_epoch_def opt_epoch_to_int_def valid_epoch_def split: option.splits)

lemma valid_epoch_ONE [simp, wf_intros]: "valid_epoch Epoch_ONE"
  by (simp add: Epoch_ONE_def valid_epoch_def)

lemma valid_increment [wf_intros]: "valid_epoch e \<Longrightarrow> valid_epoch (increment e)"
  by (simp add: valid_epoch_def increment_def saturating_add_u64_def)

lemma valid_random [wf_intros]: "n < u64_bound \<Longrightarrow> valid_epoch (Epoch_random n)"
  by (simp add: valid_epoch_def Epoch_random_def)

lemma increment_ge: "valid_epoch e \<Longrightarrow> e \<le> increment e"
  by (auto simp: less_eq_Epoch_def increment_def saturating_add_u64_def valid_epoch_def)

lemma increment_gt:
  "valid_epoch e \<Longrightarrow> e < increment e \<longleftrightarrow> to_int e \<noteq> u64_bound - 1"
  by (auto simp: less_Epoch_def increment_def saturating_add_u64_def valid_epoch_def)

text \<open>The order in which a node's epoch moves: no epoch at all is below every epoch.\<close>

definition opt_epoch_le :: "Epoch option \<Rightarrow> Epoch option \<Rightarrow> bool" where
  "opt_epoch_le a b = (opt_epoch_to_int a \<le> opt_epoch_to_int b)"

lemma opt_epoch_le_refl [simp]: "opt_epoch_le a a"
  by (simp add: opt_epoch_le_def)

lemma opt_epoch_le_trans: "opt_epoch_le a b \<Longrightarrow> opt_epoch_le b c \<Longrightarrow> opt_epoch_le a c"
  by (simp add: opt_epoch_le_def)

lemma opt_epoch_le_Some [simp]: "opt_epoch_le (Some a) (Some b) \<longleftrightarrow> a \<le> b"
  by (simp add: opt_epoch_le_def opt_epoch_to_int_def less_eq_Epoch_def)

lemma opt_epoch_le_None [simp]: "opt_epoch_le None b"
  by (simp add: opt_epoch_le_def opt_epoch_to_int_def)

lemma compare_epochs_Equal:
  "compare_epochs a b = Equal \<longleftrightarrow> (\<exists>e. a = Some e \<and> b = Some e)"
  by (auto simp: compare_epochs_def split: option.splits if_splits)

lemma compare_epochs_Greater:
  "compare_epochs a b = Greater \<longleftrightarrow> a \<noteq> None \<and> (\<forall>e. b = Some e \<longrightarrow> e < the a)"
  by (auto simp: compare_epochs_def split: option.splits if_splits)

lemma compare_epochs_Less:
  "compare_epochs a b = Less \<longleftrightarrow> a = None \<or> (\<exists>e f. a = Some e \<and> b = Some f \<and> e < f)"
  by (auto simp: compare_epochs_def split: option.splits if_splits)

lemma compare_epochs_Less_le: "compare_epochs a b = Less \<Longrightarrow> opt_epoch_le a b"
  by (auto simp: compare_epochs_Less)

end
