(* ===== verification/Protocol.thy ===== *)
theory Protocol
  imports Epochs
begin

text \<open>
  \<^verbatim>\<open>src/src/protocol.rs\<close>: the messages two link sets exchange and their bytes on a link.

  \<open>serialize\<close> and \<open>deserialize\<close> follow the source field by field. \<open>deserialize\<close> takes the
  bytes of the \<open>VecDeque\<close> and returns the message with the bytes that are left; what is left of
  the buffer after an error is not modelled, since every caller drops it. The locale \<open>codec\<close> is
  the contract of an encoder and a decoder that reads a prefix; \<open>u64\<close> values and protocol
  messages are its instances.
\<close>

section \<open>The contract of a self-delimiting encoding\<close>

locale codec =
  fixes encode :: "'a \<Rightarrow> bytes"
    and decode :: "bytes \<Rightarrow> 'e + ('a \<times> bytes)"
    and valid :: "'a \<Rightarrow> bool"
  assumes decode_encode: "valid a \<Longrightarrow> decode (encode a @ rest) = Inr (a, rest)"
begin

lemma encode_prefix_free:
  assumes "valid a" "valid b" "encode a @ r = encode b @ s"
  shows "a = b \<and> r = s"
proof -
  have "Inr (a, r) = decode (encode b @ s)"
    using decode_encode [OF assms(1), of r] by (simp only: assms(3))
  then show ?thesis
    using decode_encode [OF assms(2), of s] by simp
qed

lemma encode_inj: "valid a \<Longrightarrow> valid b \<Longrightarrow> encode a = encode b \<Longrightarrow> a = b"
  using encode_prefix_free [of a b "[]" "[]"] by simp

lemma concat_encode_inj:
  assumes nonempty: "\<And>a. encode a \<noteq> []"
  shows "list_all valid as \<Longrightarrow> list_all valid bs \<Longrightarrow>
    concat (map encode as) = concat (map encode bs) \<Longrightarrow> as = bs"
proof (induction as arbitrary: bs)
  case Nil
  then show ?case using nonempty by (cases bs) simp_all
next
  case (Cons a as)
  obtain b bs' where bs: "bs = b # bs'"
    using Cons.prems(3) nonempty by (cases bs) simp_all
  have eq: "encode a @ concat (map encode as) = encode b @ concat (map encode bs')"
    and valid: "valid a" "valid b"
    using Cons.prems bs by simp_all
  from encode_prefix_free [OF valid eq] have "a = b"
    and "concat (map encode as) = concat (map encode bs')"
    by simp_all
  with Cons.IH [of bs'] Cons.prems bs show ?case by simp
qed

end

section \<open>Reading from the front of a buffer\<close>

definition pop_front :: "bytes \<Rightarrow> LinkSetError + (u8 \<times> bytes)" where
  "pop_front data = (case data of [] \<Rightarrow> Inl DeserializeEOF | b # bs \<Rightarrow> Inr (b, bs))"

definition read_exact :: "nat \<Rightarrow> bytes \<Rightarrow> LinkSetError + (bytes \<times> bytes)" where
  "read_exact n data =
     (if length data < n then Inl DeserializeEOF else Inr (take n data, drop n data))"

definition read_u64 :: "bytes \<Rightarrow> LinkSetError + (u64 \<times> bytes)" where
  "read_u64 data =
     and_then (read_exact 8 data) (\<lambda>(buf, data). Inr (from_be_bytes buf, data))"

lemma pop_front_Cons [simp]: "pop_front (b # bs) = Inr (b, bs)"
  by (simp add: pop_front_def)

lemma pop_front_Inr: "pop_front data = Inr (b, rest) \<longleftrightarrow> data = b # rest"
  by (cases data) (auto simp: pop_front_def)

lemma read_u64_encoded [simp]:
  "n < u64_bound \<Longrightarrow> read_u64 (to_be_bytes 8 n @ rest) = Inr (n, rest)"
  by (simp add: read_u64_def read_exact_def)

lemma read_u64_Inr:
  "read_u64 data = Inr (n, rest) \<Longrightarrow> n < u64_bound \<and> data = to_be_bytes 8 n @ rest"
proof -
  assume a: "read_u64 data = Inr (n, rest)"
  then have l: "length (take 8 data) = 8" and n: "n = from_be_bytes (take 8 data)"
    and rest: "rest = drop 8 data"
    by (auto simp: read_u64_def read_exact_def split: if_splits)
  have "n < u64_bound"
    using from_be_bytes_bound [of "take 8 data"] l n by simp
  moreover have "to_be_bytes 8 n = take 8 data"
    using to_from_be_bytes [of "take 8 data"] by (simp only: l n)
  ultimately show ?thesis using rest by simp
qed

interpretation u64_codec: codec "to_be_bytes 8" read_u64 "\<lambda>n. n < u64_bound"
  by unfold_locales simp

section \<open>The protocol\<close>

datatype LinkProtocol =
    Reset "Epoch option" bool
  | Ack u64 u64 u64
  | MsgSlice u64 u64 u64 u64 bytes
  | Ping
  | Pong

fun serialize :: "LinkProtocol \<Rightarrow> bytes" where
  "serialize (Reset epoch reply) =
     [0] @ to_be_bytes 8 (opt_epoch_to_int epoch) @ [if reply then 1 else 0]"
| "serialize (Ack epoch seq last_index) =
     [1] @ to_be_bytes 8 epoch @ to_be_bytes 8 seq @ to_be_bytes 8 last_index"
| "serialize (MsgSlice epoch seq seq_len first_index data) =
     [2] @ to_be_bytes 8 epoch @ to_be_bytes 8 seq @ to_be_bytes 8 seq_len @
     to_be_bytes 8 first_index @ to_be_bytes 8 (length data) @ data"
| "serialize Ping = [3]"
| "serialize Pong = [4]"

definition deserialize_Reset :: "bytes \<Rightarrow> LinkSetError + (LinkProtocol \<times> bytes)" where
  "deserialize_Reset data =
     and_then (read_u64 data) (\<lambda>(epoch, data).
     and_then (pop_front data) (\<lambda>(reply, data).
     Inr (Reset (from_int epoch) (reply \<noteq> 0), data)))"

definition deserialize_Ack :: "bytes \<Rightarrow> LinkSetError + (LinkProtocol \<times> bytes)" where
  "deserialize_Ack data =
     and_then (read_u64 data) (\<lambda>(epoch, data).
     and_then (read_u64 data) (\<lambda>(seq, data).
     and_then (read_u64 data) (\<lambda>(last_index, data).
     Inr (Ack epoch seq last_index, data))))"

definition deserialize_MsgSlice :: "bytes \<Rightarrow> LinkSetError + (LinkProtocol \<times> bytes)" where
  "deserialize_MsgSlice data =
     and_then (read_u64 data) (\<lambda>(epoch, data).
     and_then (read_u64 data) (\<lambda>(seq, data).
     and_then (read_u64 data) (\<lambda>(seq_len, data).
     and_then (read_u64 data) (\<lambda>(first_index, data).
     and_then (read_u64 data) (\<lambda>(data_len, data).
     if data_len = 0 then Inl DeserializeInvalidLen
     else if length data < data_len then Inl DeserializeEOF
     else Inr (MsgSlice epoch seq seq_len first_index (take data_len data), drop data_len data))))))"

definition deserialize :: "bytes \<Rightarrow> LinkSetError + (LinkProtocol \<times> bytes)" where
  "deserialize data =
     and_then (pop_front data) (\<lambda>(variant, data).
     if variant = 0 then deserialize_Reset data
     else if variant = 1 then deserialize_Ack data
     else if variant = 2 then deserialize_MsgSlice data
     else if variant = 3 then Inr (Ping, data)
     else if variant = 4 then Inr (Pong, data)
     else Inl (DeserializeInvalid variant))"

text \<open>
  What the Rust types of a message guarantee, and that a slice carries data: \<open>deserialize\<close>
  refuses a slice without.
\<close>

fun valid_proto :: "LinkProtocol \<Rightarrow> bool" where
  "valid_proto (Reset epoch _) = valid_opt_epoch epoch"
| "valid_proto (Ack epoch seq last_index) =
     (epoch < u64_bound \<and> seq < u64_bound \<and> last_index < u64_bound)"
| "valid_proto (MsgSlice epoch seq seq_len first_index data) =
     (epoch < u64_bound \<and> seq < u64_bound \<and> seq_len < u64_bound \<and> first_index < u64_bound \<and>
      0 < length data \<and> length data < u64_bound)"
| "valid_proto Ping = True"
| "valid_proto Pong = True"

lemmas deserialize_defs =
  deserialize_def deserialize_Reset_def deserialize_Ack_def deserialize_MsgSlice_def

lemma deserialize_serialize: "valid_proto p \<Longrightarrow> deserialize (serialize p @ rest) = Inr (p, rest)"
  by (cases p) (auto simp: deserialize_defs from_int_opt opt_epoch_to_int_bound)

interpretation proto_codec: codec serialize deserialize valid_proto
  by unfold_locales (rule deserialize_serialize)

lemma serialize_nonempty [simp]: "serialize p \<noteq> []"
  by (cases p) auto

lemma length_serialize:
  "length (serialize p) =
     (case p of Reset _ _ \<Rightarrow> 10 | Ack _ _ _ \<Rightarrow> 25 | MsgSlice _ _ _ _ data \<Rightarrow> 41 + length data
      | Ping \<Rightarrow> 1 | Pong \<Rightarrow> 1)"
  by (cases p) auto

lemma deserialize_valid:
  assumes "deserialize data = Inr (p, rest)" "length data < u64_bound"
  shows "valid_proto p"
  using assms
  by (auto simp: deserialize_defs and_then_Inr pop_front_Inr valid_from_int
      split: if_splits dest!: read_u64_Inr)

lemma deserialize_consumes:
  assumes "deserialize data = Inr (p, rest)"
  shows "length rest < length data"
  using assms
  by (auto simp: deserialize_defs and_then_Inr pop_front_Inr split: if_splits dest!: read_u64_Inr)

section \<open>Properties\<close>

text \<open>
  C29: every message survives the wire: reading back what was written gives the same message and
  leaves exactly the bytes that follow it.
\<close>

theorem protocol_round_trip:
  assumes "valid_proto p"
  shows "deserialize (serialize p @ rest) = Inr (p, rest)"
  by (rule deserialize_serialize [OF assms])

lemma protocol_round_trip_witness:
  "deserialize (serialize (MsgSlice 1 2 300 4 [9, 9]) @ [8]) = Inr (MsgSlice 1 2 300 4 [9, 9], [8])"
  by (rule protocol_round_trip) simp

text \<open>
  C30: whatever bytes arrive, a message that is read from them is one that the sending side could
  have written, and exactly the bytes of its written form are consumed.
\<close>

theorem deserialize_sound:
  assumes "deserialize data = Inr (p, rest)" "length data < u64_bound"
  shows "valid_proto p \<and> length data = length (serialize p) + length rest \<and>
    rest = drop (length (serialize p)) data"
  using deserialize_valid [OF assms] assms(1)
  by (auto simp: deserialize_defs and_then_Inr pop_front_Inr min_def drop_Cons'
      split: if_splits dest!: read_u64_Inr)

lemma deserialize_sound_witness:
  "valid_proto Ping \<and> length [3 :: u8, 7] = length (serialize Ping) + length [7 :: u8] \<and>
    [7] = drop (length (serialize Ping)) [3 :: u8, 7]"
  by (rule deserialize_sound) (simp_all add: deserialize_def)

end
