(* ===== verification/Slice_Manager.thy ===== *)
theory Slice_Manager
  imports Protocol
begin

text \<open>
  \<^verbatim>\<open>src/src/slice_manager.rs\<close>: a message cut into slices, at the sender (which bytes are still
  to be acknowledged) and at the receiver (which bytes have arrived).

  The field \<open>slices\<close> maps the first index of a run of bytes to its last index. The loops of
  \<open>add_slice\<close> and \<open>remove_slice\<close> walk over the map with a cursor and remove an entry in every
  round, which is why they end; \<open>make_slices\<close> moves a cursor forward by the size of a slice and
  would not end if that addition wrapped around to the start, so it is a partial function and
  the lemmas below show that it returns.
\<close>

section \<open>State and operations\<close>

record SliceManager =
  sm_epoch :: Epoch
  sm_seq :: u64
  sm_data :: bytes
  sm_slices :: "(u64, u64) btree_map"

text \<open>\<open>isize::MAX\<close>, the largest number of bytes a vector can hold.\<close>

abbreviation isize_max :: nat where "isize_max \<equiv> 9223372036854775807"

text \<open>\<open>vec![0; size]\<close> panics with a capacity overflow beyond \<open>isize::MAX\<close> bytes.\<close>

definition SliceManager_new :: "Epoch \<Rightarrow> u64 \<Rightarrow> u64 \<Rightarrow> SliceManager option" where
  "SliceManager_new epoch seq len =
     (if isize_max < len then None
      else Some \<lparr>sm_epoch = epoch, sm_seq = seq, sm_data = replicate len 0, sm_slices = []\<rparr>)"

definition SliceManager_from_vec :: "Epoch \<Rightarrow> u64 \<Rightarrow> bytes \<Rightarrow> SliceManager" where
  "SliceManager_from_vec epoch seq data =
     \<lparr>sm_epoch = epoch, sm_seq = seq, sm_data = data,
      sm_slices = (if data \<noteq> [] then bt_insert 0 (length data - 1) [] else [])\<rparr>"

definition SliceManager_is_full :: "bool \<Rightarrow> SliceManager \<Rightarrow> bool option" where
  "SliceManager_is_full oc sm =
     (if length (sm_slices sm) = 1
      then do { final \<leftarrow> sub_u64 oc (length (sm_data sm)) 1;
                Some (bt_first (sm_slices sm) = Some (0, final)) }
      else Some False)"

definition SliceManager_is_empty :: "SliceManager \<Rightarrow> bool" where
  "SliceManager_is_empty sm = (sm_slices sm = [])"

definition SliceManager_data :: "bool \<Rightarrow> SliceManager \<Rightarrow> bytes option option" where
  "SliceManager_data oc sm =
     do { full \<leftarrow> SliceManager_is_full oc sm; Some (if full then Some (sm_data sm) else None) }"

definition last_head_index :: "SliceManager \<Rightarrow> u64 option" where
  "last_head_index sm =
     (case bt_first (sm_slices sm) of
        None \<Rightarrow> None
      | Some (start, stop) \<Rightarrow> if start \<noteq> 0 then None else Some stop)"

lemma length_bt_remove_first:
  "bt_first (bt_from c m) = Some (k, v) \<Longrightarrow> length (bt_remove k m) < length m"
proof -
  assume "bt_first (bt_from c m) = Some (k, v)"
  then have "(k, v) \<in> set (bt_from c m)"
    by (auto simp: bt_first_def split: list.splits)
  then have "(k, v) \<in> set m"
    by (simp add: bt_from_keys)
  then show ?thesis
    unfolding bt_remove_def bt_retain_def by (rule length_filter_less) simp
qed

function add_slice_loop ::
  "(u64, u64) btree_map \<Rightarrow> u64 \<Rightarrow> u64 \<Rightarrow> (u64, u64) btree_map \<times> u64" where
  "add_slice_loop slices cursor stop =
     (case bt_first (bt_from cursor slices) of
        None \<Rightarrow> (slices, stop)
      | Some (next_start, next_end) \<Rightarrow>
          if next_end \<le> stop
          then (if stop < next_end then (bt_remove next_start slices, stop)
                else add_slice_loop (bt_remove next_start slices) next_end stop)
          else (bt_remove next_start slices, next_end))"
  by pat_completeness auto
termination
  by (relation "measure (\<lambda>(slices, _, _). length slices)") (auto simp: length_bt_remove_first)

declare add_slice_loop.simps [simp del]

definition add_slice :: "(u64, u64) btree_map \<Rightarrow> u64 \<Rightarrow> u64 \<Rightarrow> (u64, u64) btree_map" where
  "add_slice slices0 start stop0 =
     (let (slices, stop) = add_slice_loop slices0 start stop0
      in case bt_last (bt_below start slices) of
           None \<Rightarrow> bt_insert start stop slices
         | Some (prev_start, prev_end) \<Rightarrow>
             if stop \<le> prev_end then slices
             else if start - 1 \<le> prev_end then bt_insert prev_start stop slices
             else bt_insert start stop slices)"

function remove_slice_loop ::
  "bool \<Rightarrow> (u64, u64) btree_map \<Rightarrow> u64 \<Rightarrow> u64 \<Rightarrow> (u64, u64) btree_map option" where
  "remove_slice_loop oc slices cursor stop =
     (case bt_first (bt_from cursor slices) of
        None \<Rightarrow> Some slices
      | Some (next_start, next_end) \<Rightarrow>
          if next_end \<le> stop
          then (if stop < next_end then Some (bt_remove next_start slices)
                else remove_slice_loop oc (bt_remove next_start slices) next_end stop)
          else do { new_start \<leftarrow> add_u64 oc stop 1;
                    Some (bt_insert new_start next_end (bt_remove next_start slices)) })"
  by pat_completeness auto
termination
  by (relation "measure (\<lambda>(_, slices, _, _). length slices)") (auto simp: length_bt_remove_first)

declare remove_slice_loop.simps [simp del]

definition remove_slice ::
  "bool \<Rightarrow> (u64, u64) btree_map \<Rightarrow> u64 \<Rightarrow> u64 \<Rightarrow> (u64, u64) btree_map option" where
  "remove_slice oc slices start stop =
     (if start = stop then Some slices
      else case bt_last (bt_below start slices) of
          None \<Rightarrow> remove_slice_loop oc slices start stop
        | Some (prev_start, old_prev_end) \<Rightarrow>
            do { new_prev_end \<leftarrow> sub_u64 oc start 1;
                 let slices = bt_insert prev_start new_prev_end slices;
                 if stop < old_prev_end
                 then do { new_start \<leftarrow> add_u64 oc stop 1;
                           Some (bt_insert new_start old_prev_end slices) }
                 else remove_slice_loop oc slices start stop })"

text \<open>
  The range indexing \<open>self.data[first..=last]\<close> and \<open>data[..=length]\<close> panics when the range
  reaches beyond the vector.
\<close>

definition SliceManager_recv_slice ::
  "bool \<Rightarrow> SliceManager \<Rightarrow> Epoch \<Rightarrow> u64 \<Rightarrow> u64 \<Rightarrow> bytes \<Rightarrow> SliceManager option" where
  "SliceManager_recv_slice oc sm epoch seq first_index data =
     (if epoch \<noteq> sm_epoch sm \<or> seq \<noteq> sm_seq sm then Some sm
      else do {
        next_index \<leftarrow> add_u64 oc first_index (length data);
        last_index \<leftarrow> sub_u64 oc next_index 1;
        cap \<leftarrow> sub_u64 oc (length (sm_data sm)) 1;
        let last_index = min last_index cap;
        if last_index < first_index then Some sm
        else do {
          len \<leftarrow> sub_u64 oc last_index first_index;
          if length (sm_data sm) \<le> last_index \<or> length data \<le> len then None
          else Some (sm\<lparr>
            sm_slices := add_slice (sm_slices sm) first_index last_index,
            sm_data := take first_index (sm_data sm) @ take (len + 1) data
                       @ drop (last_index + 1) (sm_data sm)\<rparr>) } })"

definition SliceManager_ack :: "bool \<Rightarrow> SliceManager \<Rightarrow> Epoch \<Rightarrow> u64 \<Rightarrow> u64 \<Rightarrow> SliceManager option" where
  "SliceManager_ack oc sm epoch seq last_index =
     (if epoch \<noteq> sm_epoch sm \<or> seq \<noteq> sm_seq sm then Some sm
      else do { slices \<leftarrow> remove_slice oc (sm_slices sm) 0 last_index;
                Some (sm\<lparr>sm_slices := slices\<rparr>) })"

partial_function (option) make_slices_loop ::
  "bool \<Rightarrow> bytes \<Rightarrow> Epoch \<Rightarrow> u64 \<Rightarrow> u32 \<Rightarrow> u64 \<Rightarrow> u64 \<Rightarrow> LinkProtocol list option" where
  "make_slices_loop oc data epoch seq slice_size stop cursor =
     do { next_cursor \<leftarrow> add_u64 oc cursor slice_size;
          size_end \<leftarrow> sub_u64 oc next_cursor 1;
          data_end \<leftarrow> sub_u64 oc (length data) 1;
          let slice_end = min (min size_end stop) data_end;
          if slice_end < cursor then Some []
          else if length data \<le> slice_end then None
          else do {
            let slice = MsgSlice (to_int epoch) seq (length data) cursor
                          (take (slice_end + 1 - cursor) (drop cursor data));
            if stop < next_cursor then Some [slice]
            else do { rest \<leftarrow> make_slices_loop oc data epoch seq slice_size stop next_cursor;
                      Some (slice # rest) } } }"

definition make_slices ::
  "bool \<Rightarrow> bytes \<Rightarrow> Epoch \<Rightarrow> u64 \<Rightarrow> u64 \<Rightarrow> u32 \<Rightarrow> u64 \<Rightarrow> LinkProtocol list option" where
  "make_slices oc data epoch seq start slice_size stop =
     (if slice_size = 0 then Some [] else make_slices_loop oc data epoch seq slice_size stop start)"

fun get_slices_of ::
  "bool \<Rightarrow> SliceManager \<Rightarrow> u32 \<Rightarrow> (u64, u64) btree_map \<Rightarrow> LinkProtocol list option" where
  "get_slices_of oc sm slice_size [] = Some []"
| "get_slices_of oc sm slice_size ((next_start, next_end) # slices) =
     do { ps \<leftarrow> make_slices oc (sm_data sm) (sm_epoch sm) (sm_seq sm) next_start slice_size next_end;
          qs \<leftarrow> get_slices_of oc sm slice_size slices;
          Some (ps @ qs) }"

definition get_slices :: "bool \<Rightarrow> SliceManager \<Rightarrow> u32 \<Rightarrow> LinkProtocol list option" where
  "get_slices oc sm slice_size = get_slices_of oc sm slice_size (sm_slices sm)"

section \<open>Which bytes a slice map covers\<close>

definition covered :: "(u64, u64) btree_map \<Rightarrow> nat set" where
  "covered m = {i. \<exists>p \<in> set m. fst p \<le> i \<and> i \<le> snd p}"

definition wf_slices :: "nat \<Rightarrow> (u64, u64) btree_map \<Rightarrow> bool" where
  "wf_slices n m =
     (sorted_wrt (\<lambda>p q. Suc (snd p) < fst q) m \<and> (\<forall>p \<in> set m. fst p \<le> snd p \<and> snd p < n))"

lemma covered_simps [simp]:
  "covered [] = {}"
  "covered (p # m) = {fst p..snd p} \<union> covered m"
  "covered (m @ m') = covered m \<union> covered m'"
  by (auto simp: covered_def)

lemma wf_slices_Nil [simp]: "wf_slices n []"
  by (simp add: wf_slices_def)

lemma wf_slices_Cons [simp]:
  "wf_slices n (p # m) \<longleftrightarrow>
     fst p \<le> snd p \<and> snd p < n \<and> (\<forall>q \<in> set m. Suc (snd p) < fst q) \<and> wf_slices n m"
  by (auto simp: wf_slices_def)

lemma wf_slices_append:
  "wf_slices n (m @ m') \<longleftrightarrow>
     wf_slices n m \<and> wf_slices n m' \<and> (\<forall>p \<in> set m. \<forall>q \<in> set m'. Suc (snd p) < fst q)"
  by (auto simp: wf_slices_def sorted_wrt_append)

lemma wf_slicesD: "wf_slices n m \<Longrightarrow> p \<in> set m \<Longrightarrow> fst p \<le> snd p \<and> snd p < n"
  by (simp add: wf_slices_def)

lemma wf_slices_bt_wf: "wf_slices n m \<Longrightarrow> bt_wf m"
  by (induction m) fastforce+

lemma covered_bound: "wf_slices n m \<Longrightarrow> covered m \<subseteq> {..<n}"
  by (fastforce simp: covered_def wf_slices_def)

section \<open>What add_slice marks as received\<close>

text \<open>
  The loop of \<open>add_slice\<close> on the entries from the new slice's start on: entries that end inside
  the new slice are dropped, and the first entry that ends after it is dropped too and extends it.
\<close>

fun absorb :: "(u64, u64) btree_map \<Rightarrow> u64 \<Rightarrow> (u64, u64) btree_map \<times> u64" where
  "absorb [] stop = ([], stop)"
| "absorb (p # m) stop = (if snd p \<le> stop then absorb m stop else (m, snd p))"

lemma add_slice_loop_absorb:
  assumes "wf_slices n (l @ r)" "\<forall>p \<in> set l. fst p < c" "\<forall>p \<in> set r. c \<le> fst p"
  shows "add_slice_loop (l @ r) c stop = (l @ fst (absorb r stop), snd (absorb r stop))"
  using assms
proof (induction r arbitrary: c)
  case Nil
  then show ?case
    using bt_from_append [of l c "[]"] by (simp add: add_slice_loop.simps)
next
  case (Cons p r)
  obtain s e where p: "p = (s, e)" by (cases p)
  have frm: "bt_from c (l @ p # r) = p # r"
    using Cons.prems by (intro bt_from_append) auto
  have rm: "bt_remove s (l @ p # r) = l @ r"
    using Cons.prems(1) p by (simp add: bt_remove_mid wf_slices_bt_wf)
  show ?case
  proof (cases "e \<le> stop")
    case True
    have "add_slice_loop (l @ r) e stop = (l @ fst (absorb r stop), snd (absorb r stop))"
      using Cons.prems p by (intro Cons.IH) (fastforce simp: wf_slices_append)+
    with True frm rm p show ?thesis
      by (simp add: add_slice_loop.simps [of "l @ (s, e) # r" c])
  next
    case False
    with frm rm p show ?thesis
      by (simp add: add_slice_loop.simps [of "l @ (s, e) # r" c])
  qed
qed

lemma absorb_snd_ge: "stop \<le> snd (absorb r stop)"
  by (induction r) auto

lemma absorb_subset: "set (fst (absorb r stop)) \<subseteq> set r"
  by (induction r) auto

lemma absorb_props:
  assumes "wf_slices n r" "stop < n"
  shows "wf_slices n (fst (absorb r stop))" "snd (absorb r stop) < n"
    "\<forall>p \<in> set (fst (absorb r stop)). Suc (snd (absorb r stop)) < fst p"
  using assms by (induction r) auto

lemma absorb_covered:
  assumes "wf_slices n r" "\<forall>p \<in> set r. start \<le> fst p"
  shows "covered (fst (absorb r stop)) \<union> {start..snd (absorb r stop)}
    = covered r \<union> {start..snd (absorb r stop)}"
  using assms
proof (induction r)
  case Nil
  then show ?case by simp
next
  case (Cons p r)
  have "snd p \<le> stop \<Longrightarrow> snd p \<le> snd (absorb r stop)"
    using absorb_snd_ge [of stop r] by simp
  with Cons show ?case by auto
qed

text \<open>The last index that is marked, as a function of the map alone.\<close>

definition absorbed_end :: "(u64, u64) btree_map \<Rightarrow> u64 \<Rightarrow> u64 \<Rightarrow> u64" where
  "absorbed_end m start stop =
     (case filter (\<lambda>p. start \<le> fst p \<and> stop < snd p) m of [] \<Rightarrow> stop | p # _ \<Rightarrow> snd p)"

lemma snd_absorb: "\<forall>p \<in> set r. start \<le> fst p \<Longrightarrow> snd (absorb r stop) = absorbed_end r start stop"
  by (induction r) (auto simp: absorbed_end_def)

lemma absorbed_end_split:
  "bt_wf m \<Longrightarrow> absorbed_end m start stop = snd (absorb (bt_from start m) stop)"
proof -
  assume "bt_wf m"
  have "absorbed_end m start stop = absorbed_end (bt_from start m) start stop"
    by (simp add: absorbed_end_def bt_from_def bt_retain_def conj_ac cong: conj_cong)
  also have "\<dots> = snd (absorb (bt_from start m) stop)"
    by (rule snd_absorb [symmetric]) (auto dest: bt_from_keys)
  finally show ?thesis .
qed

lemma add_slice_eq:
  assumes "wf_slices n m" "l = bt_below start m" "(r, e) = absorb (bt_from start m) stop"
    "start \<le> stop" "stop < n"
  shows "add_slice m start stop =
    (if l \<noteq> [] \<and> e \<le> snd (last l) then l @ r
     else if l \<noteq> [] \<and> start - 1 \<le> snd (last l) then butlast l @ (fst (last l), e) # r
     else l @ (start, e) # r)"
proof -
  have m: "l @ bt_from start m = m"
    using bt_split [OF wf_slices_bt_wf [OF assms(1)], of start] assms(2) by simp
  have l: "\<forall>p \<in> set l. fst p < start"
    using assms(2) by (auto dest: bt_below_keys)
  have f: "\<forall>p \<in> set (bt_from start m). start \<le> fst p"
    by (auto dest: bt_from_keys)
  have re: "fst (absorb (bt_from start m) stop) = r" "snd (absorb (bt_from start m) stop) = e"
    using assms(3) by (metis fst_conv, metis snd_conv)
  have loop: "add_slice_loop m start stop = (l @ r, e)"
    using add_slice_loop_absorb [of n l "bt_from start m" start stop] m l f assms(1) re by simp
  have wf: "wf_slices n (l @ bt_from start m)"
    using m assms(1) by simp
  have r: "set r \<subseteq> set (bt_from start m)"
    using absorb_subset [of "bt_from start m" stop] re by simp
  have bel: "bt_below start (l @ r) = l"
    using l f r by (intro bt_below_append) auto
  have gt: "\<forall>p \<in> set r. start < fst p" and "start \<le> e"
    using absorb_props(3) [of n "bt_from start m" stop] absorb_snd_ge [of stop "bt_from start m"]
      wf assms(4,5) re by (auto simp: wf_slices_append)
  then have ins: "bt_insert start e (l @ r) = l @ (start, e) # r"
    using l by (intro bt_insert_between) auto
  show ?thesis
  proof (cases l rule: rev_cases)
    case Nil
    with loop bel ins show ?thesis by (simp add: add_slice_def)
  next
    case (snoc l' p)
    have "bt_wf r"
      using absorb_props(1) [of n "bt_from start m" stop] wf assms(5) re
      by (auto simp: wf_slices_append intro: wf_slices_bt_wf)
    moreover have "bt_wf l"
      using wf by (auto simp: wf_slices_append intro: wf_slices_bt_wf)
    ultimately have "bt_wf (l' @ (fst p, snd p) # r)"
      using snoc l gt by (fastforce simp: bt_wf_append)
    with snoc loop bel ins show ?thesis
      by (auto simp: add_slice_def bt_insert_mid split: prod.splits)
  qed
qed


lemma wf_slices_add_slice:
  assumes "wf_slices n m" "start \<le> stop" "stop < n"
  shows "wf_slices n (add_slice m start stop)"
    and covered_add_slice: "covered (add_slice m start stop) = covered m \<union> {start..absorbed_end m start stop}"
proof -
  define l where "l = bt_below start m"
  define f where "f = bt_from start m"
  obtain r e where re: "(r, e) = absorb f stop"
    by (metis surj_pair)
  then have re': "fst (absorb f stop) = r" "snd (absorb f stop) = e"
    by (metis fst_conv, metis snd_conv)
  have m: "m = l @ f"
    using bt_split [OF wf_slices_bt_wf [OF assms(1)], of start] by (simp add: l_def f_def)
  have keys: "\<forall>p \<in> set l. fst p < start" "\<forall>p \<in> set f. start \<le> fst p"
    by (auto simp: l_def f_def dest: bt_below_keys bt_from_keys)
  have wl: "wf_slices n l" and wf: "wf_slices n f"
    and sep: "\<forall>p \<in> set l. \<forall>q \<in> set f. Suc (snd p) < fst q"
    using assms(1) by (simp_all add: m wf_slices_append)
  note r = absorb_props [OF wf assms(3), unfolded re']
  have rf: "set r \<subseteq> set f" and e: "stop \<le> e"
    using absorb_subset [of f stop] absorb_snd_ge [of stop f] re' by simp_all
  have cov: "covered r \<union> {start..e} = covered f \<union> {start..e}"
    using absorb_covered [OF wf keys(2), of stop] re' by simp
  have ae: "absorbed_end m start stop = e"
    using absorbed_end_split [OF wf_slices_bt_wf [OF assms(1)], of start stop] re' by (simp add: f_def)
  note eq = add_slice_eq [OF assms(1) l_def re [unfolded f_def] assms(2,3)]
  have lr: "\<forall>p \<in> set l. \<forall>q \<in> set r. Suc (snd p) < fst q"
    using sep rf by blast
  have "wf_slices n (add_slice m start stop) \<and>
    covered (add_slice m start stop) = covered l \<union> covered f \<union> {start..e}"
  proof (cases l rule: rev_cases)
    case Nil
    then show ?thesis
      using eq r e cov assms(2) by (simp add: Un_commute)
  next
    case (snoc l' p)
    have p: "fst p < start" "fst p \<le> snd p" "snd p < n" "wf_slices n l'"
      "\<forall>q \<in> set l'. Suc (snd q) < fst p" "\<forall>q \<in> set r. Suc (snd p) < fst q"
      "\<forall>p \<in> set l'. \<forall>q \<in> set r. Suc (snd p) < fst q"
      using keys(1) wl lr by (simp_all add: snoc wf_slices_append)
    consider (inside) "e \<le> snd p" | (overlap) "snd p < e" "start - 1 \<le> snd p"
      | (apart) "Suc (snd p) < start" "snd p < e"
      using e assms(2) by linarith
    then show ?thesis
    proof cases
      case inside
      then have "add_slice m start stop = l @ r"
        using eq snoc by simp
      moreover have "{start..e} \<subseteq> covered l"
        using inside p(1) by (auto simp: snoc)
      ultimately show ?thesis
        using cov wl r(1) lr by (auto simp: wf_slices_append)
    next
      case overlap
      then have eq': "add_slice m start stop = l' @ (fst p, e) # r"
        using eq snoc by simp
      have "{fst p..e} = {fst p..snd p} \<union> {start..e}"
        using overlap p(1,2) by auto
      then show ?thesis
        using cov r p overlap unfolding eq' snoc by (auto simp: wf_slices_append)
    next
      case apart
      then have eq': "add_slice m start stop = l @ (start, e) # r"
        using eq snoc by auto
      have "\<forall>q \<in> set l. Suc (snd q) < start"
        using apart p(2,5) by (auto simp: snoc)
      then show ?thesis
        using cov r wl lr e assms(2) unfolding eq' by (auto simp: wf_slices_append)
    qed
  qed
  then have "wf_slices n (add_slice m start stop) \<and>
    covered (add_slice m start stop) = covered m \<union> {start..absorbed_end m start stop}"
    by (simp add: m ae [unfolded m])
  then show "wf_slices n (add_slice m start stop)"
    "covered (add_slice m start stop) = covered m \<union> {start..absorbed_end m start stop}"
    by simp_all
qed


lemma absorbed_end_no_gap:
  assumes "wf_slices n m" "start \<le> stop"
  shows "covered m \<union> {start..absorbed_end m start stop} = covered m \<union> {start..stop} \<longleftrightarrow>
    (\<forall>p \<in> set m. start \<le> fst p \<longrightarrow> snd p \<le> stop) \<or>
    (\<exists>p \<in> set m. start \<le> fst p \<and> fst p \<le> stop + 1 \<and> stop < snd p)"
proof (cases "filter (\<lambda>p. start \<le> fst p \<and> stop < snd p) m")
  case Nil
  then have "\<forall>p \<in> set m. start \<le> fst p \<longrightarrow> snd p \<le> stop"
    by (auto simp: filter_empty_conv)
  with Nil show ?thesis
    by (simp add: absorbed_end_def)
next
  case (Cons p ps)
  then obtain xs ys where m: "m = xs @ p # ys"
    and xs: "\<forall>q \<in> set xs. \<not> (start \<le> fst q \<and> stop < snd q)"
    and p: "start \<le> fst p" "stop < snd p"
    by (auto simp: filter_eq_Cons_iff)
  have ae: "absorbed_end m start stop = snd p"
    using Cons by (simp add: absorbed_end_def)
  have wf: "fst p \<le> snd p" "\<forall>q \<in> set xs. Suc (snd q) < fst p" "\<forall>q \<in> set ys. Suc (snd p) < fst q"
    using assms(1) by (simp_all add: m wf_slices_append)
  have in_m: "p \<in> set m"
    by (simp add: m)
  show ?thesis
  proof (cases "fst p \<le> stop + 1")
    case True
    then have "{start..snd p} \<subseteq> {start..stop} \<union> covered m"
      by (auto simp: m)
    moreover have "{start..stop} \<subseteq> {start..snd p}"
      using p(2) by simp
    ultimately show ?thesis
      using True p in_m ae by auto
  next
    case False
    have "fst p - 1 \<in> {start..snd p}"
      using False p assms(2) wf(1) by auto
    moreover have "fst p - 1 \<notin> covered m \<union> {start..stop}"
      using False wf by (fastforce simp: m covered_def)
    moreover have "\<not> (start \<le> fst q \<and> fst q \<le> stop + 1 \<and> stop < snd q)" if "q \<in> set m" for q
      using that False xs wf(3) p by (auto simp: m)
    ultimately show ?thesis
      using p in_m ae by (metis UnCI not_le)
  qed
qed

section \<open>What remains to be acknowledged\<close>

lemma remove_slice_loop_drop:
  assumes "wf_slices n m" "\<forall>p \<in> set m. c \<le> fst p" "n \<le> u64_bound"
  shows "remove_slice_loop oc m c stop =
    Some (case dropWhile (\<lambda>p. snd p \<le> stop) m of
            [] \<Rightarrow> [] | p # r \<Rightarrow> bt_insert (stop + 1) (snd p) r)"
  using assms(1,2)
proof (induction m arbitrary: c)
  case Nil
  then show ?case
    by (simp add: remove_slice_loop.simps bt_from_def bt_retain_def)
next
  case (Cons p m)
  obtain s e where p: "p = (s, e)" by (cases p)
  have frm: "bt_from c (p # m) = p # m"
    using Cons.prems bt_from_append [of "[]" c "p # m"] by simp
  have rm: "bt_remove s (p # m) = m"
    using Cons.prems(1) p bt_remove_mid [of "[]" s e m] wf_slices_bt_wf [of n "p # m"] by simp
  show ?case
  proof (cases "e \<le> stop")
    case True
    have "\<forall>q \<in> set m. e \<le> fst q"
      using Cons.prems(1) p by fastforce
    with Cons.IH [of e] Cons.prems(1) True frm rm p show ?thesis
      by (simp add: remove_slice_loop.simps [of oc "(s, e) # m" c])
  next
    case False
    then have "stop + 1 < u64_bound"
      using Cons.prems(1) p assms(3) by simp
    with False frm rm p show ?thesis
      by (simp add: remove_slice_loop.simps [of oc "(s, e) # m" c] add_u64_in_range)
  qed
qed


lemma remove_slice_zero:
  assumes "wf_slices n m" "n \<le> u64_bound" "stop \<noteq> 0"
  shows "remove_slice oc m 0 stop =
    Some (case dropWhile (\<lambda>p. snd p \<le> stop) m of
            [] \<Rightarrow> [] | p # r \<Rightarrow> (stop + 1, snd p) # r)"
proof -
  have "bt_below 0 m = []"
    by (simp add: bt_below_def bt_retain_def)
  moreover have "bt_insert (stop + 1) (snd p) r = (stop + 1, snd p) # r"
    if d: "dropWhile (\<lambda>p. snd p \<le> stop) m = p # r" for p r
  proof -
    have "wf_slices n (takeWhile (\<lambda>p. snd p \<le> stop) m @ p # r)"
      using assms(1) by (simp add: d [symmetric])
    moreover have "stop < snd p"
      using d by (simp add: dropWhile_eq_Cons_conv)
    ultimately have "\<forall>q \<in> set r. stop + 1 < fst q"
      by (fastforce simp: wf_slices_append)
    then show ?thesis
      using bt_insert_between [of "[]" "stop + 1" r] by simp
  qed
  ultimately show ?thesis
    using remove_slice_loop_drop [OF assms(1) _ assms(2), of 0 oc stop] assms(3)
    by (cases "dropWhile (\<lambda>p. snd p \<le> stop) m")
      (simp_all add: remove_slice_def del: dropWhile_eq_Nil_conv)
qed

lemma remove_slice_zero_props:
  assumes "wf_slices n m" "n \<le> u64_bound" "stop \<noteq> 0"
  obtains m' where "remove_slice oc m 0 stop = Some m'" "wf_slices n m'"
    "covered m - {..stop} \<subseteq> covered m'" "covered m' \<inter> {..stop} = {}"
proof -
  define t where "t = takeWhile (\<lambda>p. snd p \<le> stop) m"
  define d where "d = dropWhile (\<lambda>p. snd p \<le> stop) m"
  have m: "m = t @ d"
    by (simp add: t_def d_def)
  have t: "covered t \<subseteq> {..stop}"
    using set_takeWhileD unfolding t_def covered_def by fastforce
  have rem: "remove_slice oc m 0 stop =
      Some (case d of [] \<Rightarrow> [] | p # r \<Rightarrow> (stop + 1, snd p) # r)"
    using remove_slice_zero [OF assms] by (simp add: d_def)
  show ?thesis
  proof (cases d)
    case Nil
    with rem t show ?thesis
      by (intro that [of "[]"]) (auto simp: m)
  next
    case (Cons p r)
    have p: "stop < snd p"
      using Cons by (simp add: d_def dropWhile_eq_Cons_conv)
    have wf: "wf_slices n (p # r)"
      using assms(1) by (simp add: m wf_slices_append Cons)
    have "\<forall>q \<in> set r. stop < fst q"
      using wf p by fastforce
    then have "covered r \<inter> {..stop} = {}"
      by (fastforce simp: covered_def)
    with rem t wf p show ?thesis
      by (intro that [of "(stop + 1, snd p) # r"]) (auto simp: m Cons)
  qed
qed

text \<open>The map of a sender: the bytes from \<open>k\<close> on are still to be acknowledged.\<close>

definition pending_slices :: "nat \<Rightarrow> nat \<Rightarrow> (u64, u64) btree_map" where
  "pending_slices n k = (if k < n then [(k, n - 1)] else [])"

lemma wf_pending_slices [wf_intros]: "wf_slices n (pending_slices n k)"
  by (auto simp: pending_slices_def)

lemma covered_pending_slices [simp]: "covered (pending_slices n k) = {k..<n}"
  by (auto simp: pending_slices_def)

lemma remove_slice_pending:
  assumes "n \<le> u64_bound"
  shows "remove_slice oc (pending_slices n k) 0 stop =
    Some (pending_slices n (if stop = 0 \<or> n \<le> k then k else stop + 1))"
proof (cases "stop = 0")
  case True
  then show ?thesis by (simp add: remove_slice_def)
next
  case False
  then show ?thesis
    using remove_slice_zero [OF wf_pending_slices assms False, of oc k]
    by (auto simp: pending_slices_def)
qed

section \<open>Reassembly of a prefix\<close>

text \<open>
  The map of a receiver to which every slice arrives at or before the end of what it has: the
  first \<open>k\<close> bytes.
\<close>

definition prefix_slices :: "nat \<Rightarrow> (u64, u64) btree_map" where
  "prefix_slices k = (if k = 0 then [] else [(0, k - 1)])"

lemma add_slice_prefix:
  assumes "start \<le> k" "start \<le> stop"
  shows "add_slice (prefix_slices k) start stop = prefix_slices (max k (stop + 1))"
proof (cases "k = 0")
  case True
  then show ?thesis
    using assms by (simp add: prefix_slices_def add_slice_def add_slice_loop.simps bt_from_def
        bt_below_def bt_retain_def)
next
  case False
  then obtain j where j: "k = Suc j"
    by (cases k) auto
  have below: "bt_below start [(0, j)] = (if start = 0 then [] else [(0, j)])"
    and frm: "bt_from start [(0, j)] = (if start = 0 then [(0, j)] else [])"
    by (simp_all add: bt_from_def bt_below_def bt_retain_def)
  have eq: "add_slice [(0, j)] start stop =
    (let (r, e) = absorb (bt_from start [(0, j)]) stop; l = bt_below start [(0, j)] in
     if l \<noteq> [] \<and> e \<le> snd (last l) then l @ r
     else if l \<noteq> [] \<and> start - 1 \<le> snd (last l) then butlast l @ (fst (last l), e) # r
     else l @ (start, e) # r)"
    using add_slice_eq [of "max k (stop + 1)" "[(0, j)]" _ start _ _ stop] assms(2) j
    by (auto simp: Let_def split: prod.splits)
  show ?thesis
    using assms j by (auto simp: prefix_slices_def eq below frm max_def Let_def)
qed

definition is_slice :: "bytes \<Rightarrow> nat \<Rightarrow> bytes \<Rightarrow> bool" where
  "is_slice msg first d =
     (d \<noteq> [] \<and> first + length d \<le> length msg \<and> d = take (length d) (drop first msg))"

definition holds_prefix :: "SliceManager \<Rightarrow> bytes \<Rightarrow> nat \<Rightarrow> bool" where
  "holds_prefix sm msg k =
     (sm_slices sm = prefix_slices k \<and> k \<le> length msg \<and> length (sm_data sm) = length msg \<and>
      take k (sm_data sm) = take k msg)"

lemma recv_slice_in_range:
  assumes "d \<noteq> []" "first + length d \<le> length (sm_data sm)" "length (sm_data sm) < u64_bound"
  shows "SliceManager_recv_slice oc sm (sm_epoch sm) (sm_seq sm) first d =
    Some (sm\<lparr>sm_slices := add_slice (sm_slices sm) first (first + length d - 1),
             sm_data := take first (sm_data sm) @ d @ drop (first + length d) (sm_data sm)\<rparr>)"
proof -
  obtain x where "length d = Suc x"
    using assms(1) by (cases d) auto
  moreover obtain y where "length (sm_data sm) = Suc y"
    using assms(1,2) by (cases "length (sm_data sm)") auto
  ultimately show ?thesis
    using assms by (simp add: SliceManager_recv_slice_def u64_simps min_absorb1 Let_def)
qed

lemma take_splice:
  assumes "first \<le> k" "first + length d \<le> length xs" "length xs = length msg"
    "take k xs = take k msg" "d = take (length d) (drop first msg)"
  shows "take (max k (first + length d)) (take first xs @ d @ drop (first + length d) xs) =
    take (max k (first + length d)) msg"
proof (rule nth_equalityI)
  let ?n = "max k (first + length d)"
  show "length (take ?n (take first xs @ d @ drop (first + length d) xs)) = length (take ?n msg)"
    using assms(2,3) by simp
  fix i
  assume i: "i < length (take ?n (take first xs @ d @ drop (first + length d) xs))"
  have k: "j < k \<Longrightarrow> j < length xs \<Longrightarrow> xs ! j = msg ! j" for j
    using assms(3,4) by (metis nth_take)
  have d: "j < length d \<Longrightarrow> d ! j = msg ! (first + j)" for j
    using assms(2,3,5) by (metis (no_types, lifting) add_leD1 nth_drop nth_take)
  show "take ?n (take first xs @ d @ drop (first + length d) xs) ! i = take ?n msg ! i"
    using i assms(1,2,3) k [of i] d [of "i - first"] by (auto simp: nth_append)
qed

lemma recv_slice_prefix:
  assumes "holds_prefix sm msg k" "first \<le> k" "is_slice msg first d" "length msg < u64_bound"
  obtains sm' where
    "SliceManager_recv_slice oc sm (sm_epoch sm) (sm_seq sm) first d = Some sm'"
    "holds_prefix sm' msg (max k (first + length d))"
    "sm_epoch sm' = sm_epoch sm" "sm_seq sm' = sm_seq sm"
proof -
  have d: "d \<noteq> []" "first + length d \<le> length (sm_data sm)" "d = take (length d) (drop first msg)"
    and len: "length (sm_data sm) = length msg" and pre: "take k (sm_data sm) = take k msg"
    and sl: "sm_slices sm = prefix_slices k" and k: "k \<le> length msg"
    using assms by (auto simp: holds_prefix_def is_slice_def)
  obtain x where "length d = Suc x"
    using d(1) by (cases d) auto
  then have "add_slice (sm_slices sm) first (first + length d - 1) =
      prefix_slices (max k (first + length d))"
    using add_slice_prefix [OF assms(2), of "first + length d - 1"] sl by simp
  moreover have "length (sm_data sm) < u64_bound" using len assms(4) by simp
  moreover define sm' where "sm' = sm\<lparr>
      sm_slices := prefix_slices (max k (first + length d)),
      sm_data := take first (sm_data sm) @ d @ drop (first + length d) (sm_data sm)\<rparr>"
  ultimately have "SliceManager_recv_slice oc sm (sm_epoch sm) (sm_seq sm) first d = Some sm'"
    using recv_slice_in_range [OF d(1,2), of oc] by (simp only:)
  moreover have "holds_prefix sm' msg (max k (first + length d))"
    using take_splice [OF assms(2) d(2) len pre d(3)] len k d(2)
    by (simp add: holds_prefix_def sm'_def)
  ultimately show ?thesis
    by (rule that) (simp_all add: sm'_def)
qed


subsection \<open>The contract between the two managers\<close>

text \<open>
  What the message manager relies on of a slice manager: one that holds the first \<open>k\<close> bytes of
  a message, and is given a slice of that message that starts at or before byte \<open>k\<close>, takes it
  and holds everything up to the end of the slice.
\<close>

fun gap_free_slices :: "nat \<Rightarrow> (nat \<times> bytes) list \<Rightarrow> bool" where
  "gap_free_slices k [] = True"
| "gap_free_slices k ((first, d) # ds) = (first \<le> k \<and> gap_free_slices (max k (first + length d)) ds)"

fun slices_reach :: "nat \<Rightarrow> (nat \<times> bytes) list \<Rightarrow> nat" where
  "slices_reach k [] = k"
| "slices_reach k ((first, d) # ds) = slices_reach (max k (first + length d)) ds"

fun recv_each :: "('s \<Rightarrow> nat \<Rightarrow> bytes \<Rightarrow> 's option) \<Rightarrow> 's \<Rightarrow> (nat \<times> bytes) list \<Rightarrow> 's option" where
  "recv_each recv s [] = Some s"
| "recv_each recv s ((first, d) # ds) = Option.bind (recv s first d) (\<lambda>s. recv_each recv s ds)"

locale reassembly =
  fixes recv :: "'s \<Rightarrow> nat \<Rightarrow> bytes \<Rightarrow> 's option"
    and holds :: "'s \<Rightarrow> bytes \<Rightarrow> nat \<Rightarrow> bool"
  assumes recv_holds: "holds s msg k \<Longrightarrow> first \<le> k \<Longrightarrow> is_slice msg first d \<Longrightarrow>
    length msg < u64_bound \<Longrightarrow> \<exists>s'. recv s first d = Some s' \<and> holds s' msg (max k (first + length d))"
begin

lemma recv_each_holds:
  assumes "length msg < u64_bound" "\<forall>(first, d) \<in> set ds. is_slice msg first d"
  shows "holds s msg k \<Longrightarrow> gap_free_slices k ds \<Longrightarrow>
    \<exists>s'. recv_each recv s ds = Some s' \<and> holds s' msg (slices_reach k ds)"
  using assms(2)
proof (induction ds arbitrary: s k)
  case Nil
  then show ?case by simp
next
  case (Cons p ds)
  obtain first d where p: "p = (first, d)" by (cases p)
  with Cons.prems assms(1) obtain s' where "recv s first d = Some s'"
    "holds s' msg (max k (first + length d))"
    using recv_holds [of s msg k first d] by auto
  with Cons.IH [of s' "max k (first + length d)"] Cons.prems p show ?case
    by simp
qed

end

definition holds_prefix_of :: "Epoch \<Rightarrow> u64 \<Rightarrow> SliceManager \<Rightarrow> bytes \<Rightarrow> nat \<Rightarrow> bool" where
  "holds_prefix_of epoch seq sm msg k =
     (sm_epoch sm = epoch \<and> sm_seq sm = seq \<and> holds_prefix sm msg k)"

interpretation slice_reassembly: reassembly
  "\<lambda>sm first d. SliceManager_recv_slice oc sm epoch seq first d" "holds_prefix_of epoch seq"
  for oc epoch seq
proof unfold_locales
  fix sm msg k first d
  assume h: "holds_prefix_of epoch seq sm msg k" "first \<le> k" "is_slice msg first d"
    "length msg < u64_bound"
  then have "holds_prefix sm msg k" "sm_epoch sm = epoch" "sm_seq sm = seq"
    by (simp_all add: holds_prefix_of_def)
  then show "\<exists>sm'. SliceManager_recv_slice oc sm epoch seq first d = Some sm' \<and>
      holds_prefix_of epoch seq sm' msg (max k (first + length d))"
    using recv_slice_prefix [of sm msg k first d oc] h by (metis holds_prefix_of_def)
qed

lemma holds_prefix_new:
  "length msg \<le> isize_max \<Longrightarrow>
   \<exists>sm. SliceManager_new epoch seq (length msg) = Some sm \<and> holds_prefix_of epoch seq sm msg 0"
  by (simp add: SliceManager_new_def holds_prefix_of_def holds_prefix_def prefix_slices_def)

lemma is_full_prefix:
  "holds_prefix sm msg k \<Longrightarrow> SliceManager_is_full oc sm = Some (0 < k \<and> k = length msg)"
proof -
  assume h: "holds_prefix sm msg k"
  show ?thesis
  proof (cases k)
    case 0
    with h show ?thesis
      by (simp add: holds_prefix_def prefix_slices_def SliceManager_is_full_def)
  next
    case (Suc j)
    with h obtain l where "length msg = Suc l"
      by (cases "length msg") (auto simp: holds_prefix_def)
    with h Suc show ?thesis
      by (auto simp: holds_prefix_def prefix_slices_def SliceManager_is_full_def sub_u64_in_range)
  qed
qed

lemma last_head_index_prefix:
  "holds_prefix sm msg k \<Longrightarrow> last_head_index sm = (if k = 0 then None else Some (k - 1))"
  by (simp add: last_head_index_def holds_prefix_def prefix_slices_def)

lemma data_prefix:
  "holds_prefix sm msg k \<Longrightarrow>
   SliceManager_data oc sm = Some (if 0 < k \<and> k = length msg then Some msg else None)"
  by (auto simp: SliceManager_data_def is_full_prefix) (auto simp: holds_prefix_def)

section \<open>Cutting a message into slices\<close>

fun slice_chain :: "u64 \<Rightarrow> u64 \<Rightarrow> bytes \<Rightarrow> nat \<Rightarrow> LinkProtocol list \<Rightarrow> nat \<Rightarrow> bool" where
  "slice_chain epoch seq msg first [] stop = (first = stop)"
| "slice_chain epoch seq msg first (MsgSlice e q n f d # ps) stop =
     (e = epoch \<and> q = seq \<and> n = length msg \<and> f = first \<and> is_slice msg f d \<and>
      slice_chain epoch seq msg (f + length d) ps stop)"
| "slice_chain epoch seq msg first (_ # ps) stop = False"

fun slice_data :: "LinkProtocol \<Rightarrow> bytes" where
  "slice_data (MsgSlice _ _ _ _ d) = d"
| "slice_data _ = []"

lemma make_slices_loop_chain:
  assumes "0 < slice_size" "slice_size < u32_bound" "stop < length data" "length data \<le> isize_max"
  shows "cursor \<le> stop \<Longrightarrow> \<exists>ps. make_slices_loop oc data epoch seq slice_size stop cursor = Some ps \<and>
    slice_chain (to_int epoch) seq data cursor ps (stop + 1) \<and>
    (\<forall>p \<in> set ps. length (slice_data p) \<le> slice_size)"
proof (induction "stop - cursor" arbitrary: cursor rule: less_induct)
  case less
  define len where "len = min slice_size (stop + 1 - cursor)"
  define slice where "slice = MsgSlice (to_int epoch) seq (length data) cursor (take len (drop cursor data))"
  have len: "0 < len" "len \<le> slice_size" "cursor + len \<le> stop + 1"
    using assms(1) less.prems by (auto simp: len_def)
  have first: "is_slice data cursor (take len (drop cursor data))" "length (slice_data slice) = len"
    using len assms(3) by (auto simp: is_slice_def slice_def)
  have arith: "add_u64 oc cursor slice_size = Some (cursor + slice_size)"
    "sub_u64 oc (cursor + slice_size) 1 = Some (cursor + slice_size - 1)"
    "sub_u64 oc (length data) 1 = Some (length data - 1)"
    "min (min (cursor + slice_size - 1) stop) (length data - 1) = cursor + len - 1"
    using assms less.prems by (auto simp: u64_simps len_def min_def)
  have cut: "\<not> cursor + len - 1 < cursor" "\<not> length data \<le> cursor + len - 1"
    "cursor + len - 1 + 1 - cursor = len"
    using len assms(3) by auto
  have unfold: "make_slices_loop oc data epoch seq slice_size stop cursor =
    (if stop < cursor + slice_size then Some [slice]
     else do { rest \<leftarrow> make_slices_loop oc data epoch seq slice_size stop (cursor + slice_size);
               Some (slice # rest) })"
    by (subst make_slices_loop.simps) (simp only: arith cut Option.bind.simps Let_def slice_def if_False)
  show ?case
  proof (cases "stop < cursor + slice_size")
    case True
    then have "cursor + len = stop + 1"
      using less.prems by (auto simp: len_def)
    with True unfold first len show ?thesis
      by (simp add: slice_def)
  next
    case False
    then have "len = slice_size"
      by (simp add: len_def)
    moreover have "stop - (cursor + slice_size) < stop - cursor"
      using False assms(1) by linarith
    then obtain ps where "make_slices_loop oc data epoch seq slice_size stop (cursor + slice_size) = Some ps"
      "slice_chain (to_int epoch) seq data (cursor + slice_size) ps (stop + 1)"
      "\<forall>p \<in> set ps. length (slice_data p) \<le> slice_size"
      using less.hyps [of "cursor + slice_size"] False by auto
    ultimately show ?thesis
      using False unfold first by (simp add: slice_def)
  qed
qed


text \<open>A sender's slice manager of the message \<open>sm_data\<close>, of which the first \<open>k\<close> bytes are acknowledged.\<close>

definition sends_from :: "SliceManager \<Rightarrow> nat \<Rightarrow> bool" where
  "sends_from sm k = (sm_slices sm = pending_slices (length (sm_data sm)) k)"

lemma sends_from_vec: "sends_from (SliceManager_from_vec epoch seq data) 0"
  by (simp add: sends_from_def SliceManager_from_vec_def pending_slices_def)

lemma get_slices_chain:
  assumes "sends_from sm k" "k < length (sm_data sm)" "0 < slice_size" "slice_size < u32_bound"
    "length (sm_data sm) \<le> isize_max"
  obtains ps where "get_slices oc sm slice_size = Some ps"
    "slice_chain (to_int (sm_epoch sm)) (sm_seq sm) (sm_data sm) k ps (length (sm_data sm))"
    "\<forall>p \<in> set ps. length (slice_data p) \<le> slice_size"
proof -
  obtain n where n: "length (sm_data sm) = Suc n"
    using assms(2) by (cases "length (sm_data sm)") auto
  have "sm_slices sm = [(k, n)]"
    using assms(1,2) n by (simp add: sends_from_def pending_slices_def)
  with make_slices_loop_chain [of slice_size n "sm_data sm" k oc "sm_epoch sm" "sm_seq sm"]
    assms(2-5) n that show ?thesis
    by (auto simp: get_slices_def make_slices_def)
qed

lemma get_slices_done:
  "sends_from sm k \<Longrightarrow> length (sm_data sm) \<le> k \<Longrightarrow> get_slices oc sm slice_size = Some []"
  by (simp add: get_slices_def sends_from_def pending_slices_def)

lemma sends_from_ack:
  assumes "sends_from sm k" "length (sm_data sm) \<le> u64_bound"
  obtains sm' where "SliceManager_ack oc sm (sm_epoch sm) (sm_seq sm) i = Some sm'"
    "sends_from sm' (if i = 0 \<or> length (sm_data sm) \<le> k then k else i + 1)"
    "sm_data sm' = sm_data sm" "sm_epoch sm' = sm_epoch sm" "sm_seq sm' = sm_seq sm"
proof -
  let ?k = "if i = 0 \<or> length (sm_data sm) \<le> k then k else i + 1"
  have "SliceManager_ack oc sm (sm_epoch sm) (sm_seq sm) i =
      Some (sm\<lparr>sm_slices := pending_slices (length (sm_data sm)) ?k\<rparr>)"
    using remove_slice_pending [OF assms(2), of oc k i] assms(1)
    by (simp add: SliceManager_ack_def sends_from_def)
  then show ?thesis
    by (rule that) (simp_all add: sends_from_def)
qed

lemma slice_chain_slices:
  "slice_chain epoch seq msg first ps stop \<Longrightarrow> p \<in> set ps \<Longrightarrow>
   \<exists>f d. p = MsgSlice epoch seq (length msg) f d \<and> is_slice msg f d"
  by (induction epoch seq msg first ps stop rule: slice_chain.induct) auto

fun slice_of :: "LinkProtocol \<Rightarrow> nat \<times> bytes" where
  "slice_of (MsgSlice _ _ _ f d) = (f, d)"
| "slice_of _ = (0, [])"

lemma slice_chain_gap_free:
  "slice_chain epoch seq msg first ps stop \<Longrightarrow>
   gap_free_slices first (map slice_of ps) \<and> slices_reach first (map slice_of ps) = stop \<and>
   (\<forall>(f, d) \<in> set (map slice_of ps). is_slice msg f d)"
  by (induction epoch seq msg first ps stop rule: slice_chain.induct) (auto simp: max_def)

lemma slice_chain_concat:
  "slice_chain epoch seq msg first ps stop \<Longrightarrow>
   first \<le> stop \<and> concat (map slice_data ps) = take (stop - first) (drop first msg)"
proof (induction epoch seq msg first ps stop rule: slice_chain.induct)
  case (2 epoch seq msg first e q n f d ps stop)
  then have d: "d = take (length d) (drop first msg)" and len: "first + length d \<le> stop"
    and ps: "concat (map slice_data ps) = take (stop - (first + length d)) (drop (first + length d) msg)"
    by (auto simp: is_slice_def)
  have "take (stop - first) (drop first msg) =
      take (length d) (drop first msg) @ take (stop - (first + length d)) (drop (first + length d) msg)"
    using len take_add [of "length d" "stop - (first + length d)" "drop first msg"]
    by (simp add: add.commute)
  with d len ps show ?case by simp
qed auto

lemma replicate_numeral_u8: "replicate (numeral k) (x :: u8) = x # replicate (pred_numeral k) x"
  by (simp add: numeral_eq_Suc)

text \<open>Evaluation of the operations on concrete managers.\<close>

lemmas slice_eval =
  SliceManager_new_def SliceManager_recv_slice_def SliceManager_data_def SliceManager_is_full_def
  add_slice_def add_slice_loop.simps bt_from_def bt_below_def bt_retain_def bt_remove_def
  bt_last_def bt_first_def add_u64_def sub_u64_def Let_def replicate_numeral_u8

section \<open>Properties\<close>

text \<open>
  \<open>add_slice\<close> keeps the slice map well-formed (sorted, disjoint, never two adjacent runs,
  inside the message) and marks exactly the old bytes and the run from the start of the new
  slice to the end of the first stored run that ends after it.
\<close>

lemma add_slice_marks:
  assumes "wf_slices n m" "start \<le> stop" "stop < n"
  shows "wf_slices n (add_slice m start stop) \<and>
    covered (add_slice m start stop) = covered m \<union> {start..absorbed_end m start stop}"
  using wf_slices_add_slice [OF assms] covered_add_slice [OF assms] by simp

text \<open>
  C23: \<open>add_slice\<close> marks exactly the new slice, and nothing that was not received, if and only
  if no stored run lies behind the new slice or the first that ends after it touches it.
\<close>

theorem add_slice_exact_iff:
  assumes "wf_slices n m" "start \<le> stop" "stop < n"
  shows "covered (add_slice m start stop) = covered m \<union> {start..stop} \<longleftrightarrow>
    (\<forall>p \<in> set m. start \<le> fst p \<longrightarrow> snd p \<le> stop) \<or>
    (\<exists>p \<in> set m. start \<le> fst p \<and> fst p \<le> stop + 1 \<and> stop < snd p)"
  using absorbed_end_no_gap [OF assms(1,2)] covered_add_slice [OF assms] by simp

lemma add_slice_exact_iff_witness:
  "covered (add_slice [(0, 2), (6, 8)] 3 5) = covered [(0, 2), (6, 8)] \<union> {3..5}"
  using add_slice_exact_iff [of 9 "[(0, 2), (6, 8)]" 3 5] by simp



text \<open>
  C22: cutting a message of which the first \<open>k\<close> bytes are acknowledged: \<open>get_slices\<close> returns
  (no panic, no endless loop), the slices carry the manager's epoch and sequence number and the
  message's length, follow one another without a gap from byte \<open>k\<close> to the end, are never empty
  and never longer than the size asked for, and their contents in order are the bytes that remain.
\<close>

theorem get_slices_partition:
  assumes "sends_from sm k" "k < length (sm_data sm)" "0 < slice_size" "slice_size < u32_bound"
    "length (sm_data sm) \<le> isize_max"
  shows "\<exists>ps. get_slices oc sm slice_size = Some ps \<and>
    slice_chain (to_int (sm_epoch sm)) (sm_seq sm) (sm_data sm) k ps (length (sm_data sm)) \<and>
    (\<forall>p \<in> set ps. length (slice_data p) \<le> slice_size) \<and>
    concat (map slice_data ps) = drop k (sm_data sm)"
  using get_slices_chain [OF assms, of oc] slice_chain_concat by fastforce

lemma get_slices_partition_witness:
  "\<exists>ps. get_slices True (SliceManager_from_vec (Epoch 4) 50 [7, 8, 9]) 2 = Some ps \<and>
    slice_chain 4 50 [7, 8, 9] 0 ps (length [7, 8, 9 :: u8]) \<and>
    (\<forall>p \<in> set ps. length (slice_data p) \<le> 2) \<and> concat (map slice_data ps) = [7, 8, 9]"
  using get_slices_partition [OF sends_from_vec [of "Epoch 4" 50 "[7, 8, 9]"], of 2 True]
  by (simp add: SliceManager_from_vec_def)

text \<open>
  C16: a message survives slicing. The slices of a fresh sender, received in order by a fresh
  receiver of the same epoch and sequence number, make the receiver full, and its data is the
  message.
\<close>

theorem slices_round_trip:
  assumes "msg \<noteq> []" "length msg \<le> isize_max" "0 < slice_size" "slice_size < u32_bound"
  shows "\<exists>ps sm sm'. get_slices oc (SliceManager_from_vec epoch seq msg) slice_size = Some ps \<and>
    SliceManager_new epoch seq (length msg) = Some sm \<and>
    recv_each (\<lambda>sm. SliceManager_recv_slice oc sm epoch seq) sm (map slice_of ps) = Some sm' \<and>
    SliceManager_data oc sm' = Some (Some msg)"
proof -
  let ?sender = "SliceManager_from_vec epoch seq msg"
  have sender: "sm_data ?sender = msg" "sm_epoch ?sender = epoch" "sm_seq ?sender = seq"
    by (simp_all add: SliceManager_from_vec_def)
  obtain ps where ps: "get_slices oc ?sender slice_size = Some ps"
    "slice_chain (to_int epoch) seq msg 0 ps (length msg)"
    using get_slices_chain [OF sends_from_vec [of epoch seq msg], of slice_size oc] assms
    unfolding sender by blast
  obtain sm where sm: "SliceManager_new epoch seq (length msg) = Some sm"
    "holds_prefix_of epoch seq sm msg 0"
    using holds_prefix_new [OF assms(2)] by blast
  obtain sm' where "recv_each (\<lambda>sm. SliceManager_recv_slice oc sm epoch seq) sm (map slice_of ps) = Some sm'"
    "holds_prefix_of epoch seq sm' msg (length msg)"
    using slice_reassembly.recv_each_holds [OF _ _ sm(2), of "map slice_of ps" oc]
      slice_chain_gap_free [OF ps(2)] assms(2) by auto
  moreover from this have "SliceManager_data oc sm' = Some (Some msg)"
    using data_prefix [of sm' msg "length msg" oc] assms(1) by (simp add: holds_prefix_of_def)
  ultimately show ?thesis
    using ps(1) sm(1) by blast
qed

lemma slices_round_trip_witness:
  "\<exists>ps sm sm'. get_slices True (SliceManager_from_vec (Epoch 4) 50 [7, 8, 9]) 2 = Some ps \<and>
    SliceManager_new (Epoch 4) 50 (length [7, 8, 9 :: u8]) = Some sm \<and>
    recv_each (\<lambda>sm. SliceManager_recv_slice True sm (Epoch 4) 50) sm (map slice_of ps) = Some sm' \<and>
    SliceManager_data True sm' = Some (Some [7, 8, 9])"
  by (rule slices_round_trip) simp_all




end
