(* ===== verification/Message_Manager.thy ===== *)
theory Message_Manager
  imports Slice_Manager
begin

text \<open>
  \<^verbatim>\<open>src/src/message_manager.rs\<close>: the messages of one epoch, in both directions.

  Outgoing messages are numbered from 0 and kept until they are acknowledged. Incoming slices are
  collected per sequence number; \<open>last_ack\<close> is the pair of the first sequence number that is not
  complete and the last byte of it that has arrived in order, and \<open>take_recvd\<close> hands out the
  complete messages before it.
\<close>

section \<open>State and operations\<close>

record MessageManager =
  mm_epoch :: Epoch
  mm_outgoing_slices :: "(u64, SliceManager) btree_map"
  mm_next_seq :: u64
  mm_incoming_slices :: "(u64, SliceManager) btree_map"
  mm_last_ack :: "u64 \<times> u64"

definition MessageManager_new :: "Epoch \<Rightarrow> MessageManager" where
  "MessageManager_new epoch =
     \<lparr>mm_epoch = epoch, mm_outgoing_slices = [], mm_next_seq = 0, mm_incoming_slices = [],
      mm_last_ack = (0, 0)\<rparr>"

definition insert_msg :: "bool \<Rightarrow> MessageManager \<Rightarrow> bytes \<Rightarrow> (u64 \<times> MessageManager) option" where
  "insert_msg oc mm data =
     do { let seq = mm_next_seq mm;
          next_seq \<leftarrow> add_u64 oc (mm_next_seq mm) 1;
          let slice_mgr = SliceManager_from_vec (mm_epoch mm) seq data;
          Some (seq, mm\<lparr>mm_next_seq := next_seq,
                        mm_outgoing_slices := bt_insert seq slice_mgr (mm_outgoing_slices mm)\<rparr>) }"

definition get_outgoing_slice :: "MessageManager \<Rightarrow> u64 \<Rightarrow> SliceManager option" where
  "get_outgoing_slice mm seq = bt_get (mm_outgoing_slices mm) seq"

definition get_outgoing_slices :: "MessageManager \<Rightarrow> SliceManager list" where
  "get_outgoing_slices mm = map snd (mm_outgoing_slices mm)"

definition recv_ack :: "bool \<Rightarrow> MessageManager \<Rightarrow> u64 \<times> u64 \<Rightarrow> MessageManager option" where
  "recv_ack oc mm ack =
     (let (seq, last_index) = ack;
          outgoing = bt_retain (\<lambda>s _. seq \<le> s) (mm_outgoing_slices mm)
      in case bt_get outgoing seq of
           None \<Rightarrow> Some (mm\<lparr>mm_outgoing_slices := outgoing\<rparr>)
         | Some sm \<Rightarrow>
             do { sm \<leftarrow> SliceManager_ack oc sm (mm_epoch mm) seq last_index;
                  Some (mm\<lparr>mm_outgoing_slices :=
                    (if SliceManager_is_empty sm then bt_remove seq outgoing
                     else bt_insert seq sm outgoing)\<rparr>) })"

definition recv_in_range :: "bool \<Rightarrow> MessageManager \<Rightarrow> u64 \<Rightarrow> u64 \<Rightarrow> u64 \<Rightarrow> bool option" where
  "recv_in_range oc mm seq first_index seq_len =
     (if seq < fst (mm_last_ack mm) then Some False
      else if fst (mm_last_ack mm) < seq then Some True
      else do { reach \<leftarrow> add_u64 oc first_index seq_len; Some (snd (mm_last_ack mm) < reach) })"

text \<open>The loop of \<open>recv\<close> over the entries from the received sequence number on.\<close>

fun update_last_ack ::
  "bool \<Rightarrow> (u64, SliceManager) btree_map \<Rightarrow> u64 \<times> u64 \<Rightarrow> bool \<Rightarrow> ((u64 \<times> u64) \<times> bool) option" where
  "update_last_ack oc [] last_ack did_change = Some (last_ack, did_change)"
| "update_last_ack oc ((seq, slice_mgr) # rest) last_ack did_change =
     (if seq \<noteq> fst last_ack then Some (last_ack, did_change)
      else do {
        full \<leftarrow> SliceManager_is_full oc slice_mgr;
        if full
        then do { next_seq \<leftarrow> add_u64 oc seq 1; update_last_ack oc rest (next_seq, 0) True }
        else do { let offset = (case last_head_index slice_mgr of None \<Rightarrow> 0 | Some i \<Rightarrow> i);
                  Some ((seq, offset), did_change \<or> last_ack = (seq, offset)) } })"

definition MessageManager_recv ::
  "bool \<Rightarrow> MessageManager \<Rightarrow> u64 \<Rightarrow> u64 \<Rightarrow> u64 \<Rightarrow> bytes \<Rightarrow> (bool \<times> MessageManager) option" where
  "MessageManager_recv oc mm seq first_index seq_len data =
     do { in_range \<leftarrow> recv_in_range oc mm seq first_index seq_len;
          if \<not> in_range then Some (True, mm)
          else do {
            slice_mgr \<leftarrow> (case bt_get (mm_incoming_slices mm) seq of
                            Some sm \<Rightarrow> Some sm
                          | None \<Rightarrow> SliceManager_new (mm_epoch mm) seq seq_len);
            slice_mgr \<leftarrow> SliceManager_recv_slice oc slice_mgr (mm_epoch mm) seq first_index data;
            let incoming = bt_insert seq slice_mgr (mm_incoming_slices mm);
            let mm = mm\<lparr>mm_incoming_slices := incoming\<rparr>;
            if fst (mm_last_ack mm) < seq then Some (False, mm)
            else do {
              (last_ack, did_change) \<leftarrow>
                update_last_ack oc (bt_from seq incoming) (mm_last_ack mm) False;
              Some (did_change, mm\<lparr>mm_last_ack := last_ack\<rparr>) } } }"

text \<open>\<open>slice_mgr.data().unwrap()\<close> of every taken entry.\<close>

fun unwrap_data :: "bool \<Rightarrow> (u64, SliceManager) btree_map \<Rightarrow> bytes list option" where
  "unwrap_data oc [] = Some []"
| "unwrap_data oc ((seq, slice_mgr) # slices) =
     do { opt_data \<leftarrow> SliceManager_data oc slice_mgr;
          data \<leftarrow> opt_data;
          ret \<leftarrow> unwrap_data oc slices;
          Some (data # ret) }"

definition take_recvd :: "bool \<Rightarrow> MessageManager \<Rightarrow> (bytes list \<times> MessageManager) option" where
  "take_recvd oc mm =
     do { let slices = bt_below (fst (mm_last_ack mm)) (mm_incoming_slices mm);
          let mm = mm\<lparr>mm_incoming_slices := bt_from (fst (mm_last_ack mm)) (mm_incoming_slices mm)\<rparr>;
          ret \<leftarrow> unwrap_data oc slices;
          Some (ret, mm) }"

section \<open>The receiver\<close>

text \<open>
  The receiver against the list \<open>ms\<close> of the messages that were sent. \<open>pfx q\<close> is the number of
  bytes of message \<open>q\<close> that have arrived in order, \<open>complete\<close> says that a message has arrived
  whole. Between two events everything before \<open>last_ack\<close> has been handed out, and what is stored
  is the part of the other messages that has arrived.
\<close>

definition complete :: "bytes list \<Rightarrow> (nat \<Rightarrow> nat) \<Rightarrow> nat \<Rightarrow> bool" where
  "complete ms pfx q = (q < length ms \<and> 0 < length (ms ! q) \<and> pfx q = length (ms ! q))"

definition stored_ok :: "Epoch \<Rightarrow> bytes list \<Rightarrow> (nat \<Rightarrow> nat) \<Rightarrow> nat \<Rightarrow> (u64, SliceManager) btree_map \<Rightarrow> bool" where
  "stored_ok epoch ms pfx d incoming =
     (bt_wf incoming \<and>
      (\<forall>(q, sm) \<in> set incoming. d \<le> q \<and> q < length ms \<and> holds_prefix_of epoch q sm (ms ! q) (pfx q)) \<and>
      (\<forall>q \<ge> d. pfx q \<noteq> 0 \<longrightarrow> q \<in> fst ` set incoming))"

definition recv_inv :: "Epoch \<Rightarrow> bytes list \<Rightarrow> (nat \<Rightarrow> nat) \<Rightarrow> MessageManager \<Rightarrow> bool" where
  "recv_inv epoch ms pfx mm =
     (mm_epoch mm = epoch \<and> 
      stored_ok epoch ms pfx (fst (mm_last_ack mm)) (mm_incoming_slices mm) \<and>
      (\<forall>q < fst (mm_last_ack mm). complete ms pfx q) \<and>
      \<not> complete ms pfx (fst (mm_last_ack mm)) \<and>
      snd (mm_last_ack mm) = pfx (fst (mm_last_ack mm)) - 1)"

definition small_messages :: "bytes list \<Rightarrow> bool" where
  "small_messages ms = (length ms < u64_bound \<and> (\<forall>m \<in> set ms. length m \<le> isize_max))"

lemma recv_inv_new: "recv_inv epoch ms (\<lambda>_. 0) (MessageManager_new epoch)"
  by (simp add: recv_inv_def MessageManager_new_def stored_ok_def complete_def)

lemma update_last_ack_advances:
  assumes "bt_wf r" "\<forall>(q, sm) \<in> set r. d \<le> q \<and> q < length ms \<and> holds_prefix_of epoch q sm (ms ! q) (pfx q)"
    "\<forall>q \<ge> d. pfx q \<noteq> 0 \<longrightarrow> q \<in> fst ` set r" "length ms < u64_bound"
    "off = 0 \<or> pfx d \<noteq> 0"
  shows "\<exists>d' ch'. update_last_ack oc r (d, off) ch = Some ((d', pfx d' - 1), ch') \<and> d \<le> d' \<and>
    (\<forall>q. d \<le> q \<and> q < d' \<longrightarrow> complete ms pfx q) \<and> \<not> complete ms pfx d' \<and>
    (ch \<or> d < d' \<longrightarrow> ch')"
  using assms
proof (induction r arbitrary: d off ch)
  case Nil
  then have "pfx d = 0" "off = 0" by auto
  then show ?case by (auto simp: complete_def)
next
  case (Cons p r)
  obtain q sm where p: "p = (q, sm)" by (cases p)
  have q: "d \<le> q" "q < length ms" "holds_prefix_of epoch q sm (ms ! q) (pfx q)"
    using Cons.prems(2) p by auto
  then have h: "holds_prefix sm (ms ! q) (pfx q)"
    by (simp add: holds_prefix_of_def)
  show ?case
  proof (cases "q = d")
    case False
    then have "d \<notin> fst ` set (p # r)"
      using q(1) Cons.prems(1) p by auto
    then have "pfx d = 0"
      using Cons.prems(3) by blast
    with False p Cons.prems(5) show ?thesis
      by (auto simp: complete_def)
  next
    case True
    show ?thesis
    proof (cases "complete ms pfx d")
      case full: True
      have "add_u64 oc d 1 = Some (d + 1)"
        using q(2) True Cons.prems(4) by (simp add: u64_simps)
      moreover have "SliceManager_is_full oc sm = Some True"
        using is_full_prefix [OF h, of oc] full True by (auto simp: complete_def)
      moreover have "\<exists>d' ch'. update_last_ack oc r (d + 1, 0) True = Some ((d', pfx d' - 1), ch') \<and>
          d + 1 \<le> d' \<and> (\<forall>q. d + 1 \<le> q \<and> q < d' \<longrightarrow> complete ms pfx q) \<and> \<not> complete ms pfx d' \<and>
          (True \<or> d + 1 < d' \<longrightarrow> ch')"
      proof (rule Cons.IH)
        show "\<forall>(q, sm) \<in> set r. d + 1 \<le> q \<and> q < length ms \<and> holds_prefix_of epoch q sm (ms ! q) (pfx q)"
          using Cons.prems(1,2) p True by fastforce
        show "\<forall>q \<ge> d + 1. pfx q \<noteq> 0 \<longrightarrow> q \<in> fst ` set r"
        proof (intro allI impI)
          fix j assume j: "d + 1 \<le> j" "pfx j \<noteq> 0"
          then have "j \<in> fst ` set (p # r)"
            using Cons.prems(3) by simp
          then show "j \<in> fst ` set r"
            using j(1) p True by auto
        qed
      qed (use Cons.prems in auto)
      ultimately show ?thesis
        using p True full by (auto simp: Suc_le_eq) (metis Suc_leI le_neq_implies_less)
    next
      case part: False
      then have "SliceManager_is_full oc sm = Some False"
        using is_full_prefix [OF h, of oc] q(2) True h
        by (auto simp: complete_def holds_prefix_def)
      moreover have "(case last_head_index sm of None \<Rightarrow> 0 | Some i \<Rightarrow> i) = pfx d - 1"
        using last_head_index_prefix [OF h] True by simp
      ultimately show ?thesis
        using p True part by (auto simp: Let_def)
    qed
  qed
qed

lemma update_last_ack_stored:
  assumes "stored_ok epoch ms pfx d incoming" "length ms < u64_bound" "off = 0 \<or> pfx d \<noteq> 0"
  shows "\<exists>d' ch'. update_last_ack oc (bt_from d incoming) (d, off) ch = Some ((d', pfx d' - 1), ch') \<and>
    d \<le> d' \<and> (\<forall>q. d \<le> q \<and> q < d' \<longrightarrow> complete ms pfx q) \<and> \<not> complete ms pfx d' \<and>
    (ch \<or> d < d' \<longrightarrow> ch')"
proof -
  have "bt_from d incoming = incoming"
    using assms(1) bt_from_append [of "[]" d incoming] by (fastforce simp: stored_ok_def)
  then show ?thesis
    using update_last_ack_advances [of incoming d ms epoch pfx off oc ch] assms
    by (simp add: stored_ok_def)
qed

text \<open>Storing one honest slice that leaves no gap.\<close>

definition grow :: "(nat \<Rightarrow> nat) \<Rightarrow> nat \<Rightarrow> nat \<Rightarrow> bytes \<Rightarrow> nat \<Rightarrow> nat" where
  "grow pfx q first d = pfx(q := max (pfx q) (first + length d))"

lemma stored_ok_insert:
  assumes "stored_ok epoch ms pfx d incoming" "d \<le> q" "q < length ms"
    "holds_prefix_of epoch q sm (ms ! q) (max (pfx q) (first + length dd))"
  shows "stored_ok epoch ms (grow pfx q first dd) d (bt_insert q sm incoming)"
  using assms unfolding stored_ok_def grow_def
  by (auto simp: bt_wf_insert bt.set_insert)

text \<open>Between \<open>recv\<close> and \<open>take_recvd\<close> the messages from \<open>d\<close> to \<open>last_ack\<close> are still stored.\<close>

definition recvd :: "Epoch \<Rightarrow> bytes list \<Rightarrow> (nat \<Rightarrow> nat) \<Rightarrow> nat \<Rightarrow> MessageManager \<Rightarrow> bool" where
  "recvd epoch ms pfx d mm =
     (mm_epoch mm = epoch \<and> stored_ok epoch ms pfx d (mm_incoming_slices mm) \<and>
      d \<le> fst (mm_last_ack mm) \<and> (\<forall>q < fst (mm_last_ack mm). complete ms pfx q) \<and>
      \<not> complete ms pfx (fst (mm_last_ack mm)) \<and>
      snd (mm_last_ack mm) = pfx (fst (mm_last_ack mm)) - 1)"

lemma recv_inv_recvd: "recv_inv epoch ms pfx mm \<Longrightarrow> recvd epoch ms pfx (fst (mm_last_ack mm)) mm"
  by (simp add: recv_inv_def recvd_def)

lemma recv_in_range_honest:
  assumes "recv_inv epoch ms pfx mm" "small_messages ms" "q < length ms" "is_slice (ms ! q) first dd"
  shows "recv_in_range oc mm q first (length (ms ! q)) = Some (fst (mm_last_ack mm) \<le> q)"
proof (cases "q = fst (mm_last_ack mm)")
  case True
  have len: "length (ms ! q) \<le> isize_max"
    using assms(2,3) by (simp add: small_messages_def)
  have first: "first < length (ms ! q)"
    using assms(4) by (cases dd) (auto simp: is_slice_def)
  have "pfx q \<le> length (ms ! q)"
  proof (cases "pfx q = 0")
    case False
    then obtain sm where "(q, sm) \<in> set (mm_incoming_slices mm)"
      using assms(1) True by (auto simp: recv_inv_def stored_ok_def)
    then show ?thesis
      using assms(1) by (auto simp: recv_inv_def stored_ok_def holds_prefix_of_def holds_prefix_def)
  qed simp
  then have "snd (mm_last_ack mm) < first + length (ms ! q)"
    using assms(1) True first by (auto simp: recv_inv_def)
  moreover have "add_u64 oc first (length (ms ! q)) = Some (first + length (ms ! q))"
    using len first by (intro add_u64_in_range) simp
  ultimately show ?thesis
    using True by (simp add: recv_in_range_def)
qed (auto simp: recv_in_range_def)

lemma incoming_entry:
  assumes "stored_ok epoch ms pfx d incoming" "d \<le> q" "length (ms ! q) \<le> isize_max"
  obtains sm where
    "(case bt_get incoming q of Some sm \<Rightarrow> Some sm
      | None \<Rightarrow> SliceManager_new epoch q (length (ms ! q))) = Some sm"
    "holds_prefix_of epoch q sm (ms ! q) (pfx q)"
proof (cases "bt_get incoming q")
  case None
  then have "q \<notin> fst ` set incoming"
    using assms(1) by (auto simp: stored_ok_def bt.get_entries [symmetric])
  then have "pfx q = 0"
    using assms(1,2) by (auto simp: stored_ok_def)
  then show thesis
    using that None holds_prefix_new [OF assms(3), of epoch q] by auto
next
  case (Some sm)
  then have "(q, sm) \<in> set incoming"
    using assms(1) by (auto simp: stored_ok_def bt.get_entries)
  then show thesis
    using that Some assms(1) by (auto simp: stored_ok_def)
qed

lemma recv_honest:
  assumes inv: "recv_inv epoch ms pfx mm" and small: "small_messages ms" and q: "q < length ms"
    and slice: "is_slice (ms ! q) first dd" and gap: "first \<le> pfx q"
  obtains ch mm' where
    "MessageManager_recv oc mm q first (length (ms ! q)) dd = Some (ch, mm')"
    "recvd epoch ms (grow pfx q first dd) (fst (mm_last_ack mm)) mm'"
    "mm_outgoing_slices mm' = mm_outgoing_slices mm" "mm_next_seq mm' = mm_next_seq mm"
    "q < fst (mm_last_ack mm') \<Longrightarrow> ch"
proof (cases "q < fst (mm_last_ack mm)")
  case True
  then have "grow pfx q first dd = pfx"
    using inv slice by (auto simp: recv_inv_def complete_def grow_def is_slice_def max_def)
  then show thesis
    using that [of True mm] recv_inv_recvd [OF inv] recv_in_range_honest [OF inv small q slice, of oc] True
    by (simp add: MessageManager_recv_def)
next
  case False
  let ?d = "fst (mm_last_ack mm)"
  let ?pfx = "grow pfx q first dd"
  have st: "stored_ok epoch ms pfx ?d (mm_incoming_slices mm)" and ep: "mm_epoch mm = epoch"
    using inv by (auto simp: recv_inv_def)
  have len: "length (ms ! q) \<le> isize_max"
    using small q by (simp add: small_messages_def)
  then have len': "length (ms ! q) < u64_bound" by simp
  obtain sm where sm: "(case bt_get (mm_incoming_slices mm) q of Some sm \<Rightarrow> Some sm
      | None \<Rightarrow> SliceManager_new epoch q (length (ms ! q))) = Some sm"
    "holds_prefix_of epoch q sm (ms ! q) (pfx q)"
    using incoming_entry [OF st _ len] False by auto
  obtain sm' where sm': "SliceManager_recv_slice oc sm epoch q first dd = Some sm'"
    "holds_prefix_of epoch q sm' (ms ! q) (max (pfx q) (first + length dd))"
    using slice_reassembly.recv_holds [OF sm(2) gap slice len'] by blast
  let ?inc = "bt_insert q sm' (mm_incoming_slices mm)"
  have st': "stored_ok epoch ms ?pfx ?d ?inc"
    using stored_ok_insert [OF st _ q sm'(2)] False by simp
  have below: "\<forall>j < ?d. complete ms ?pfx j"
    using inv False by (auto simp: recv_inv_def complete_def grow_def)
  have range: "recv_in_range oc mm q first (length (ms ! q)) = Some True"
    using recv_in_range_honest [OF inv small q slice, of oc] False by simp
  show thesis
  proof (cases "?d < q")
    case later: True
    then have "?pfx ?d = pfx ?d" by (simp add: grow_def)
    then have "recvd epoch ms ?pfx ?d (mm\<lparr>mm_incoming_slices := ?inc\<rparr>)"
      using st' below inv by (simp add: recvd_def recv_inv_def complete_def)
    moreover have "MessageManager_recv oc mm q first (length (ms ! q)) dd =
        Some (False, mm\<lparr>mm_incoming_slices := ?inc\<rparr>)"
      using later sm(1) [folded ep] sm'(1) [folded ep] range by (simp add: MessageManager_recv_def Let_def)
    ultimately show thesis
      using that [of False "mm\<lparr>mm_incoming_slices := ?inc\<rparr>"] later by simp
  next
    case False
    then have qd: "q = ?d" using \<open>\<not> q < ?d\<close> by simp
    have off: "snd (mm_last_ack mm) = 0 \<or> ?pfx ?d \<noteq> 0"
      using inv by (auto simp: recv_inv_def grow_def)
    obtain d' ch' where d': "update_last_ack oc (bt_from ?d ?inc) (?d, snd (mm_last_ack mm)) False =
        Some ((d', ?pfx d' - 1), ch')" "?d \<le> d'"
      "\<forall>j. ?d \<le> j \<and> j < d' \<longrightarrow> complete ms ?pfx j" "\<not> complete ms ?pfx d'" "?d < d' \<longrightarrow> ch'"
      using update_last_ack_stored [OF st' _ off, of oc False] small by (auto simp: small_messages_def)
    let ?mm = "mm\<lparr>mm_incoming_slices := ?inc, mm_last_ack := (d', ?pfx d' - 1)\<rparr>"
    have "\<forall>j < d'. complete ms ?pfx j"
      using below d'(3) by (meson not_le)
    then have "recvd epoch ms ?pfx ?d ?mm"
      using st' d' ep by (simp add: recvd_def)
    moreover have "update_last_ack oc (bt_from q ?inc) (mm_last_ack mm) False =
        Some ((d', ?pfx d' - 1), ch')"
      using d'(1) by (simp add: qd)
    then have "MessageManager_recv oc mm q first (length (ms ! q)) dd = Some (ch', ?mm)"
      using False sm(1) [folded ep] sm'(1) [folded ep] range by (simp add: MessageManager_recv_def Let_def)
    ultimately show thesis
      using that [of ch' ?mm] d'(5) qd by simp
  qed
qed

lemma unwrap_data_complete:
  "\<forall>(q, sm) \<in> set slices. complete ms pfx q \<and> holds_prefix_of epoch q sm (ms ! q) (pfx q) \<Longrightarrow>
   unwrap_data oc slices = Some (map (\<lambda>p. ms ! fst p) slices)"
proof (induction slices)
  case (Cons p slices)
  obtain q sm where p: "p = (q, sm)" by (cases p)
  then have "SliceManager_data oc sm = Some (Some (ms ! q))"
    using Cons.prems data_prefix [of sm "ms ! q" "pfx q" oc]
    by (auto simp: complete_def holds_prefix_of_def)
  then show ?case using Cons p by simp
qed simp

lemma stored_below:
  assumes "stored_ok epoch ms pfx d incoming" "d \<le> d'" "\<forall>q < d'. complete ms pfx q"
  shows "map fst (bt_below d' incoming) = [d..<d']"
proof (rule sorted_distinct_set_unique)
  have wf: "bt_wf (bt_below d' incoming)"
    using assms(1) by (simp add: stored_ok_def bt_wf_below)
  show "sorted (map fst (bt_below d' incoming))" "distinct (map fst (bt_below d' incoming))"
    using wf by (simp_all add: bt_wf_def strict_sorted_iff)
  show "set (map fst (bt_below d' incoming)) = set [d..<d']"
  proof (intro set_eqI iffI)
    fix q assume "q \<in> set [d..<d']"
    then have q: "d \<le> q" "q < d'" by auto
    then have "pfx q \<noteq> 0" using assms(3) by (auto simp: complete_def)
    then show "q \<in> set (map fst (bt_below d' incoming))"
      using assms(1) q by (force simp: stored_ok_def bt_below_def bt_retain_def image_iff)
  next
    fix q assume "q \<in> set (map fst (bt_below d' incoming))"
    then obtain sm where "(q, sm) \<in> set incoming" "q < d'"
      using bt_below_keys [of _ d' incoming] by fastforce
    then show "q \<in> set [d..<d']"
      using assms(1) by (auto simp: stored_ok_def)
  qed
qed simp_all

lemma stored_ok_from:
  assumes "stored_ok epoch ms pfx d incoming" "d \<le> d'"
  shows "stored_ok epoch ms pfx d' (bt_from d' incoming)"
  unfolding stored_ok_def
proof (intro conjI ballI allI impI)
  show "bt_wf (bt_from d' incoming)"
    using assms(1) by (simp add: stored_ok_def bt_wf_from)
next
  fix p assume "p \<in> set (bt_from d' incoming)"
  then have "d' \<le> fst p" "p \<in> set incoming"
    using bt_from_keys [of p d' incoming] by blast+
  then show "case p of (q, sm) \<Rightarrow>
      d' \<le> q \<and> q < length ms \<and> holds_prefix_of epoch q sm (ms ! q) (pfx q)"
    using assms(1) by (auto simp: stored_ok_def)
next
  fix q assume q: "d' \<le> q" "pfx q \<noteq> 0"
  then have "q \<in> fst ` set incoming"
    using assms by (auto simp: stored_ok_def)
  then show "q \<in> fst ` set (bt_from d' incoming)"
    using q(1) by (force simp: bt_from_def bt_retain_def)
qed

lemma take_recvd_recvd:
  assumes "recvd epoch ms pfx d mm"
  obtains mm' where
    "take_recvd oc mm = Some (map ((!) ms) [d..<fst (mm_last_ack mm)], mm')"
    "recv_inv epoch ms pfx mm'" "mm_last_ack mm' = mm_last_ack mm"
    "mm_outgoing_slices mm' = mm_outgoing_slices mm" "mm_next_seq mm' = mm_next_seq mm"
proof -
  let ?d' = "fst (mm_last_ack mm)" and ?inc = "mm_incoming_slices mm"
  have st: "stored_ok epoch ms pfx d ?inc" and le: "d \<le> ?d'"
    and full: "\<forall>q < ?d'. complete ms pfx q"
    using assms by (auto simp: recvd_def)
  have "\<forall>(q, sm) \<in> set (bt_below ?d' ?inc).
      complete ms pfx q \<and> holds_prefix_of epoch q sm (ms ! q) (pfx q)"
    using st full bt_below_keys [of _ ?d' ?inc] by (fastforce simp: stored_ok_def)
  then have "unwrap_data oc (bt_below ?d' ?inc) = Some (map ((!) ms) (map fst (bt_below ?d' ?inc)))"
    by (simp add: unwrap_data_complete comp_def)
  then have "unwrap_data oc (bt_below ?d' ?inc) = Some (map ((!) ms) [d..<?d'])"
    by (simp only: stored_below [OF st le full])
  moreover have "stored_ok epoch ms pfx ?d' (bt_from ?d' ?inc)"
    by (rule stored_ok_from [OF st le])
  ultimately show thesis
    using that [of "mm\<lparr>mm_incoming_slices := bt_from ?d' ?inc\<rparr>"] assms
    by (simp add: take_recvd_def recvd_def recv_inv_def)
qed

lemma recv_inv_bound:
  assumes "recv_inv epoch ms pfx mm"
  shows "pfx q \<noteq> 0 \<Longrightarrow> q < length ms \<and> pfx q \<le> length (ms ! q)"
proof (cases "q < fst (mm_last_ack mm)")
  case True
  then show ?thesis using assms by (auto simp: recv_inv_def complete_def)
next
  case False
  assume "pfx q \<noteq> 0"
  with False assms have "q \<in> fst ` set (mm_incoming_slices mm)"
    by (simp add: recv_inv_def stored_ok_def not_less)
  then obtain sm where "(q, sm) \<in> set (mm_incoming_slices mm)"
    by auto
  with assms show ?thesis
    by (auto simp: recv_inv_def stored_ok_def holds_prefix_of_def holds_prefix_def)
qed

lemma complete_append: "q < length ms \<Longrightarrow> complete (ms @ [m]) pfx q = complete ms pfx q"
  by (simp add: complete_def nth_append)

lemma complete_grow:
  "complete ms pfx j \<Longrightarrow> is_slice (ms ! q) first dd \<Longrightarrow> complete ms (grow pfx q first dd) j"
  by (auto simp: complete_def grow_def is_slice_def max_def)

lemma recv_inv_append:
  assumes "recv_inv epoch ms pfx mm"
  shows "recv_inv epoch (ms @ [m]) pfx mm"
proof -
  let ?d = "fst (mm_last_ack mm)"
  have "stored_ok epoch (ms @ [m]) pfx ?d (mm_incoming_slices mm)"
    using assms by (auto simp: recv_inv_def stored_ok_def nth_append)
  moreover have "complete (ms @ [m]) pfx q = complete ms pfx q" for q
    using recv_inv_bound [OF assms, of q] by (cases "q < length ms") (auto simp: complete_def nth_append)
  ultimately show ?thesis
    using assms by (simp add: recv_inv_def)
qed

section \<open>The sender\<close>

text \<open>
  The sender against the same list of messages: every outgoing entry holds its message and resends
  it from a byte \<open>k\<close> that the other side has already reached, and a message without an entry has
  arrived whole. \<open>valid_ack\<close> is what holds of an acknowledgement the other side has sent.
\<close>

definition queued :: "Epoch \<Rightarrow> u64 \<Rightarrow> bytes \<Rightarrow> nat \<Rightarrow> SliceManager \<Rightarrow> bool" where
  "queued epoch q m k sm =
     (sm_epoch sm = epoch \<and> sm_seq sm = q \<and> sm_data sm = m \<and> sends_from sm k \<and> k < length m)"

definition send_inv :: "Epoch \<Rightarrow> bytes list \<Rightarrow> (nat \<Rightarrow> nat) \<Rightarrow> MessageManager \<Rightarrow> bool" where
  "send_inv epoch ms pfx mm =
     (mm_epoch mm = epoch \<and> mm_next_seq mm = length ms \<and> bt_wf (mm_outgoing_slices mm) \<and>
      (\<forall>(q, sm) \<in> set (mm_outgoing_slices mm).
         q < length ms \<and> (\<exists>k \<le> pfx q. queued epoch q (ms ! q) k sm)) \<and>
      (\<forall>q < length ms. \<not> complete ms pfx q \<longrightarrow> q \<in> fst ` set (mm_outgoing_slices mm)))"

definition valid_ack :: "bytes list \<Rightarrow> (nat \<Rightarrow> nat) \<Rightarrow> u64 \<times> u64 \<Rightarrow> bool" where
  "valid_ack ms pfx ack =
     ((\<forall>q < fst ack. complete ms pfx q) \<and> (snd ack = 0 \<or> snd ack < pfx (fst ack)))"

lemma send_inv_new: "send_inv epoch [] pfx (MessageManager_new epoch)"
  by (simp add: send_inv_def MessageManager_new_def bt_wf_def)

lemma valid_ack_last_ack:
  "recv_inv epoch ms pfx mm \<Longrightarrow> valid_ack ms pfx (mm_last_ack mm)"
  by (auto simp: recv_inv_def valid_ack_def)

lemma send_invI:
  assumes "mm_epoch mm = epoch" "mm_next_seq mm = length ms" "bt_wf (mm_outgoing_slices mm)"
    "\<And>q sm. (q, sm) \<in> set (mm_outgoing_slices mm) \<Longrightarrow>
       q < length ms \<and> (\<exists>k \<le> pfx q. queued epoch q (ms ! q) k sm)"
    "\<And>q. q < length ms \<Longrightarrow> \<not> complete ms pfx q \<Longrightarrow> q \<in> fst ` set (mm_outgoing_slices mm)"
  shows "send_inv epoch ms pfx mm"
  using assms by (auto simp: send_inv_def)

lemma send_inv_entry:
  "send_inv epoch ms pfx mm \<Longrightarrow> (q, sm) \<in> set (mm_outgoing_slices mm) \<Longrightarrow>
   q < length ms \<and> (\<exists>k \<le> pfx q. queued epoch q (ms ! q) k sm)"
  by (auto simp: send_inv_def)

lemma send_inv_key:
  assumes "send_inv epoch ms pfx mm" "q < length ms" "\<not> complete ms pfx q"
  shows "\<exists>sm. (q, sm) \<in> set (mm_outgoing_slices mm)"
proof -
  have "q \<in> fst ` set (mm_outgoing_slices mm)"
    using assms by (simp add: send_inv_def)
  then show ?thesis by auto
qed

lemma send_inv_fields:
  "send_inv epoch ms pfx mm \<Longrightarrow>
   mm_epoch mm = epoch \<and> mm_next_seq mm = length ms \<and> bt_wf (mm_outgoing_slices mm)"
  by (simp add: send_inv_def)

lemma insert_msg_inv:
  assumes "send_inv epoch ms pfx mm" "m \<noteq> []" "length ms + 1 < u64_bound"
  obtains mm' where "insert_msg oc mm m = Some (length ms, mm')" "send_inv epoch (ms @ [m]) pfx mm'"
    "mm_incoming_slices mm' = mm_incoming_slices mm" "mm_last_ack mm' = mm_last_ack mm"
proof -
  let ?sm = "SliceManager_from_vec epoch (length ms) m"
  let ?mm = "mm\<lparr>mm_next_seq := length ms + 1,
    mm_outgoing_slices := bt_insert (length ms) ?sm (mm_outgoing_slices mm)\<rparr>"
  have "insert_msg oc mm m = Some (length ms, ?mm)"
    using assms(1,3) by (simp add: insert_msg_def send_inv_def u64_simps Let_def)
  moreover have wf: "bt_wf (mm_outgoing_slices mm)"
    using send_inv_fields [OF assms(1)] by simp
  moreover have new: "queued epoch (length ms) m 0 ?sm"
    using sends_from_vec [of epoch "length ms" m] assms(2) by (simp add: queued_def SliceManager_from_vec_def)
  moreover have "send_inv epoch (ms @ [m]) pfx ?mm"
  proof (rule send_invI)
    fix q sm assume "(q, sm) \<in> set (mm_outgoing_slices ?mm)"
    then have "(q, sm) = (length ms, ?sm) \<or> (q, sm) \<in> set (mm_outgoing_slices mm)"
      using wf by (auto simp: bt.set_insert)
    then show "q < length (ms @ [m]) \<and> (\<exists>k \<le> pfx q. queued epoch q ((ms @ [m]) ! q) k sm)"
    proof
      assume "(q, sm) = (length ms, ?sm)"
      with new show ?thesis by (intro conjI exI [of _ 0]) auto
    next
      assume "(q, sm) \<in> set (mm_outgoing_slices mm)"
      from send_inv_entry [OF assms(1) this] show ?thesis
        by (simp add: nth_append)
    qed
  next
    fix q assume q: "q < length (ms @ [m])" "\<not> complete (ms @ [m]) pfx q"
    show "q \<in> fst ` set (mm_outgoing_slices ?mm)"
    proof (cases "q = length ms")
      case True
      then show ?thesis using wf by (force simp: bt.set_insert)
    next
      case False
      then have "q < length ms" "\<not> complete ms pfx q"
        using q by (simp_all add: complete_append)
      then show ?thesis
        using send_inv_key [OF assms(1)] wf False by (force simp: bt.set_insert)
    qed
  qed (use send_inv_fields [OF assms(1)] in \<open>simp_all add: bt_wf_insert\<close>)
  ultimately show thesis
    using that by simp
qed

lemma send_inv_retain:
  assumes "send_inv epoch ms pfx mm" "\<And>q. q < length ms \<Longrightarrow> \<not> P q \<Longrightarrow> complete ms pfx q"
  shows "send_inv epoch ms pfx (mm\<lparr>mm_outgoing_slices := bt_retain (\<lambda>s _. P s) (mm_outgoing_slices mm)\<rparr>)"
proof (rule send_invI)
  fix q sm assume "(q, sm) \<in> set (mm_outgoing_slices
    (mm\<lparr>mm_outgoing_slices := bt_retain (\<lambda>s _. P s) (mm_outgoing_slices mm)\<rparr>))"
  then have "(q, sm) \<in> set (mm_outgoing_slices mm)"
    by (simp add: bt_retain_def)
  from send_inv_entry [OF assms(1) this]
  show "q < length ms \<and> (\<exists>k \<le> pfx q. queued epoch q (ms ! q) k sm)" .
next
  fix q assume "q < length ms" "\<not> complete ms pfx q"
  with send_inv_key [OF assms(1) this] assms(2)
  show "q \<in> fst ` set (mm_outgoing_slices
    (mm\<lparr>mm_outgoing_slices := bt_retain (\<lambda>s _. P s) (mm_outgoing_slices mm)\<rparr>))"
    by (force simp: bt_retain_def)
qed (use send_inv_fields [OF assms(1)] in \<open>simp_all add: bt_wf_retain\<close>)

lemma send_inv_replace:
  assumes "send_inv epoch ms pfx mm" "(q, sm) \<in> set (mm_outgoing_slices mm)"
    "k \<le> pfx q" "queued epoch q (ms ! q) k sm'"
  shows "send_inv epoch ms pfx (mm\<lparr>mm_outgoing_slices := bt_insert q sm' (mm_outgoing_slices mm)\<rparr>)"
proof (rule send_invI)
  have wf: "bt_wf (mm_outgoing_slices mm)" using send_inv_fields [OF assms(1)] by simp
  fix j sm2 assume "(j, sm2) \<in> set (mm_outgoing_slices
    (mm\<lparr>mm_outgoing_slices := bt_insert q sm' (mm_outgoing_slices mm)\<rparr>))"
  then have "(j, sm2) = (q, sm') \<or> (j, sm2) \<in> set (mm_outgoing_slices mm)"
    using wf by (auto simp: bt.set_insert)
  then show "j < length ms \<and> (\<exists>k \<le> pfx j. queued epoch j (ms ! j) k sm2)"
    using send_inv_entry [OF assms(1)] assms(2-4) by blast
next
  have wf: "bt_wf (mm_outgoing_slices mm)" using send_inv_fields [OF assms(1)] by simp
  fix j assume "j < length ms" "\<not> complete ms pfx j"
  from send_inv_key [OF assms(1) this]
  show "j \<in> fst ` set (mm_outgoing_slices
    (mm\<lparr>mm_outgoing_slices := bt_insert q sm' (mm_outgoing_slices mm)\<rparr>))"
    using wf by (force simp: bt.set_insert)
qed (use send_inv_fields [OF assms(1)] in \<open>simp_all add: bt_wf_insert\<close>)

lemma recv_ack_inv:
  assumes inv: "send_inv epoch ms pfx mm" and ack: "valid_ack ms pfx (seq, i)"
    and bound: "\<And>q. pfx q \<noteq> 0 \<Longrightarrow> pfx q \<le> length (ms ! q)" and small: "small_messages ms"
  obtains mm' where "recv_ack oc mm (seq, i) = Some mm'" "send_inv epoch ms pfx mm'"
    "mm_incoming_slices mm' = mm_incoming_slices mm" "mm_last_ack mm' = mm_last_ack mm"
    "fst ` set (mm_outgoing_slices mm') \<subseteq> {q \<in> fst ` set (mm_outgoing_slices mm). seq \<le> q}"
proof -
  let ?out = "bt_retain (\<lambda>s _. seq \<le> s) (mm_outgoing_slices mm)"
  let ?mm = "mm\<lparr>mm_outgoing_slices := ?out\<rparr>"
  have inv': "send_inv epoch ms pfx ?mm"
    using send_inv_retain [OF inv, of "\<lambda>s. seq \<le> s"] ack by (simp add: valid_ack_def not_le)
  have wf: "bt_wf ?out"
    using send_inv_fields [OF inv] by (simp add: bt_wf_retain)
  have sub: "fst ` set ?out \<subseteq> {q \<in> fst ` set (mm_outgoing_slices mm). seq \<le> q}"
    by (auto simp: bt_retain_def)
  show thesis
  proof (cases "bt_get ?out seq")
    case None
    then show thesis
      using that [of ?mm] inv' sub by (simp add: recv_ack_def)
  next
    case (Some sm)
    then have entry: "(seq, sm) \<in> set ?out"
      using wf by (simp add: bt.get_entries)
    then obtain k where k: "k \<le> pfx seq" "queued epoch seq (ms ! seq) k sm" "seq < length ms"
      using send_inv_entry [OF inv', of seq sm] by auto
    have "length (ms ! seq) \<le> isize_max"
      using k(3) small by (simp add: small_messages_def)
    then have "length (sm_data sm) \<le> u64_bound"
      using k(2) by (simp add: queued_def)
    then obtain sm' where sm': "SliceManager_ack oc sm epoch seq i = Some sm'"
      "sends_from sm' (if i = 0 then k else i + 1)"
      "sm_data sm' = ms ! seq" "sm_epoch sm' = epoch" "sm_seq sm' = seq"
      using sends_from_ack [of sm k oc i] k(2) by (auto simp: queued_def)
    let ?k = "if i = 0 then k else i + 1"
    have le: "?k \<le> pfx seq"
      using k(1) ack by (auto simp: valid_ack_def)
    let ?out' = "if SliceManager_is_empty sm' then bt_remove seq ?out else bt_insert seq sm' ?out"
    have "recv_ack oc mm (seq, i) = Some (mm\<lparr>mm_outgoing_slices := ?out'\<rparr>)"
      using Some sm'(1) send_inv_fields [OF inv] by (simp add: recv_ack_def Let_def)
    moreover have "send_inv epoch ms pfx (?mm\<lparr>mm_outgoing_slices := ?out'\<rparr>)"
    proof (cases "?k < length (ms ! seq)")
      case True
      then have "\<not> SliceManager_is_empty sm'" "queued epoch seq (ms ! seq) ?k sm'"
        using sm' by (auto simp: SliceManager_is_empty_def sends_from_def pending_slices_def queued_def)
      then show ?thesis
        using send_inv_replace [OF inv' _ le, of sm sm'] entry by simp
    next
      case False
      then have "complete ms pfx seq"
        using le bound [of seq] k by (auto simp: complete_def queued_def split: if_splits)
      moreover have "SliceManager_is_empty sm'"
        using False sm' by (auto simp: SliceManager_is_empty_def sends_from_def pending_slices_def)
      ultimately show ?thesis
        using send_inv_retain [OF inv', of "\<lambda>s. s \<noteq> seq"] by (auto simp: bt_remove_def)
    qed
    moreover have "seq \<in> fst ` set ?out"
      using entry by force
    then have "fst ` set ?out' \<subseteq> fst ` set ?out"
      using wf by (auto simp: bt_remove_set bt.set_insert)
    note subset_trans [OF this sub]
    ultimately show thesis
      using that [of "mm\<lparr>mm_outgoing_slices := ?out'\<rparr>"] by simp
  qed
qed

lemma queued_ack:
  assumes "send_inv epoch ms pfx mm" "small_messages ms" "(q, sm) \<in> set (mm_outgoing_slices mm)"
  obtains sm' where "SliceManager_ack oc sm epoch q i = Some sm'"
proof -
  obtain k where k: "q < length ms" "queued epoch q (ms ! q) k sm"
    using send_inv_entry [OF assms(1,3)] by blast
  then have "length (ms ! q) \<le> isize_max"
    using assms(2) by (simp add: small_messages_def)
  then have "length (sm_data sm) \<le> u64_bound"
    using k(2) by (simp add: queued_def)
  then show thesis
    using sends_from_ack [of sm k oc i] k(2) that by (auto simp: queued_def)
qed

section \<open>Arbitrary input\<close>

text \<open>
  What holds whatever the other side sends: between two events nothing before \<open>last_ack\<close> is
  stored.
\<close>

definition drained :: "MessageManager \<Rightarrow> bool" where
  "drained mm =
     (bt_wf (mm_incoming_slices mm) \<and>
      (\<forall>q \<in> fst ` set (mm_incoming_slices mm). fst (mm_last_ack mm) \<le> q))"

lemma update_last_ack_any:
  assumes "update_last_ack oc r (d, off) ch = Some ((d', off'), ch')" "bt_wf r"
    "\<forall>q \<in> fst ` set r. d \<le> q" "d + length r < u64_bound"
  shows "d \<le> d' \<and> {d..<d'} \<subseteq> fst ` set r \<and>
    (\<forall>(q, sm) \<in> set r. q < d' \<longrightarrow> SliceManager_is_full oc sm = Some True)"
  using assms
proof (induction r arbitrary: d off ch)
  case (Cons p r)
  obtain q sm where p: "p = (q, sm)" by (cases p)
  consider "q \<noteq> d" | "q = d" "SliceManager_is_full oc sm = Some True"
    | "q = d" "SliceManager_is_full oc sm = Some False" | "q = d" "SliceManager_is_full oc sm = None"
    by (cases "SliceManager_is_full oc sm") auto
  then show ?case
  proof cases
    case 1
    then have "d' = d" using Cons.prems(1) p by simp
    then show ?thesis using Cons.prems(2,3) by fastforce
  next
    case 2
    have "add_u64 oc d 1 = Some (d + 1)"
      using Cons.prems(4) by (simp add: u64_simps)
    then have run: "update_last_ack oc r (d + 1, 0) True = Some ((d', off'), ch')"
      using Cons.prems(1) p 2 by simp
    have "\<forall>j \<in> fst ` set r. d + 1 \<le> j"
      using Cons.prems(2) p 2 by fastforce
    then have IH: "d + 1 \<le> d'" "{d + 1..<d'} \<subseteq> fst ` set r"
      "\<forall>(j, sm) \<in> set r. j < d' \<longrightarrow> SliceManager_is_full oc sm = Some True"
      using Cons.IH [OF run] Cons.prems(2,4) by auto
    have "{d..<d'} \<subseteq> insert d {d + 1..<d'}" by auto
    then show ?thesis using IH p 2 by auto
  next
    case 3
    then have "d' = d" using Cons.prems(1) p by (auto simp: Let_def)
    then show ?thesis using Cons.prems(2,3) by fastforce
  next
    case 4
    then show ?thesis using Cons.prems(1) p by simp
  qed
qed auto

lemma unwrap_data_full:
  "\<forall>(q, sm) \<in> set slices. SliceManager_is_full oc sm = Some True \<Longrightarrow>
   unwrap_data oc slices = Some (map (\<lambda>p. sm_data (snd p)) slices)"
  by (induction slices) (auto simp: SliceManager_data_def)

lemma below_keys_any:
  assumes "bt_wf m" "\<forall>q \<in> fst ` set m. d \<le> q" "{d..<d'} \<subseteq> fst ` set m"
  shows "map fst (bt_below d' m) = [d..<d']"
proof (rule sorted_distinct_set_unique)
  have wf: "bt_wf (bt_below d' m)"
    using assms(1) by (simp add: bt_wf_below)
  show "sorted (map fst (bt_below d' m))" "distinct (map fst (bt_below d' m))"
    using wf by (simp_all add: bt_wf_def strict_sorted_iff)
  have "fst ` set (bt_below d' m) = {q \<in> fst ` set m. q < d'}"
    by (auto simp: bt_below_def bt_retain_def)
  also have "\<dots> = {d..<d'}"
    using assms(2,3) by auto
  finally show "set (map fst (bt_below d' m)) = set [d..<d']"
    by simp
qed simp_all

lemma take_recvd_any:
  assumes "bt_wf (mm_incoming_slices mm)" "\<forall>q \<in> fst ` set (mm_incoming_slices mm). d \<le> q"
    "d \<le> fst (mm_last_ack mm)" "{d..<fst (mm_last_ack mm)} \<subseteq> fst ` set (mm_incoming_slices mm)"
    "\<forall>(q, sm) \<in> set (mm_incoming_slices mm). q < fst (mm_last_ack mm) \<longrightarrow>
       SliceManager_is_full oc sm = Some True"
  shows "\<exists>msgs mm'. take_recvd oc mm = Some (msgs, mm') \<and> drained mm' \<and>
    d + length msgs = fst (mm_last_ack mm) \<and> mm_last_ack mm' = mm_last_ack mm \<and>
    mm_outgoing_slices mm' = mm_outgoing_slices mm"
proof -
  let ?b = "bt_below (fst (mm_last_ack mm)) (mm_incoming_slices mm)"
  have "\<forall>(q, sm) \<in> set ?b. SliceManager_is_full oc sm = Some True"
    using assms(5) by (auto simp: bt_below_def bt_retain_def)
  then have "unwrap_data oc ?b = Some (map (\<lambda>p. sm_data (snd p)) ?b)"
    by (rule unwrap_data_full)
  moreover have "length ?b = fst (mm_last_ack mm) - d"
    using arg_cong [OF below_keys_any [OF assms(1,2,4)], of length] by simp
  ultimately show ?thesis
    using assms(1,3) bt_wf_from
    by (auto simp: take_recvd_def drained_def bt_from_def bt_retain_def bt_wf_retain [unfolded bt_retain_def])
qed

lemma length_bt_insert: "length (bt_insert k v m) \<le> length m + 1"
  by (induction m) auto

lemma recv_any:
  assumes "drained mm" "fst (mm_last_ack mm) + length (mm_incoming_slices mm) + 1 < u64_bound"
    "MessageManager_recv oc mm seq first_index seq_len data = Some (ch, mm')"
  shows "\<exists>msgs mm''. take_recvd oc mm' = Some (msgs, mm'') \<and> drained mm'' \<and>
    fst (mm_last_ack mm) + length msgs = fst (mm_last_ack mm'') \<and>
    mm_outgoing_slices mm'' = mm_outgoing_slices mm"
proof -
  let ?d = "fst (mm_last_ack mm)"
  have stale: ?thesis if "mm' = mm"
    using take_recvd_any [of mm ?d oc] assms(1) that by (fastforce simp: drained_def)
  obtain in_range where r: "recv_in_range oc mm seq first_index seq_len = Some in_range"
    using assms(3) by (cases "recv_in_range oc mm seq first_index seq_len") (auto simp: MessageManager_recv_def)
  show ?thesis
  proof (cases in_range)
    case False
    then show ?thesis
      using stale assms(3) r by (simp add: MessageManager_recv_def)
  next
    case True
    then have ge: "?d \<le> seq"
      using r by (auto simp: recv_in_range_def split: if_splits)
    obtain sm where inc: "mm_incoming_slices mm' = bt_insert seq sm (mm_incoming_slices mm)"
      "mm_outgoing_slices mm' = mm_outgoing_slices mm"
      "?d < seq \<Longrightarrow> mm_last_ack mm' = mm_last_ack mm"
      "\<not> ?d < seq \<Longrightarrow> update_last_ack oc (bt_from seq (mm_incoming_slices mm')) (mm_last_ack mm) False =
         Some (mm_last_ack mm', ch)"
      using assms(3) r True
      by (auto simp: MessageManager_recv_def Let_def split: bind_splits if_splits prod.splits)
    let ?inc = "mm_incoming_slices mm'"
    have wf: "bt_wf ?inc" and keys: "\<forall>q \<in> fst ` set ?inc. ?d \<le> q"
      using assms(1) ge inc(1) by (auto simp: drained_def bt_wf_insert bt.set_insert)
    have len: "?d + length ?inc < u64_bound"
      using assms(2) length_bt_insert [of seq sm "mm_incoming_slices mm"] inc(1) by simp
    have "?d \<le> fst (mm_last_ack mm') \<and> {?d..<fst (mm_last_ack mm')} \<subseteq> fst ` set ?inc \<and>
      (\<forall>(q, sm) \<in> set ?inc. q < fst (mm_last_ack mm') \<longrightarrow> SliceManager_is_full oc sm = Some True)"
    proof (cases "?d < seq")
      case True
      then show ?thesis using inc(3) keys by fastforce
    next
      case False
      then have "bt_from seq ?inc = ?inc"
        using bt_from_append [of "[]" seq ?inc] keys ge by force
      then have "update_last_ack oc ?inc (?d, snd (mm_last_ack mm)) False =
          Some ((fst (mm_last_ack mm'), snd (mm_last_ack mm')), ch)"
        using inc(4) [OF False] by simp
      from update_last_ack_any [OF this wf keys len] show ?thesis .
    qed
    then show ?thesis
      using take_recvd_any [of mm' ?d oc] wf keys inc(2) by fastforce
  qed
qed

text \<open>
  Outgoing messages under arbitrary acknowledgements: every entry is one that \<open>insert_msg\<close> has made,
  to be sent from some byte on, so that cutting it into slices always returns.
\<close>

definition out_ok :: "MessageManager \<Rightarrow> bool" where
  "out_ok mm =
     (bt_wf (mm_outgoing_slices mm) \<and>
      (\<forall>(q, sm) \<in> set (mm_outgoing_slices mm).
         sm_epoch sm = mm_epoch mm \<and> sm_seq sm = q \<and> length (sm_data sm) \<le> isize_max \<and>
         (\<exists>k. sends_from sm k)))"

lemma out_ok_new: "out_ok (MessageManager_new epoch)" "drained (MessageManager_new epoch)"
  by (simp_all add: out_ok_def drained_def MessageManager_new_def bt_wf_def)

lemma out_ok_entry:
  "out_ok mm \<Longrightarrow> (q, sm) \<in> set (mm_outgoing_slices mm) \<Longrightarrow>
   sm_epoch sm = mm_epoch mm \<and> sm_seq sm = q \<and> length (sm_data sm) \<le> isize_max \<and> (\<exists>k. sends_from sm k)"
  by (auto simp: out_ok_def)

lemma get_slices_any:
  assumes "sends_from sm k" "length (sm_data sm) \<le> isize_max" "n < u32_bound"
  shows "get_slices oc sm n \<noteq> None"
proof (cases "n = 0")
  case True
  have "get_slices_of oc sm 0 m \<noteq> None" for m
    by (induction m) (auto simp: make_slices_def)
  then show ?thesis using True by (simp add: get_slices_def)
next
  case False
  show ?thesis
  proof (cases "k < length (sm_data sm)")
    case True
    show ?thesis
      using get_slices_chain [OF assms(1) True _ assms(3,2), of oc] False by auto
  next
    case False
    then show ?thesis using get_slices_done [OF assms(1), of oc n] by simp
  qed
qed

lemma insert_msg_any:
  assumes "out_ok mm" "length data \<le> isize_max" "mm_next_seq mm + 1 < u64_bound"
  obtains mm' sm where "insert_msg oc mm data = Some (mm_next_seq mm, mm')"
    "get_outgoing_slice mm' (mm_next_seq mm) = Some sm" "out_ok mm'" "mm_epoch mm' = mm_epoch mm"
    "mm_incoming_slices mm' = mm_incoming_slices mm" "mm_last_ack mm' = mm_last_ack mm"
    "mm_next_seq mm' = mm_next_seq mm + 1"
proof -
  let ?sm = "SliceManager_from_vec (mm_epoch mm) (mm_next_seq mm) data"
  let ?mm = "mm\<lparr>mm_next_seq := mm_next_seq mm + 1,
    mm_outgoing_slices := bt_insert (mm_next_seq mm) ?sm (mm_outgoing_slices mm)\<rparr>"
  have wf: "bt_wf (mm_outgoing_slices mm)"
    using assms(1) by (simp add: out_ok_def)
  have eq: "insert_msg oc mm data = Some (mm_next_seq mm, ?mm)"
    using assms(3) by (simp add: insert_msg_def u64_simps Let_def)
  have get: "get_outgoing_slice ?mm (mm_next_seq mm) = Some ?sm"
    using wf by (simp add: get_outgoing_slice_def bt_get_insert)
  have "sends_from ?sm 0" by (rule sends_from_vec)
  moreover have "sm_epoch ?sm = mm_epoch mm" "sm_seq ?sm = mm_next_seq mm" "sm_data ?sm = data"
    by (simp_all add: SliceManager_from_vec_def)
  ultimately have "out_ok ?mm"
    using assms(1,2) wf unfolding out_ok_def
    by (auto simp: bt_wf_insert bt.set_insert)
  with eq get show thesis using that by simp
qed

lemma recv_ack_any:
  assumes "out_ok mm"
  obtains mm' where "recv_ack oc mm ack = Some mm'" "out_ok mm'" "mm_epoch mm' = mm_epoch mm"
    "mm_incoming_slices mm' = mm_incoming_slices mm" "mm_last_ack mm' = mm_last_ack mm"
    "mm_next_seq mm' = mm_next_seq mm"
proof -
  obtain seq i where ack: "ack = (seq, i)" by (cases ack)
  let ?out = "bt_retain (\<lambda>s _. seq \<le> s) (mm_outgoing_slices mm)"
  have wf: "bt_wf ?out"
    using assms by (simp add: out_ok_def bt_wf_retain)
  have ok: "out_ok (mm\<lparr>mm_outgoing_slices := ?out\<rparr>)"
    using assms wf by (auto simp: out_ok_def bt_retain_def)
  show thesis
  proof (cases "bt_get ?out seq")
    case None
    then show thesis
      using that [of "mm\<lparr>mm_outgoing_slices := ?out\<rparr>"] ok ack by (simp add: recv_ack_def)
  next
    case (Some sm)
    then have "(seq, sm) \<in> set ?out"
      using wf by (simp add: bt.get_entries)
    then obtain k where k: "sm_epoch sm = mm_epoch mm" "sm_seq sm = seq"
      "length (sm_data sm) \<le> isize_max" "sends_from sm k"
      using out_ok_entry [OF ok] by fastforce
    have len: "length (sm_data sm) \<le> u64_bound" using k(3) by simp
    obtain sm' where sm': "SliceManager_ack oc sm (mm_epoch mm) seq i = Some sm'"
      "sends_from sm' (if i = 0 \<or> length (sm_data sm) \<le> k then k else i + 1)"
      "sm_data sm' = sm_data sm" "sm_epoch sm' = mm_epoch mm" "sm_seq sm' = seq"
      using sends_from_ack [OF k(4) len, of oc i] k(1,2) by metis
    let ?out' = "if SliceManager_is_empty sm' then bt_remove seq ?out else bt_insert seq sm' ?out"
    have "recv_ack oc mm ack = Some (mm\<lparr>mm_outgoing_slices := ?out'\<rparr>)"
      using Some sm'(1) ack by (simp add: recv_ack_def Let_def)
    moreover have "out_ok (mm\<lparr>mm_outgoing_slices := ?out'\<rparr>)"
      using ok wf sm' k(3) unfolding out_ok_def
      by (auto simp: bt_wf_remove bt_remove_set bt_wf_insert bt.set_insert)
    ultimately show thesis
      using that [of "mm\<lparr>mm_outgoing_slices := ?out'\<rparr>"] by simp
  qed
qed

lemma recv_keeps:
  assumes "MessageManager_recv oc mm seq first_index seq_len data = Some (ch, mm')"
  shows "mm_epoch mm' = mm_epoch mm \<and> mm_outgoing_slices mm' = mm_outgoing_slices mm \<and>
    mm_next_seq mm' = mm_next_seq mm"
  using assms
  by (auto simp: MessageManager_recv_def Let_def split: bind_splits if_splits prod.splits)

lemma take_recvd_keeps:
  "take_recvd oc mm = Some (msgs, mm') \<Longrightarrow>
   mm_epoch mm' = mm_epoch mm \<and> mm_outgoing_slices mm' = mm_outgoing_slices mm \<and>
   mm_next_seq mm' = mm_next_seq mm"
  by (auto simp: take_recvd_def Let_def split: bind_splits)

lemma receive_any:
  assumes "out_ok mm" "drained mm" "fst (mm_last_ack mm) + length (mm_incoming_slices mm) + 1 < u64_bound"
    "MessageManager_recv oc mm seq first_index seq_len data = Some (ch, mm')"
  obtains msgs mm'' where "take_recvd oc mm' = Some (msgs, mm'')" "out_ok mm''" "drained mm''"
    "mm_epoch mm'' = mm_epoch mm"
proof -
  obtain msgs mm'' where t: "take_recvd oc mm' = Some (msgs, mm'')" "drained mm''"
    using recv_any [OF assms(2-4)] by blast
  then show thesis
    using that [of msgs mm''] assms(1) recv_keeps [OF assms(4)] take_recvd_keeps [OF t(1)]
    by (simp add: out_ok_def)
qed

section \<open>Properties\<close>

text \<open>
  Whatever slice the other side sends, if \<open>recv\<close> returns then \<open>take_recvd\<close>, which follows it in
  every state, returns: its \<open>unwrap\<close> never panics. It hands out one message per sequence number
  that \<open>last_ack\<close> has passed, \<open>last_ack\<close> never goes back, and what is queued to be sent is not touched.
\<close>

theorem take_recvd_never_panics:
  assumes "drained mm" "fst (mm_last_ack mm) + length (mm_incoming_slices mm) + 1 < u64_bound"
    "MessageManager_recv oc mm seq first_index seq_len data = Some (should_ack, mm')"
  shows "\<exists>msgs mm''. take_recvd oc mm' = Some (msgs, mm'') \<and> drained mm'' \<and>
    fst (mm_last_ack mm) + length msgs = fst (mm_last_ack mm'') \<and>
    mm_outgoing_slices mm'' = mm_outgoing_slices mm"
  by (rule recv_any [OF assms])

lemmas message_eval = slice_eval MessageManager_new_def MessageManager_recv_def recv_in_range_def
  bt_get_def take_recvd_def last_head_index_def

lemma take_recvd_never_panics_witness:
  "\<exists>msgs mm''. take_recvd True
      \<lparr>mm_epoch = Epoch 1, mm_outgoing_slices = [], mm_next_seq = 0,
       mm_incoming_slices = [(0, \<lparr>sm_epoch = Epoch 1, sm_seq = 0, sm_data = [7, 8], sm_slices = [(0, 1)]\<rparr>)],
       mm_last_ack = (1, 0)\<rparr> = Some (msgs, mm'') \<and> drained mm'' \<and>
    fst (mm_last_ack (MessageManager_new (Epoch 1))) + length msgs = fst (mm_last_ack mm'') \<and>
    mm_outgoing_slices mm'' = mm_outgoing_slices (MessageManager_new (Epoch 1))"
proof (rule take_recvd_never_panics)
  show "MessageManager_recv True (MessageManager_new (Epoch 1)) 0 0 2 [7, 8] = Some (True,
      \<lparr>mm_epoch = Epoch 1, mm_outgoing_slices = [], mm_next_seq = 0,
       mm_incoming_slices = [(0, \<lparr>sm_epoch = Epoch 1, sm_seq = 0, sm_data = [7, 8], sm_slices = [(0, 1)]\<rparr>)],
       mm_last_ack = (1, 0)\<rparr>)"
    by (simp add: message_eval)
qed (simp_all add: drained_def MessageManager_new_def bt_wf_def)

text \<open>
  An acknowledgement of \<open>(seq, last_index)\<close>, whatever it says, drops every earlier message,
  leaves every later message as it was, and never panics.
\<close>

theorem recv_ack_scope:
  assumes "send_inv epoch ms pfx mm" "small_messages ms"
  shows "\<exists>mm'. recv_ack oc mm (seq, last_index) = Some mm' \<and>
    (\<forall>q < seq. get_outgoing_slice mm' q = None) \<and>
    (\<forall>q > seq. get_outgoing_slice mm' q = get_outgoing_slice mm q) \<and>
    mm_incoming_slices mm' = mm_incoming_slices mm \<and> mm_last_ack mm' = mm_last_ack mm"
proof -
  let ?out = "bt_retain (\<lambda>s _. seq \<le> s) (mm_outgoing_slices mm)"
  have wf: "bt_wf (mm_outgoing_slices mm)" and ep: "mm_epoch mm = epoch"
    using send_inv_fields [OF assms(1)] by simp_all
  have wf': "bt_wf ?out"
    using wf by (simp add: bt_wf_retain)
  have out: "bt_get ?out q = (if seq \<le> q then bt_get (mm_outgoing_slices mm) q else None)" for q
    using wf by (simp add: bt_get_retain split: option.split)
  show ?thesis
  proof (cases "bt_get ?out seq")
    case None
    then show ?thesis
      using out by (simp add: recv_ack_def get_outgoing_slice_def)
  next
    case (Some sm)
    then have entry: "(seq, sm) \<in> set (mm_outgoing_slices mm)"
      using wf by (simp add: out bt.get_entries)
    obtain sm' where "SliceManager_ack oc sm epoch seq last_index = Some sm'"
      by (rule queued_ack [OF assms entry])
    then show ?thesis
      using Some out wf' ep
      by (simp add: recv_ack_def get_outgoing_slice_def Let_def bt_get_insert bt_remove_def bt_get_retain
          split: option.split)
  qed
qed

lemma recv_ack_scope_witness:
  "\<exists>mm mm'. insert_msg True (MessageManager_new (Epoch 1)) [7, 8] = Some (0, mm) \<and>
    recv_ack True mm (0, 1) = Some mm' \<and>
    (\<forall>q < 0. get_outgoing_slice mm' q = None) \<and>
    (\<forall>q > 0. get_outgoing_slice mm' q = get_outgoing_slice mm q) \<and>
    mm_incoming_slices mm' = mm_incoming_slices mm \<and> mm_last_ack mm' = mm_last_ack mm"
proof -
  obtain mm where "insert_msg True (MessageManager_new (Epoch 1)) [7, 8] = Some (0, mm)"
    "send_inv (Epoch 1) [[7, 8]] (\<lambda>_. 0) mm"
    using insert_msg_inv [OF send_inv_new [of "Epoch 1" "\<lambda>_. 0"], of "[7, 8]" True] by auto
  moreover have "small_messages [[7, 8]]"
    by (simp add: small_messages_def)
  ultimately show ?thesis
    using recv_ack_scope by blast
qed

end
