(* ===== verification/Deadlines.thy ===== *)
theory Deadlines
  imports Prelude
begin

text \<open>
  \<^verbatim>\<open>src/src/deadline.rs\<close>: the timer of the core task. Instants and durations are nanoseconds since some
  origin; the current instant is an argument of the operations that read the clock. The sleep that
  a deadline holds is the instant it ends at: \<open>poll\<close> is ready as soon as that instant has come.
\<close>

type_synonym Instant = nat
type_synonym Duration = nat

abbreviation (input) from_millis :: "nat \<Rightarrow> Duration" where "from_millis n \<equiv> n * 1000000"
abbreviation (input) from_secs :: "nat \<Rightarrow> Duration" where "from_secs n \<equiv> n * 1000000000"

section \<open>State and operations\<close>

record Deadline =
  dl_deadline :: "Instant option"
  dl_repeat :: "Duration option"

definition Deadline_new :: Deadline where
  "Deadline_new = \<lparr>dl_deadline = None, dl_repeat = None\<rparr>"

definition new_deadline :: "Instant \<Rightarrow> Deadline" where
  "new_deadline d = \<lparr>dl_deadline = Some d, dl_repeat = None\<rparr>"

definition new_repeat :: "Instant \<Rightarrow> Duration \<Rightarrow> Deadline" where
  "new_repeat now interval = \<lparr>dl_deadline = Some (now + interval), dl_repeat = Some interval\<rparr>"

definition modify_deadline :: "Instant \<Rightarrow> Deadline \<Rightarrow> Deadline" where
  "modify_deadline d dl = dl\<lparr>dl_deadline := Some d\<rparr>"

definition modify_deadline_from_now :: "Instant \<Rightarrow> Duration \<Rightarrow> Deadline \<Rightarrow> Deadline" where
  "modify_deadline_from_now now d dl = modify_deadline (now + d) dl"

definition has_deadline :: "Deadline \<Rightarrow> bool" where
  "has_deadline dl = (dl_deadline dl \<noteq> None)"

definition clear_deadline :: "Deadline \<Rightarrow> Deadline" where
  "clear_deadline dl = dl\<lparr>dl_deadline := None\<rparr>"

definition modify_repeat :: "Instant \<Rightarrow> Duration \<Rightarrow> Deadline \<Rightarrow> Deadline" where
  "modify_repeat now repeat dl =
     (let dl = (if dl_deadline dl = None then dl\<lparr>dl_deadline := Some (now + repeat)\<rparr> else dl)
      in dl\<lparr>dl_repeat := Some repeat\<rparr>)"

definition has_repeat :: "Deadline \<Rightarrow> bool" where
  "has_repeat dl = (dl_repeat dl \<noteq> None)"

definition clear_repeat :: "Deadline \<Rightarrow> Deadline" where
  "clear_repeat dl = dl\<lparr>dl_repeat := None\<rparr>"

definition Deadline_clear :: "Deadline \<Rightarrow> Deadline" where
  "Deadline_clear dl = dl\<lparr>dl_deadline := None, dl_repeat := None\<rparr>"

definition is_elapsed :: "Instant \<Rightarrow> Deadline \<Rightarrow> bool" where
  "is_elapsed now dl = (case dl_deadline dl of Some d \<Rightarrow> d \<le> now | None \<Rightarrow> False)"

text \<open>The first component says whether the future is ready.\<close>

definition Deadline_poll :: "Instant \<Rightarrow> Deadline \<Rightarrow> bool \<times> Deadline" where
  "Deadline_poll now dl =
     (case dl_deadline dl of
        Some d \<Rightarrow>
          if d \<le> now
          then (True, case dl_repeat dl of
                        Some repeat \<Rightarrow> dl\<lparr>dl_deadline := Some (now + repeat)\<rparr>
                      | None \<Rightarrow> dl\<lparr>dl_deadline := None\<rparr>)
          else (False, dl)
      | None \<Rightarrow> (False, dl))"

definition Deadline_clone :: "Deadline \<Rightarrow> Deadline" where
  "Deadline_clone dl = \<lparr>dl_deadline = dl_deadline dl, dl_repeat = dl_repeat dl\<rparr>"

text \<open>Polling at a sequence of instants: the instants at which the timer was ready.\<close>

fun poll_each :: "Deadline \<Rightarrow> Instant list \<Rightarrow> Instant list \<times> Deadline" where
  "poll_each dl [] = ([], dl)"
| "poll_each dl (now # nows) =
     (let (ready, dl) = Deadline_poll now dl; (fired, dl) = poll_each dl nows
      in (if ready then now # fired else fired, dl))"

section \<open>Laws\<close>

lemmas deadline_defs =
  Deadline_new_def new_deadline_def new_repeat_def modify_deadline_def modify_deadline_from_now_def
  has_deadline_def clear_deadline_def modify_repeat_def has_repeat_def clear_repeat_def
  Deadline_clear_def is_elapsed_def

text \<open>The timer that an operation leaves behind, as the states of the machine use it.\<close>

definition armed_every :: "Duration \<Rightarrow> Deadline \<Rightarrow> bool" where
  "armed_every d dl = (has_deadline dl \<and> dl_repeat dl = Some d)"

lemma armed_every_modify_repeat [simp]: "armed_every d (modify_repeat now d dl)"
  by (simp add: armed_every_def deadline_defs Let_def)

lemma armed_every_poll: "armed_every d dl \<Longrightarrow> armed_every d (snd (Deadline_poll now dl))"
  by (auto simp: armed_every_def has_deadline_def Deadline_poll_def split: option.splits)

lemma has_deadline_modify [simp]: "has_deadline (modify_deadline_from_now now d dl)"
  by (simp add: deadline_defs)

lemma Deadline_clear_eq [simp]: "Deadline_clear dl = Deadline_new"
  by (cases dl) (simp add: deadline_defs)

lemma poll_each_idle: "dl_deadline dl = None \<Longrightarrow> poll_each dl nows = ([], dl)"
  by (induction nows) (simp_all add: Deadline_poll_def)

lemma poll_ready_iff: "fst (Deadline_poll now dl) = is_elapsed now dl"
  by (simp add: Deadline_poll_def is_elapsed_def split: option.split)

lemma repeat_fires_after:
  "armed_every d dl \<Longrightarrow>
   \<exists>x. dl_deadline dl = Some x \<and> (\<forall>a \<in> set (fst (poll_each dl nows)). x \<le> a) \<and>
     armed_every d (snd (poll_each dl nows)) \<and>
     sorted_wrt (\<lambda>a b. a + d \<le> b) (fst (poll_each dl nows))"
proof (induction nows arbitrary: dl)
  case Nil
  then show ?case by (auto simp: armed_every_def has_deadline_def)
next
  case (Cons now nows)
  then obtain x where x: "dl_deadline dl = Some x" "dl_repeat dl = Some d"
    by (auto simp: armed_every_def has_deadline_def)
  show ?case
  proof (cases "x \<le> now")
    case True
    let ?dl = "dl\<lparr>dl_deadline := Some (now + d)\<rparr>"
    have poll: "Deadline_poll now dl = (True, ?dl)"
      using x True by (simp add: Deadline_poll_def)
    have "armed_every d ?dl"
      using x by (simp add: armed_every_def has_deadline_def)
    from Cons.IH [OF this] show ?thesis
      using x True by (fastforce simp: poll split: prod.split)
  next
    case False
    then have "Deadline_poll now dl = (False, dl)"
      using x by (simp add: Deadline_poll_def)
    with Cons.IH [OF Cons.prems] show ?thesis
      by (simp split: prod.split)
  qed
qed

section \<open>Properties\<close>

text \<open>
  A timer without a repeat interval is ready exactly once, at the first poll that comes at or
  after its deadline, and is disarmed from then on.
\<close>

lemma one_shot_fires_once:
  "poll_each (new_deadline d) nows =
     (case dropWhile (\<lambda>now. now < d) nows of
        [] \<Rightarrow> ([], new_deadline d)
      | now # _ \<Rightarrow> ([now], Deadline_new))"
  by (induction nows)
     (auto simp: Deadline_poll_def deadline_defs poll_each_idle Let_def split: list.splits)

text \<open>
  A repeating timer stays armed whatever happens to it, and is never ready twice within its
  interval: the instants at which it was ready are at least the interval apart.
\<close>

theorem repeat_fires_apart:
  assumes "armed_every d dl"
  shows "armed_every d (snd (poll_each dl nows)) \<and>
    sorted_wrt (\<lambda>a b. a + d \<le> b) (fst (poll_each dl nows))"
  using repeat_fires_after [OF assms, of nows] by auto

lemma repeat_fires_apart_witness:
  "armed_every 5 (snd (poll_each (new_repeat 10 5) [12, 16, 17, 30])) \<and>
    sorted_wrt (\<lambda>a b. a + 5 \<le> b) (fst (poll_each (new_repeat 10 5) [12, 16, 17, 30]))"
  by (rule repeat_fires_apart) (simp add: armed_every_def deadline_defs)

end
