(* ===== verification/Addresses.thy ===== *)
theory Addresses
  imports Epochs
begin

text \<open>
  \<^verbatim>\<open>src/src/links/address.rs\<close>: addresses and their two written forms. A Rust string is the list of its
  UTF-8 bytes; \<open>from_utf8\<close> is the validity check of the standard library. The base64 engine is a
  third-party crate: its \<open>encode\<close> and \<open>decode\<close> are arguments of the two operations that call it.
\<close>

section \<open>Strings\<close>

type_synonym rust_string = bytes

definition colon :: u8 where "colon = 58"

fun is_continuation :: "u8 \<Rightarrow> bool" where
  "is_continuation b = (128 \<le> b \<and> b \<le> 191)"

text \<open>The byte sequences of Unicode scalar values: no overlong forms, no surrogates.\<close>

fun valid_utf8 :: "bytes \<Rightarrow> bool" where
  "valid_utf8 [] = True"
| "valid_utf8 (a # bs) =
     (if a \<le> 127 then valid_utf8 bs
      else case bs of
        [] \<Rightarrow> False
      | b # cs \<Rightarrow>
          if 194 \<le> a \<and> a \<le> 223 then is_continuation b \<and> valid_utf8 cs
          else case cs of
            [] \<Rightarrow> False
          | c # ds \<Rightarrow>
              if 224 \<le> a \<and> a \<le> 239
              then is_continuation b \<and> is_continuation c \<and> (a = 224 \<longrightarrow> 160 \<le> b) \<and>
                   (a = 237 \<longrightarrow> b \<le> 159) \<and> valid_utf8 ds
              else case ds of
                [] \<Rightarrow> False
              | d # es \<Rightarrow>
                  240 \<le> a \<and> a \<le> 244 \<and> is_continuation b \<and> is_continuation c \<and> is_continuation d \<and>
                  (a = 240 \<longrightarrow> 144 \<le> b) \<and> (a = 244 \<longrightarrow> b \<le> 143) \<and> valid_utf8 es)"

definition from_utf8 :: "bytes \<Rightarrow> 'e \<Rightarrow> 'e + rust_string" where
  "from_utf8 bs e = (if valid_utf8 bs then Inr bs else Inl e)"

text \<open>The index of the first occurrence, and \<open>str::split_once\<close> at an ASCII character.\<close>

fun position :: "u8 \<Rightarrow> bytes \<Rightarrow> nat option" where
  "position c [] = None"
| "position c (b # bs) = (if b = c then Some 0 else map_option Suc (position c bs))"

definition split_once :: "u8 \<Rightarrow> rust_string \<Rightarrow> (rust_string \<times> rust_string) option" where
  "split_once c s = map_option (\<lambda>i. (take i s, drop (Suc i) s)) (position c s)"

section \<open>Addresses\<close>

datatype AddressRepr = AddrString rust_string | AddrBytes bytes

definition STRING_SYMBOL :: u8 where "STRING_SYMBOL = 0"
definition BYTES_SYMBOL :: u8 where "BYTES_SYMBOL = 1"

fun repr_addr_string :: "AddressRepr \<Rightarrow> rust_string LinkSetResult" where
  "repr_addr_string (AddrString s) = Inr s"
| "repr_addr_string (AddrBytes _) = Inl (IncorrectAddrType ''string'' ''bytes'')"

fun repr_addr_bytes :: "AddressRepr \<Rightarrow> bytes LinkSetResult" where
  "repr_addr_bytes (AddrString _) = Inl (IncorrectAddrType ''bytes'' ''string'')"
| "repr_addr_bytes (AddrBytes b) = Inr b"

record Address =
  ad_scheme :: rust_string
  ad_addr :: AddressRepr

definition Address_new :: "rust_string \<Rightarrow> AddressRepr \<Rightarrow> Address" where
  "Address_new scheme addr = \<lparr>ad_scheme = scheme, ad_addr = addr\<rparr>"

definition addr_string :: "Address \<Rightarrow> rust_string LinkSetResult" where
  "addr_string a = repr_addr_string (ad_addr a)"

definition addr_bytes :: "Address \<Rightarrow> bytes LinkSetResult" where
  "addr_bytes a = repr_addr_bytes (ad_addr a)"

definition Address_to_bytes :: "Address \<Rightarrow> bytes" where
  "Address_to_bytes a =
     ad_scheme a @ [colon] @
     (case ad_addr a of
        AddrString s \<Rightarrow> [STRING_SYMBOL] @ s
      | AddrBytes b \<Rightarrow> [BYTES_SYMBOL] @ b)"

definition Address_from_bytes :: "bytes \<Rightarrow> Address LinkSetResult" where
  "Address_from_bytes bytes =
     and_then (ok_or (position colon bytes) DeserializeEOF) (\<lambda>delim.
     if length bytes < delim + 2 then Inl DeserializeEOF
     else
       and_then (from_utf8 (take delim bytes) (DeserializeInvalid (bytes ! delim))) (\<lambda>scheme.
       let symbol = bytes ! (delim + 1); rest = drop (delim + 2) bytes in
       and_then
         (if symbol = STRING_SYMBOL
          then and_then (from_utf8 rest (DeserializeInvalid (bytes ! (delim + 1)))) (\<lambda>s. Inr (AddrString s))
          else if symbol = BYTES_SYMBOL then Inr (AddrBytes rest)
          else Inl (DeserializeInvalid symbol)) (\<lambda>repr.
       Inr \<lparr>ad_scheme = scheme, ad_addr = repr\<rparr>)))"

text \<open>\<open>AddressParseError\<close> is a unit struct.\<close>

datatype AddressParseError = AddressParseError

definition txt_name :: rust_string where "txt_name = [116, 120, 116]"
definition b64_name :: rust_string where "b64_name = [98, 54, 52]"

definition Address_from_str ::
  "(rust_string \<Rightarrow> bytes option) \<Rightarrow> rust_string \<Rightarrow> AddressParseError + Address" where
  "Address_from_str decode s =
     and_then (ok_or (split_once colon s) AddressParseError) (\<lambda>(scheme, remainder).
     and_then
       (case split_once colon remainder of
          Some (repr, addr) \<Rightarrow>
            if repr = txt_name then Inr (AddrString addr)
            else if repr = b64_name
            then and_then (ok_or (decode addr) AddressParseError) (\<lambda>decoded. Inr (AddrBytes decoded))
            else Inr (AddrString remainder)
        | None \<Rightarrow> Inr (AddrString remainder)) (\<lambda>repr.
     Inr \<lparr>ad_scheme = scheme, ad_addr = repr\<rparr>))"

definition Address_fmt :: "(bytes \<Rightarrow> rust_string) \<Rightarrow> Address \<Rightarrow> rust_string" where
  "Address_fmt encode a =
     (case ad_addr a of
        AddrString addr \<Rightarrow> ad_scheme a @ [colon] @ txt_name @ [colon] @ addr
      | AddrBytes bytes \<Rightarrow> ad_scheme a @ [colon] @ b64_name @ [colon] @ encode bytes)"

section \<open>Laws\<close>

text \<open>What the Rust types of an address guarantee, and that its scheme has no colon.\<close>

definition valid_address :: "Address \<Rightarrow> bool" where
  "valid_address a =
     (valid_utf8 (ad_scheme a) \<and> colon \<notin> set (ad_scheme a) \<and>
      (case ad_addr a of AddrString s \<Rightarrow> valid_utf8 s | AddrBytes _ \<Rightarrow> True))"

lemma position_append: "c \<notin> set xs \<Longrightarrow> position c (xs @ c # ys) = Some (length xs)"
  by (induction xs) auto

lemma split_once_append: "c \<notin> set xs \<Longrightarrow> split_once c (xs @ c # ys) = Some (xs, ys)"
  by (simp add: split_once_def position_append)

lemma position_Some:
  "position c xs = Some i \<Longrightarrow> i < length xs \<and> xs ! i = c \<and> c \<notin> set (take i xs)"
  by (induction xs arbitrary: i) (auto split: if_splits)

lemma split_position: "i < length xs \<Longrightarrow> take i xs @ xs ! i # drop (Suc i) xs = xs"
  by (rule id_take_nth_drop [symmetric])

lemma repr_names [simp]:
  "colon \<notin> set txt_name" "colon \<notin> set b64_name" "b64_name \<noteq> txt_name"
  by (simp_all add: colon_def txt_name_def b64_name_def)

lemma split_second: "i + 1 < length xs \<Longrightarrow> drop (Suc i) xs = xs ! (i + 1) # drop (i + 2) xs"
  by (simp add: Cons_nth_drop_Suc)

section \<open>Properties\<close>

text \<open>
  An address whose scheme has no colon survives its byte form.
\<close>

lemma address_bytes_round_trip:
  assumes "valid_address a"
  shows "Address_from_bytes (Address_to_bytes a) = Inr a"
proof -
  have "position colon (Address_to_bytes a) = Some (length (ad_scheme a))"
    using assms by (simp add: Address_to_bytes_def valid_address_def position_append)
  then show ?thesis
    using assms
    by (cases "ad_addr a")
       (simp_all add: Address_from_bytes_def Address_to_bytes_def valid_address_def ok_or_def from_utf8_def
         nth_append STRING_SYMBOL_def BYTES_SYMBOL_def)
qed

text \<open>
  Reading an address from bytes accepts only the byte form of an address: it is the exact
  inverse of writing, and every address it returns is well-formed.
\<close>

theorem address_from_bytes_exact:
  assumes "Address_from_bytes bytes = Inr a"
  shows "valid_address a \<and> Address_to_bytes a = bytes"
proof -
  obtain i where i: "position colon bytes = Some i"
    using assms by (cases "position colon bytes") (auto simp: Address_from_bytes_def ok_or_def)
  then have len: "i + 2 \<le> length bytes"
    using assms by (auto simp: Address_from_bytes_def ok_or_def split: if_splits)
  have "take i bytes @ colon # bytes ! (i + 1) # drop (i + 2) bytes = bytes"
    using split_position [of i bytes] split_second [of i bytes] position_Some [OF i] len by simp
  then show ?thesis
    using assms i len position_Some [OF i]
    by (auto simp: Address_from_bytes_def ok_or_def from_utf8_def Let_def valid_address_def
        Address_to_bytes_def split: if_splits)
qed

lemma address_from_bytes_exact_witness:
  "valid_address (Address_new [116] (AddrString [97])) \<and>
    Address_to_bytes (Address_new [116] (AddrString [97])) = [116, 58, 0, 97]"
  by (rule address_from_bytes_exact)
     (simp add: Address_from_bytes_def Address_new_def colon_def ok_or_def from_utf8_def STRING_SYMBOL_def)

text \<open>
  An address whose scheme has no colon survives its displayed form, given that base64 decoding
  inverts base64 encoding.
\<close>

theorem address_display_round_trip:
  assumes "colon \<notin> set (ad_scheme a)" "\<And>b. decode (encode b) = Some b"
  shows "Address_from_str decode (Address_fmt encode a) = Inr a"
proof (cases a)
  case (fields scheme repr)
  then show ?thesis
    using assms
    by (cases repr) (simp_all add: Address_from_str_def Address_fmt_def split_once_append ok_or_def repr_names)
qed

lemma address_display_round_trip_witness:
  "Address_from_str Some (Address_fmt (\<lambda>b. b) (Address_new [116, 99, 112] (AddrBytes [1, 58]))) =
     Inr (Address_new [116, 99, 112] (AddrBytes [1, 58]))"
  by (rule address_display_round_trip) (simp_all add: Address_new_def colon_def)

end
