(* ===== verification/Links.thy ===== *)
theory Links
  imports Message_Manager Deadlines Addresses
begin

text \<open>
  \<^verbatim>\<open>src/src/links/link.rs\<close>, \<^verbatim>\<open>link_entry.rs\<close> and \<^verbatim>\<open>link_manager.rs\<close>: the links of a link set.

  A link is a value of any type that implements the trait \<open>Link\<close>. The implementation is a record of
  operations, the argument \<open>L\<close> of everything below; an operation that takes \<open>&mut self\<close> returns the
  link afterwards. What the reader half of a link returns, call after call, is a list of results.
\<close>

section \<open>The trait\<close>

record 'l Link =
  li_scheme :: "'l \<Rightarrow> rust_string"
  li_send :: "'l \<Rightarrow> bytes \<Rightarrow> (boxed_error + unit) \<times> 'l"
  li_recv :: "'l \<Rightarrow> (boxed_error + bytes) \<times> 'l"
  li_take_reader :: "'l \<Rightarrow> (boxed_error + unit) \<times> 'l"
  li_max_size :: "'l \<Rightarrow> u32"
  li_is_closed :: "'l \<Rightarrow> bool \<times> 'l"

text \<open>The blanket implementation of \<open>PinnedLink\<close>: the same operations with their errors boxed.\<close>

definition map_err :: "('e \<Rightarrow> 'f) \<Rightarrow> 'e + 'a \<Rightarrow> 'f + 'a" where
  "map_err f r = (case r of Inl e \<Rightarrow> Inl (f e) | Inr a \<Rightarrow> Inr a)"

definition pinned_send :: "'l Link \<Rightarrow> 'l \<Rightarrow> bytes \<Rightarrow> unit LinkSetResult \<times> 'l" where
  "pinned_send L l msg = (let (r, l) = li_send L l msg in (map_err LinkError r, l))"

definition pinned_recv :: "'l Link \<Rightarrow> 'l \<Rightarrow> bytes LinkSetResult \<times> 'l" where
  "pinned_recv L l = (let (r, l) = li_recv L l in (map_err LinkError r, l))"

definition pinned_take_reader :: "'l Link \<Rightarrow> 'l \<Rightarrow> unit LinkSetResult \<times> 'l" where
  "pinned_take_reader L l = (let (r, l) = li_take_reader L l in (map_err LinkError r, l))"

section \<open>Link entries\<close>

definition HISTORY_LEN :: nat where "HISTORY_LEN = 6"
definition DEFAULT_LATENCY :: Duration where "DEFAULT_LATENCY = from_millis 100"
definition MAX_LATENCY :: Duration where "MAX_LATENCY = from_secs 2"
definition OVERHEAD :: u32 where "OVERHEAD = 56"

record 'l LinkEntry =
  le_id :: u64
  le_link :: 'l
  le_ping :: "Instant option"
  le_recent :: "Duration list"

definition LinkEntry_new :: "'l \<Rightarrow> u64 \<Rightarrow> 'l LinkEntry" where
  "LinkEntry_new link link_id =
     \<lparr>le_id = link_id, le_link = link, le_ping = None, le_recent = replicate HISTORY_LEN DEFAULT_LATENCY\<rparr>"

definition LinkEntry_scheme :: "'l Link \<Rightarrow> 'l LinkEntry \<Rightarrow> rust_string" where
  "LinkEntry_scheme L e = li_scheme L (le_link e)"

definition LinkEntry_send :: "'l Link \<Rightarrow> 'l LinkEntry \<Rightarrow> LinkProtocol \<Rightarrow> unit LinkSetResult \<times> 'l LinkEntry" where
  "LinkEntry_send L e msg =
     (let (r, l) = pinned_send L (le_link e) (serialize msg) in (r, e\<lparr>le_link := l\<rparr>))"

definition add_latency :: "'l LinkEntry \<Rightarrow> Duration \<Rightarrow> 'l LinkEntry" where
  "add_latency e latency = e\<lparr>le_recent := take HISTORY_LEN (latency # le_recent e)\<rparr>"

definition LinkEntry_end_ping :: "Instant \<Rightarrow> 'l LinkEntry \<Rightarrow> 'l LinkEntry" where
  "LinkEntry_end_ping now e =
     (case le_ping e of
        Some last_ping \<Rightarrow> add_latency (e\<lparr>le_ping := None\<rparr>) (now - last_ping)
      | None \<Rightarrow> e)"

definition send_ping :: "'l Link \<Rightarrow> Instant \<Rightarrow> 'l LinkEntry \<Rightarrow> unit LinkSetResult \<times> 'l LinkEntry" where
  "send_ping L now e = LinkEntry_send L ((LinkEntry_end_ping now e)\<lparr>le_ping := Some now\<rparr>) Ping"

definition send_pong :: "'l Link \<Rightarrow> 'l LinkEntry \<Rightarrow> unit LinkSetResult \<times> 'l LinkEntry" where
  "send_pong L e = LinkEntry_send L e Pong"

definition LinkEntry_latency :: "'l LinkEntry \<Rightarrow> Duration" where
  "LinkEntry_latency e =
     (if le_recent e = [] then DEFAULT_LATENCY else sum_list (le_recent e) div length (le_recent e))"

definition LinkEntry_max_size :: "'l Link \<Rightarrow> 'l LinkEntry \<Rightarrow> u32" where
  "LinkEntry_max_size L e = li_max_size L (le_link e) - OVERHEAD"

definition LinkEntry_is_closed :: "'l Link \<Rightarrow> 'l LinkEntry \<Rightarrow> bool \<times> 'l LinkEntry" where
  "LinkEntry_is_closed L e = (let (c, l) = li_is_closed L (le_link e) in (c, e\<lparr>le_link := l\<rparr>))"

definition LinkEntry_take_reader :: "'l Link \<Rightarrow> 'l LinkEntry \<Rightarrow> unit LinkSetResult \<times> 'l LinkEntry" where
  "LinkEntry_take_reader L e =
     (let (r, l) = pinned_take_reader L (le_link e) in (r, e\<lparr>le_link := l\<rparr>))"

text \<open>
  The task that \<open>take_reader\<close> spawns: what it passes on while the reads return these results.
\<close>

fun reader_task :: "u64 \<Rightarrow> (LinkSetError + bytes) list \<Rightarrow> (u64 \<times> LinkProtocol) list" where
  "reader_task link_id [] = []"
| "reader_task link_id (Inl _ # reads) = []"
| "reader_task link_id (Inr data # reads) =
     (case deserialize data of
        Inl _ \<Rightarrow> []
      | Inr (proto, _) \<Rightarrow> (link_id, proto) # reader_task link_id reads)"

section \<open>The link manager\<close>

record 'l LinkManager =
  lm_links :: "'l LinkEntry list"

definition LinkManager_new :: "'l LinkManager" where
  "LinkManager_new = \<lparr>lm_links = []\<rparr>"

definition with_link :: "'l LinkEntry \<Rightarrow> 'l LinkManager" where
  "with_link link = \<lparr>lm_links = [link]\<rparr>"

definition add_link :: "'l LinkEntry \<Rightarrow> 'l LinkManager \<Rightarrow> 'l LinkManager" where
  "add_link link lm = lm\<lparr>lm_links := link # lm_links lm\<rparr>"

definition evict_link :: "u64 \<Rightarrow> 'l LinkManager \<Rightarrow> bool \<times> 'l LinkManager" where
  "evict_link link_id lm =
     (list_ex (\<lambda>e. le_id e = link_id) (lm_links lm), lm\<lparr>lm_links := filter (\<lambda>e. le_id e \<noteq> link_id) (lm_links lm)\<rparr>)"

definition LinkManager_is_empty :: "'l LinkManager \<Rightarrow> bool" where
  "LinkManager_is_empty lm = (lm_links lm = [])"

text \<open>The check with which both sending loops discard links from the front.\<close>

definition unusable :: "'l Link \<Rightarrow> 'l LinkEntry \<Rightarrow> bool \<times> 'l LinkEntry" where
  "unusable L e = (let (c, e) = LinkEntry_is_closed L e in (c \<or> MAX_LATENCY < LinkEntry_latency e, e))"

fun send_proto_loop :: "'l Link \<Rightarrow> LinkProtocol \<Rightarrow> 'l LinkEntry list \<Rightarrow> unit LinkSetResult \<times> 'l LinkEntry list" where
  "send_proto_loop L proto [] = (Inl Closed, [])"
| "send_proto_loop L proto (e # es) =
     (let (bad, e) = unusable L e
      in if bad then send_proto_loop L proto es
         else let (r, e) = LinkEntry_send L e proto in (r, e # es))"

definition send_proto :: "'l Link \<Rightarrow> LinkProtocol \<Rightarrow> 'l LinkManager \<Rightarrow> unit LinkSetResult \<times> 'l LinkManager" where
  "send_proto L proto lm =
     (let (r, es) = send_proto_loop L proto (lm_links lm) in (r, lm\<lparr>lm_links := es\<rparr>))"

definition links_reset :: "'l Link \<Rightarrow> Epoch option \<Rightarrow> bool \<Rightarrow> 'l LinkManager \<Rightarrow> unit LinkSetResult \<times> 'l LinkManager" where
  "links_reset L epoch request lm = send_proto L (Reset epoch request) lm"

definition links_ack :: "'l Link \<Rightarrow> Epoch \<Rightarrow> u64 \<times> u64 \<Rightarrow> 'l LinkManager \<Rightarrow> unit LinkSetResult \<times> 'l LinkManager" where
  "links_ack L epoch ack lm = send_proto L (Ack (to_int epoch) (fst ack) (snd ack)) lm"

text \<open>\<open>for proto in protos { link.send(proto).await?; }\<close>\<close>

fun send_each :: "'l Link \<Rightarrow> LinkProtocol list \<Rightarrow> 'l LinkEntry \<Rightarrow> unit LinkSetResult \<times> 'l LinkEntry" where
  "send_each L [] e = (Inr (), e)"
| "send_each L (p # ps) e =
     (let (r, e) = LinkEntry_send L e p
      in case r of Inl err \<Rightarrow> (Inl err, e) | Inr _ \<Rightarrow> send_each L ps e)"

fun send_slices_loop ::
  "bool \<Rightarrow> 'l Link \<Rightarrow> SliceManager \<Rightarrow> 'l LinkEntry list \<Rightarrow> (unit LinkSetResult \<times> 'l LinkEntry list) option" where
  "send_slices_loop oc L sm [] = Some (Inl Closed, [])"
| "send_slices_loop oc L sm (e # es) =
     (let (bad, e) = unusable L e
      in if bad then send_slices_loop oc L sm es
         else do { protos \<leftarrow> get_slices oc sm (LinkEntry_max_size L e);
                   let (r, e) = send_each L protos e;
                   Some (r, e # es) })"

definition send_slices ::
  "bool \<Rightarrow> 'l Link \<Rightarrow> SliceManager \<Rightarrow> 'l LinkManager \<Rightarrow> (unit LinkSetResult \<times> 'l LinkManager) option" where
  "send_slices oc L sm lm =
     do { (r, es) \<leftarrow> send_slices_loop oc L sm (lm_links lm); Some (r, lm\<lparr>lm_links := es\<rparr>) }"

definition ping_all :: "'l Link \<Rightarrow> Instant \<Rightarrow> 'l LinkManager \<Rightarrow> 'l LinkManager" where
  "ping_all L now lm = lm\<lparr>lm_links := map (\<lambda>e. snd (send_ping L now e)) (lm_links lm)\<rparr>"

text \<open>The first link with this id is updated.\<close>

fun update_first :: "u64 \<Rightarrow> ('l LinkEntry \<Rightarrow> 'l LinkEntry) \<Rightarrow> 'l LinkEntry list \<Rightarrow> 'l LinkEntry list" where
  "update_first link_id f [] = []"
| "update_first link_id f (e # es) = (if le_id e = link_id then f e # es else e # update_first link_id f es)"

definition links_pong :: "'l Link \<Rightarrow> u64 \<Rightarrow> 'l LinkManager \<Rightarrow> 'l LinkManager" where
  "links_pong L link_id lm = lm\<lparr>lm_links := update_first link_id (\<lambda>e. snd (send_pong L e)) (lm_links lm)\<rparr>"

definition links_end_ping :: "Instant \<Rightarrow> u64 \<Rightarrow> 'l LinkManager \<Rightarrow> 'l LinkManager" where
  "links_end_ping now link_id lm = lm\<lparr>lm_links := update_first link_id (LinkEntry_end_ping now) (lm_links lm)\<rparr>"

fun upkeep_loop :: "'l Link \<Rightarrow> 'l LinkEntry list \<Rightarrow> 'l LinkEntry list" where
  "upkeep_loop L [] = []"
| "upkeep_loop L (e # es) =
     (let (c, e) = LinkEntry_is_closed L e
      in if c then upkeep_loop L es
         else if LinkEntry_latency e < MAX_LATENCY then e # upkeep_loop L es
         else upkeep_loop L es)"

definition upkeep :: "'l Link \<Rightarrow> 'l LinkManager \<Rightarrow> 'l LinkManager" where
  "upkeep L lm = lm\<lparr>lm_links := upkeep_loop L (lm_links lm)\<rparr>"

section \<open>What the manager does to its links\<close>

text \<open>
  The contract of a link that the manager relies on and keeps: a link has a fixed maximum size, and
  \<open>ok\<close> is anything that asking the link whether it is closed does not change, and that sending no
  more than the maximum size at once does not change either.
\<close>

locale sized_link =
  fixes L :: "'l Link"
    and ok :: "'l \<Rightarrow> bool"
  assumes send_ok: "ok l \<Longrightarrow> length msg \<le> li_max_size L l \<Longrightarrow> ok (snd (li_send L l msg))"
    and closed_ok: "ok l \<Longrightarrow> ok (snd (li_is_closed L l))"
    and send_size: "li_max_size L (snd (li_send L l msg)) = li_max_size L l"
    and closed_size: "li_max_size L (snd (li_is_closed L l)) = li_max_size L l"
    and size_u32: "ok l \<Longrightarrow> li_max_size L l < u32_bound"
begin

definition entry_ok :: "'l LinkEntry \<Rightarrow> bool" where
  "entry_ok e \<longleftrightarrow> ok (le_link e) \<and> OVERHEAD < li_max_size L (le_link e)"

definition links_ok :: "'l LinkManager \<Rightarrow> bool" where
  "links_ok lm \<longleftrightarrow> (\<forall>e \<in> set (lm_links lm). entry_ok e)"

lemma entry_send:
  "entry_ok e \<Longrightarrow> length (serialize msg) \<le> li_max_size L (le_link e) \<Longrightarrow>
   entry_ok (snd (LinkEntry_send L e msg)) \<and>
   li_max_size L (le_link (snd (LinkEntry_send L e msg))) = li_max_size L (le_link e)"
  using send_ok [of "le_link e" "serialize msg"] send_size [of "le_link e" "serialize msg"]
  by (simp add: entry_ok_def LinkEntry_send_def pinned_send_def case_prod_unfold Let_def)

lemma entry_send_short:
  "entry_ok e \<Longrightarrow> length (serialize msg) \<le> OVERHEAD \<Longrightarrow> entry_ok (snd (LinkEntry_send L e msg))"
  using entry_send [of e msg] by (simp add: entry_ok_def)

lemma entry_end_ping [simp]: "entry_ok (LinkEntry_end_ping now e) = entry_ok e"
  by (simp add: entry_ok_def LinkEntry_end_ping_def add_latency_def split: option.split)

lemma entry_closed: "entry_ok e \<Longrightarrow> entry_ok (snd (LinkEntry_is_closed L e))"
  using closed_ok [of "le_link e"] closed_size [of "le_link e"]
  by (simp add: entry_ok_def LinkEntry_is_closed_def case_prod_unfold Let_def)

lemma entry_unusable: "entry_ok e \<Longrightarrow> entry_ok (snd (unusable L e))"
  using entry_closed [of e] by (simp add: unusable_def case_prod_unfold Let_def)

lemma short_messages:
  "length (serialize (Reset epoch request)) \<le> OVERHEAD" "length (serialize (Ack a b c)) \<le> OVERHEAD"
  "length (serialize Ping) \<le> OVERHEAD" "length (serialize Pong) \<le> OVERHEAD"
  by (simp_all add: length_serialize OVERHEAD_def)

lemma send_ping_ok: "entry_ok e \<Longrightarrow> entry_ok (snd (send_ping L now e))"
proof -
  assume "entry_ok e"
  then have "entry_ok ((LinkEntry_end_ping now e)\<lparr>le_ping := Some now\<rparr>)"
    using entry_end_ping [of now e] by (simp add: entry_ok_def)
  then show ?thesis
    unfolding send_ping_def by (rule entry_send_short [OF _ short_messages(3)])
qed

lemma send_proto_loop_ok:
  "\<forall>e \<in> set es. entry_ok e \<Longrightarrow> length (serialize proto) \<le> OVERHEAD \<Longrightarrow>
   \<forall>e \<in> set (snd (send_proto_loop L proto es)). entry_ok e"
proof (induction es)
  case (Cons e es)
  obtain bad e' where u: "unusable L e = (bad, e')" by (cases "unusable L e")
  then have "entry_ok e'" using entry_unusable [of e] Cons.prems by simp
  from entry_send_short [OF this Cons.prems(2)] u Cons show ?case
    by (auto simp: Let_def split: prod.splits)
qed simp

lemma send_proto_ok:
  "links_ok lm \<Longrightarrow> length (serialize proto) \<le> OVERHEAD \<Longrightarrow> links_ok (snd (send_proto L proto lm))"
  using send_proto_loop_ok [of "lm_links lm" proto]
  by (simp add: links_ok_def send_proto_def case_prod_unfold Let_def)

lemma send_each_ok:
  "entry_ok e \<Longrightarrow> \<forall>p \<in> set ps. length (serialize p) \<le> li_max_size L (le_link e) \<Longrightarrow>
   entry_ok (snd (send_each L ps e))"
proof (induction ps arbitrary: e)
  case (Cons p ps)
  obtain r e' where s: "LinkEntry_send L e p = (r, e')" by (cases "LinkEntry_send L e p")
  with entry_send [of e p] Cons.prems
  have "entry_ok e'" "li_max_size L (le_link e') = li_max_size L (le_link e)" by auto
  with Cons s show ?case by (auto simp: Let_def split: sum.split)
qed simp

lemma send_slices_loop_ok:
  assumes "\<forall>e \<in> set es. entry_ok e" "send_slices_loop oc L sm es = Some (r, es')"
    "\<And>n ps. n < u32_bound \<Longrightarrow> get_slices oc sm n = Some ps \<Longrightarrow> \<forall>p \<in> set ps. length (serialize p) \<le> n + OVERHEAD"
  shows "\<forall>e \<in> set es'. entry_ok e"
  using assms(1,2)
proof (induction es)
  case (Cons e es)
  obtain bad e' where u: "unusable L e = (bad, e')" by (cases "unusable L e")
  then have ok: "entry_ok e'" using entry_unusable [of e] Cons.prems by simp
  show ?case
  proof (cases bad)
    case True
    then show ?thesis using Cons u by simp
  next
    case False
    then obtain ps where ps: "get_slices oc sm (LinkEntry_max_size L e') = Some ps"
      "es' = snd (send_each L ps e') # es"
      using Cons.prems(2) u by (auto split: bind_splits prod.splits)
    have "\<forall>p \<in> set ps. length (serialize p) \<le> li_max_size L (le_link e')"
      using assms(3) [OF _ ps(1)] ok size_u32 [of "le_link e'"] by (simp add: LinkEntry_max_size_def entry_ok_def)
    then show ?thesis
      using send_each_ok [OF ok] ps(2) Cons.prems(1) by simp
  qed
qed simp

lemma send_slices_ok:
  assumes "links_ok lm" "send_slices oc L sm lm = Some (r, lm')"
    "\<And>n ps. n < u32_bound \<Longrightarrow> get_slices oc sm n = Some ps \<Longrightarrow> \<forall>p \<in> set ps. length (serialize p) \<le> n + OVERHEAD"
  shows "links_ok lm'"
  using send_slices_loop_ok [of "lm_links lm" oc sm r "lm_links lm'"] assms
  by (auto simp: links_ok_def send_slices_def split: bind_splits)

lemma update_first_ok:
  "\<forall>e \<in> set es. entry_ok e \<Longrightarrow> (\<And>e. entry_ok e \<Longrightarrow> entry_ok (f e)) \<Longrightarrow>
   \<forall>e \<in> set (update_first link_id f es). entry_ok e"
  by (induction es) auto

lemma upkeep_loop_ok:
  "\<forall>e \<in> set es. entry_ok e \<Longrightarrow> \<forall>e \<in> set (upkeep_loop L es). entry_ok e"
proof (induction es)
  case (Cons e es)
  then show ?case
    using entry_closed [of e] by (simp add: Let_def case_prod_unfold)
qed simp

lemma reset_ok: "links_ok lm \<Longrightarrow> links_ok (snd (links_reset L epoch request lm))"
  unfolding links_reset_def by (rule send_proto_ok [OF _ short_messages(1)])

lemma ack_ok: "links_ok lm \<Longrightarrow> links_ok (snd (links_ack L epoch ack lm))"
  unfolding links_ack_def by (rule send_proto_ok [OF _ short_messages(2)])

lemma ping_all_ok: "links_ok lm \<Longrightarrow> links_ok (ping_all L now lm)"
  by (simp add: links_ok_def ping_all_def send_ping_ok)

lemma pong_ok: "links_ok lm \<Longrightarrow> links_ok (links_pong L link_id lm)"
  using update_first_ok [of "lm_links lm" "\<lambda>e. snd (send_pong L e)" link_id]
  by (simp add: links_ok_def links_pong_def send_pong_def entry_send_short [OF _ short_messages(4)])

lemma end_ping_ok: "links_ok lm \<Longrightarrow> links_ok (links_end_ping now link_id lm)"
  using update_first_ok [of "lm_links lm" "LinkEntry_end_ping now" link_id]
  by (simp add: links_ok_def links_end_ping_def)

lemma upkeep_ok: "links_ok lm \<Longrightarrow> links_ok (upkeep L lm)"
  by (simp add: links_ok_def upkeep_def upkeep_loop_ok)

lemma evict_ok: "links_ok lm \<Longrightarrow> links_ok (snd (evict_link link_id lm))"
  by (simp add: links_ok_def evict_link_def)

lemma add_link_ok: "links_ok lm \<Longrightarrow> entry_ok e \<Longrightarrow> links_ok (add_link e lm)"
  by (simp add: links_ok_def add_link_def)

lemmas manager_ok = reset_ok ack_ok ping_all_ok pong_ok end_ping_ok upkeep_ok evict_ok add_link_ok

end

text \<open>The slices of an outgoing message fit the size that they are cut to.\<close>

lemma get_slices_zero: "get_slices oc sm 0 = Some ps \<Longrightarrow> ps = []"
proof -
  have "get_slices_of oc sm 0 m = Some ps \<Longrightarrow> ps = []" for m ps
    by (induction m arbitrary: ps) (auto simp: make_slices_def split: bind_splits)
  then show "get_slices oc sm 0 = Some ps \<Longrightarrow> ps = []"
    by (simp add: get_slices_def)
qed

lemma slice_serialized:
  assumes "queued epoch q m k sm" "length m \<le> isize_max" "n < u32_bound" "get_slices oc sm n = Some ps"
  shows "\<forall>p \<in> set ps. length (serialize p) \<le> n + OVERHEAD"
proof (cases "n = 0")
  case True
  then show ?thesis
    using assms(4) get_slices_zero [of oc sm ps] by simp
next
  case False
  have sends: "sends_from sm k" "k < length (sm_data sm)" "length (sm_data sm) \<le> isize_max"
    using assms(1,2) by (auto simp: queued_def)
  obtain ps' where ps': "get_slices oc sm n = Some ps'"
    "slice_chain (to_int (sm_epoch sm)) (sm_seq sm) (sm_data sm) k ps' (length (sm_data sm))"
    "\<forall>p \<in> set ps'. length (slice_data p) \<le> n"
    using get_slices_chain [OF sends(1,2) _ assms(3) sends(3), of oc] False by blast
  show ?thesis
  proof
    fix p assume p: "p \<in> set ps"
    then obtain f d where "p = MsgSlice (to_int (sm_epoch sm)) (sm_seq sm) (length (sm_data sm)) f d"
      using slice_chain_slices [OF ps'(2), of p] assms(4) ps'(1) by auto
    moreover have "length (slice_data p) \<le> n"
      using ps'(1,3) assms(4) p by auto
    ultimately show "length (serialize p) \<le> n + OVERHEAD"
      by (simp add: length_serialize OVERHEAD_def)
  qed
qed

lemma send_slices_any:
  assumes "\<And>l. li_max_size L l < u32_bound" "sends_from sm k" "length (sm_data sm) \<le> isize_max"
  shows "send_slices oc L sm lm \<noteq> None"
proof -
  have max: "LinkEntry_max_size L e < u32_bound" for e
    using assms(1) [of "le_link e"] by (simp add: LinkEntry_max_size_def)
  have "send_slices_loop oc L sm es \<noteq> None" for es
  proof (induction es)
    case (Cons e es)
    obtain bad e' where u: "unusable L e = (bad, e')" by (cases "unusable L e")
    obtain ps where "get_slices oc sm (LinkEntry_max_size L e') = Some ps"
      using get_slices_any [OF assms(2,3) max, of oc e'] by auto
    with Cons u show ?case by (auto simp: case_prod_unfold Let_def)
  qed simp
  from this [of "lm_links lm"] show ?thesis
    by (auto simp: send_slices_def)
qed

lemma reader_task_serialized:
  "\<forall>p \<in> set ps. valid_proto p \<Longrightarrow>
   reader_task link_id (map (\<lambda>p. Inr (serialize p)) ps @ reads) = map (Pair link_id) ps @ reader_task link_id reads"
proof (induction ps)
  case (Cons p ps)
  then show ?case
    using deserialize_serialize [of p "[]"] by simp
qed simp

section \<open>Properties\<close>

text \<open>
  Sending a protocol message uses the first link that is neither closed nor too slow and
  discards the links before it; it fails with \<open>Closed\<close> exactly when there is no such link, and then
  no link is left.
\<close>

theorem send_proto_first_usable:
  "send_proto L proto lm =
     (case dropWhile (\<lambda>e. fst (unusable L e)) (lm_links lm) of
        [] \<Rightarrow> (Inl Closed, lm\<lparr>lm_links := []\<rparr>)
      | e # es \<Rightarrow> (let (r, e) = LinkEntry_send L (snd (unusable L e)) proto
                    in (r, lm\<lparr>lm_links := e # es\<rparr>)))"
proof -
  have "send_proto_loop L proto es =
     (case dropWhile (\<lambda>e. fst (unusable L e)) es of
        [] \<Rightarrow> (Inl Closed, [])
      | e # es \<Rightarrow> (let (r, e) = LinkEntry_send L (snd (unusable L e)) proto in (r, e # es)))" for es
    by (induction es) (simp_all add: case_prod_unfold Let_def)
  then show ?thesis
    by (cases "dropWhile (\<lambda>e. fst (unusable L e)) (lm_links lm)")
       (simp_all add: send_proto_def case_prod_unfold Let_def del: dropWhile_eq_Nil_conv)
qed

definition window_full :: "'l LinkEntry \<Rightarrow> bool" where
  "window_full e = (length (le_recent e) = HISTORY_LEN)"

text \<open>
  The latency of a link is the average of the last six samples: a pong puts the time since its
  ping in place of the oldest sample, and the window stays at six.
\<close>

lemma latency_window:
  assumes "window_full e" "le_ping e = Some sent" "sent + d = now"
  shows "window_full (LinkEntry_end_ping now e) \<and>
    le_recent (LinkEntry_end_ping now e) = d # butlast (le_recent e) \<and>
    LinkEntry_latency (LinkEntry_end_ping now e) = sum_list (d # butlast (le_recent e)) div HISTORY_LEN"
proof -
  have len: "length (le_recent e) = 6"
    using assms(1) by (simp add: window_full_def HISTORY_LEN_def)
  have "take 6 (d # le_recent e) = d # butlast (le_recent e)"
    by (simp add: butlast_conv_take len)
  then have "le_recent (LinkEntry_end_ping now e) = d # butlast (le_recent e)"
    using assms(2,3) by (auto simp: LinkEntry_end_ping_def add_latency_def HISTORY_LEN_def)
  then show ?thesis
    using len by (simp add: LinkEntry_latency_def window_full_def HISTORY_LEN_def)
qed

end
