(* ===== verification/Connectors.thy ===== *)
theory Connectors
  imports Addresses Deadlines "HOL-Library.AList"
begin

text \<open>
  \<^verbatim>\<open>src/src/connector_manager.rs\<close> and \<^verbatim>\<open>src/src/links/connector.rs\<close>: the addresses of a link set, the
  connectors that can reach them, and the tasks that try to connect.

  A connector is a value of any type; \<open>scheme\<close>, an argument of everything below, is its \<open>scheme()\<close>.
  A hash set of addresses is a list without repetition, a hash map of connectors an association
  list; both orders stand for the unspecified order of the Rust collections.
\<close>

section \<open>Addresses with retries\<close>

definition RETRIES_MAX :: u16 where "RETRIES_MAX = 10"

text \<open>\<open>ca_count\<close> is the number of available permits of the semaphore.\<close>

record ConnectorManagerAddress =
  ca_addr :: Address
  ca_repeat :: bool
  ca_count :: nat

type_synonym AddressSet = "ConnectorManagerAddress list"
type_synonym 'c ConnectorSet = "(rust_string \<times> 'c) list"

definition ConnectorManagerAddress_new :: "Address \<Rightarrow> ConnectorManagerAddress" where
  "ConnectorManagerAddress_new addr = \<lparr>ca_addr = addr, ca_repeat = False, ca_count = 0\<rparr>"

definition add_count :: "u16 \<Rightarrow> ConnectorManagerAddress \<Rightarrow> ConnectorManagerAddress" where
  "add_count n a =
     (let existing = ca_count a; room = RETRIES_MAX - existing
      in a\<lparr>ca_count := ca_count a + min n room\<rparr>)"

definition set_repeat :: "bool \<Rightarrow> ConnectorManagerAddress \<Rightarrow> ConnectorManagerAddress" where
  "set_repeat v a = a\<lparr>ca_repeat := v\<rparr>"

definition merge :: "ConnectorManagerAddress \<Rightarrow> ConnectorManagerAddress \<Rightarrow> ConnectorManagerAddress" where
  "merge a other =
     (let a = add_count (min (ca_count other) 65535) a
      in if ca_repeat other then set_repeat True a else a)"

text \<open>What the states do with \<open>AddAddress\<close> while no manager runs.\<close>

fun add_address :: "ConnectorManagerAddress \<Rightarrow> AddressSet \<Rightarrow> AddressSet" where
  "add_address a [] = [a]"
| "add_address a (b # bs) = (if ca_addr b = ca_addr a then merge b a # bs else b # add_address a bs)"

section \<open>Connection tasks\<close>

text \<open>
  Where the loop of a task is: waiting for a permit or the repeat flag, connecting (and whether it
  holds a permit), or in the pause after an attempt.
\<close>

datatype task_phase = Waiting | Connecting_with bool | Pausing

record 'c ConnectTask =
  ct_conn :: 'c
  ct_phase :: task_phase

definition create_task :: "'c \<Rightarrow> 'c ConnectTask" where
  "create_task conn = \<lparr>ct_conn = conn, ct_phase = Waiting\<rparr>"

text \<open>One turn of the loop; the link, if an attempt has made one, goes to the core as \<open>AddLink\<close>.\<close>

definition task_step ::
  "(LinkSetError + 'l) \<Rightarrow> ConnectorManagerAddress \<times> 'c ConnectTask \<Rightarrow>
   'l list \<times> (ConnectorManagerAddress \<times> 'c ConnectTask)" where
  "task_step connected at =
     (let (a, t) = at
      in case ct_phase t of
           Waiting \<Rightarrow>
             if ca_repeat a then ([], (a, t\<lparr>ct_phase := Connecting_with False\<rparr>))
             else if 0 < ca_count a
             then ([], (a\<lparr>ca_count := ca_count a - 1\<rparr>, t\<lparr>ct_phase := Connecting_with True\<rparr>))
             else ([], (a, t))
         | Connecting_with permit \<Rightarrow>
             (case connected of Inr link \<Rightarrow> [link] | Inl _ \<Rightarrow> [], (a, t\<lparr>ct_phase := Pausing\<rparr>))
         | Pausing \<Rightarrow> ([], (a, t\<lparr>ct_phase := Waiting\<rparr>)))"

definition is_attempt :: "'c ConnectTask \<Rightarrow> nat" where
  "is_attempt t = (case ct_phase t of Connecting_with _ \<Rightarrow> 1 | _ \<Rightarrow> 0)"

fun task_turns ::
  "(LinkSetError + 'l) list \<Rightarrow> ConnectorManagerAddress \<times> 'c ConnectTask \<Rightarrow>
   nat \<times> (ConnectorManagerAddress \<times> 'c ConnectTask)" where
  "task_turns [] at = (0, at)"
| "task_turns (r # rs) at =
     (let (n, at') = task_turns rs (snd (task_step r at)) in (is_attempt (snd at) + n, at'))"

text \<open>Aborting a task drops the permit it holds, which returns it to the semaphore.\<close>

definition abort_task :: "ConnectorManagerAddress \<Rightarrow> 'c ConnectTask option \<Rightarrow> ConnectorManagerAddress" where
  "abort_task a handle =
     (case handle of
        Some t \<Rightarrow> if ct_phase t = Connecting_with True then a\<lparr>ca_count := ca_count a + 1\<rparr> else a
      | None \<Rightarrow> a)"

section \<open>The connector manager\<close>

record 'c ConnectorManager =
  cg_conns :: "'c ConnectorSet"
  cg_handles :: "(ConnectorManagerAddress \<times> 'c ConnectTask option) list"

definition addr_scheme :: "ConnectorManagerAddress \<Rightarrow> rust_string" where
  "addr_scheme a = ad_scheme (ca_addr a)"

definition start_handle :: "'c ConnectorSet \<Rightarrow> ConnectorManagerAddress \<Rightarrow> ConnectorManagerAddress \<times> 'c ConnectTask option" where
  "start_handle conns a = (a, map_option create_task (map_of conns (addr_scheme a)))"

definition ConnectorManager_start :: "AddressSet \<Rightarrow> 'c ConnectorSet \<Rightarrow> 'c ConnectorManager" where
  "ConnectorManager_start addrs conns = \<lparr>cg_conns = conns, cg_handles = map (start_handle conns) addrs\<rparr>"

fun add_addr_handles ::
  "'c ConnectorSet \<Rightarrow> ConnectorManagerAddress \<Rightarrow> (ConnectorManagerAddress \<times> 'c ConnectTask option) list \<Rightarrow>
   (ConnectorManagerAddress \<times> 'c ConnectTask option) list" where
  "add_addr_handles conns a [] = [start_handle conns a]"
| "add_addr_handles conns a ((b, handle) # hs) =
     (if ca_addr b = ca_addr a then (merge b a, handle) # hs
      else (b, handle) # add_addr_handles conns a hs)"

definition ConnectorManager_add_addr :: "ConnectorManagerAddress \<Rightarrow> 'c ConnectorManager \<Rightarrow> 'c ConnectorManager" where
  "ConnectorManager_add_addr a cm = cm\<lparr>cg_handles := add_addr_handles (cg_conns cm) a (cg_handles cm)\<rparr>"

text \<open>\<open>None\<close> is the failing \<open>debug_assert!\<close> of the second branch.\<close>

definition ConnectorManager_add_connector ::
  "('c \<Rightarrow> rust_string) \<Rightarrow> 'c \<Rightarrow> 'c ConnectorManager \<Rightarrow> 'c ConnectorManager option" where
  "ConnectorManager_add_connector scheme conn cm =
     (let same = (\<lambda>a. addr_scheme a = scheme conn)
      in do {
        handles \<leftarrow>
          (if map_of (cg_conns cm) (scheme conn) \<noteq> None
           then Some (map (\<lambda>(a, handle).
                  if same a then (abort_task a handle, Some (create_task conn)) else (a, handle)) (cg_handles cm))
           else if list_ex (\<lambda>(a, handle). same a \<and> handle \<noteq> None) (cg_handles cm) then None
           else Some (map (\<lambda>(a, handle).
                  if same a then (a, Some (create_task conn)) else (a, handle)) (cg_handles cm)));
        Some (cm\<lparr>cg_handles := handles, cg_conns := AList.update (scheme conn) conn (cg_conns cm)\<rparr>) })"

definition ConnectorManager_cancel :: "'c ConnectorManager \<Rightarrow> 'c ConnectorSet \<times> AddressSet" where
  "ConnectorManager_cancel cm =
     (cg_conns cm, map (\<lambda>(a, handle). abort_task a handle) (cg_handles cm))"

definition debug_request_snapshot ::
  "('c \<Rightarrow> rust_string) \<Rightarrow> 'c ConnectorManager \<Rightarrow> Address list \<times> rust_string list" where
  "debug_request_snapshot scheme cm =
     (map (\<lambda>(a, _). ca_addr a) (cg_handles cm), map (\<lambda>(_, c). scheme c) (cg_conns cm))"

text \<open>A turn of the task of the \<open>n\<close>th address.\<close>

definition ConnectorManager_turn ::
  "nat \<Rightarrow> (LinkSetError + 'l) \<Rightarrow> 'c ConnectorManager \<Rightarrow> 'l list \<times> 'c ConnectorManager" where
  "ConnectorManager_turn n connected cm =
     (if n < length (cg_handles cm)
      then case cg_handles cm ! n of
             (a, Some t) \<Rightarrow>
               (let (links, (a, t)) = task_step connected (a, t)
                in (links, cm\<lparr>cg_handles := (cg_handles cm)[n := (a, Some t)]\<rparr>))
           | (a, None) \<Rightarrow> ([], cm)
      else ([], cm))"

section \<open>Invariant\<close>

text \<open>
  Addresses are distinct, and a task runs for exactly the addresses whose scheme has a connector,
  with that connector.
\<close>

definition tasks_current :: "'c ConnectorManager \<Rightarrow> bool" where
  "tasks_current cm =
     (distinct (map (\<lambda>(a, _). ca_addr a) (cg_handles cm)) \<and>
      (\<forall>(a, handle) \<in> set (cg_handles cm). map_option ct_conn handle = map_of (cg_conns cm) (addr_scheme a)))"

definition distinct_addrs :: "AddressSet \<Rightarrow> bool" where
  "distinct_addrs addrs = distinct (map ca_addr addrs)"

lemma merge_addr [simp]: "ca_addr (merge a b) = ca_addr a"
  by (simp add: merge_def add_count_def set_repeat_def Let_def)

lemma addr_scheme_merge [simp]: "addr_scheme (merge a b) = addr_scheme a"
  by (simp add: addr_scheme_def)

lemma abort_task_addr [simp]: "ca_addr (abort_task a h) = ca_addr a"
  by (simp add: abort_task_def split: option.split)

lemma addr_scheme_abort [simp]: "addr_scheme (abort_task a h) = addr_scheme a"
  by (simp add: addr_scheme_def)

lemma add_address_addrs:
  "ca_addr ` set (add_address a addrs) = insert (ca_addr a) (ca_addr ` set addrs)"
  by (induction addrs) auto

lemma distinct_add_address: "distinct_addrs addrs \<Longrightarrow> distinct_addrs (add_address a addrs)"
proof (induction addrs)
  case (Cons b addrs)
  have "ca_addr ` set (add_address a addrs) = insert (ca_addr a) (ca_addr ` set addrs)"
    by (rule add_address_addrs)
  with Cons show ?case by (auto simp: distinct_addrs_def)
qed (simp add: distinct_addrs_def)

lemma tasks_current_start: "distinct_addrs addrs \<Longrightarrow> tasks_current (ConnectorManager_start addrs conns)"
  by (auto simp: tasks_current_def distinct_addrs_def ConnectorManager_start_def start_handle_def comp_def
      create_task_def option.map_comp option.map_ident)

lemma add_addr_handles_addrs:
  "set (map (\<lambda>(a, _). ca_addr a) (add_addr_handles conns a hs)) =
     insert (ca_addr a) (set (map (\<lambda>(a, _). ca_addr a) hs))"
  by (induction conns a hs rule: add_addr_handles.induct) (auto simp: start_handle_def)

lemma distinct_add_addr_handles:
  "distinct (map (\<lambda>(a, _). ca_addr a) hs) \<Longrightarrow>
   distinct (map (\<lambda>(a, _). ca_addr a) (add_addr_handles conns a hs))"
proof (induction conns a hs rule: add_addr_handles.induct)
  case (2 conns a b handle hs)
  have "set (map (\<lambda>(a, _). ca_addr a) (add_addr_handles conns a hs)) =
      insert (ca_addr a) (set (map (\<lambda>(a, _). ca_addr a) hs))"
    by (rule add_addr_handles_addrs)
  with 2 show ?case by auto
qed (simp add: start_handle_def)

lemma current_add_addr_handles:
  "\<forall>(a, handle) \<in> set hs. map_option ct_conn handle = map_of conns (addr_scheme a) \<Longrightarrow>
   \<forall>(a, handle) \<in> set (add_addr_handles conns a hs).
     map_option ct_conn handle = map_of conns (addr_scheme a)"
  by (induction conns a hs rule: add_addr_handles.induct)
     (auto simp: start_handle_def create_task_def option.map_comp comp_def option.map_ident)

lemma tasks_current_add_addr:
  assumes "tasks_current cm"
  shows "tasks_current (ConnectorManager_add_addr a cm)"
  using assms distinct_add_addr_handles [of "cg_handles cm" "cg_conns cm" a]
    current_add_addr_handles [of "cg_handles cm" "cg_conns cm" a]
  unfolding tasks_current_def ConnectorManager_add_addr_def by simp

lemma tasks_current_add_connector:
  assumes "tasks_current cm"
  obtains cm' where "ConnectorManager_add_connector scheme conn cm = Some cm'" "tasks_current cm'"
    "cg_conns cm' = AList.update (scheme conn) conn (cg_conns cm)"
proof -
  let ?k = "scheme conn"
  let ?hs = "if map_of (cg_conns cm) ?k \<noteq> None
    then map (\<lambda>(a, h). if addr_scheme a = ?k then (abort_task a h, Some (create_task conn)) else (a, h)) (cg_handles cm)
    else map (\<lambda>(a, h). if addr_scheme a = ?k then (a, Some (create_task conn)) else (a, h)) (cg_handles cm)"
  let ?cm = "cm\<lparr>cg_handles := ?hs, cg_conns := AList.update ?k conn (cg_conns cm)\<rparr>"
  have current: "\<forall>(a, h) \<in> set (cg_handles cm). map_option ct_conn h = map_of (cg_conns cm) (addr_scheme a)"
    using assms by (simp add: tasks_current_def)
  have "\<not> list_ex (\<lambda>(a, h). addr_scheme a = ?k \<and> h \<noteq> None) (cg_handles cm)"
    if "map_of (cg_conns cm) ?k = None"
    using current that by (force simp: list_ex_iff)
  then have "ConnectorManager_add_connector scheme conn cm = Some ?cm"
    by (simp add: ConnectorManager_add_connector_def Let_def)
  moreover have "map (\<lambda>(a, _). ca_addr a) ?hs = map (\<lambda>(a, _). ca_addr a) (cg_handles cm)"
    by (auto simp: case_prod_unfold)
  moreover have "\<forall>(a, h) \<in> set ?hs. map_option ct_conn h = map_of (cg_conns ?cm) (addr_scheme a)"
    using current by (auto simp: update_conv' create_task_def split: if_splits)
  ultimately show thesis
    using that [of ?cm] assms by (simp add: tasks_current_def)
qed

lemma distinct_cancel: "tasks_current cm \<Longrightarrow> distinct_addrs (snd (ConnectorManager_cancel cm))"
  by (simp add: tasks_current_def distinct_addrs_def ConnectorManager_cancel_def comp_def case_prod_unfold)

lemma task_step_keeps:
  "task_step r (a, t) = (links, (a', t')) \<Longrightarrow> ca_addr a' = ca_addr a \<and> ct_conn t' = ct_conn t"
  by (auto simp: task_step_def Let_def split: task_phase.splits if_splits)

lemma tasks_current_turn:
  assumes "tasks_current cm"
  shows "tasks_current (snd (ConnectorManager_turn n r cm))"
proof (cases "n < length (cg_handles cm)")
  case True
  obtain a h where nth: "cg_handles cm ! n = (a, h)" by (cases "cg_handles cm ! n")
  show ?thesis
  proof (cases h)
    case None
    then show ?thesis using True nth assms by (simp add: ConnectorManager_turn_def)
  next
    case (Some t)
    obtain links a' t' where step: "task_step r (a, t) = (links, (a', t'))"
      by (cases "task_step r (a, t)") auto
    note keeps = task_step_keeps [OF step]
    have cur: "map_option ct_conn h = map_of (cg_conns cm) (addr_scheme a)"
      using assms True nth nth_mem [OF True] by (force simp: tasks_current_def)
    have "map (\<lambda>(a, _). ca_addr a) ((cg_handles cm)[n := (a', Some t')]) = map (\<lambda>(a, _). ca_addr a) (cg_handles cm)"
      using True nth keeps by (simp add: map_update list_update_same_conv)
    moreover have "\<forall>(a, h) \<in> set ((cg_handles cm)[n := (a', Some t')]).
        map_option ct_conn h = map_of (cg_conns cm) (addr_scheme a)"
      using assms cur keeps Some set_update_subset_insert [of "cg_handles cm" n "(a', Some t')"]
      by (fastforce simp: tasks_current_def addr_scheme_def)
    ultimately show ?thesis
      using True nth Some step assms by (simp add: ConnectorManager_turn_def tasks_current_def)
  qed
qed (use assms in \<open>simp add: ConnectorManager_turn_def\<close>)

section \<open>Retries\<close>

definition held :: "'c ConnectTask option \<Rightarrow> nat" where
  "held h = (case h of Some t \<Rightarrow> if ct_phase t = Connecting_with True then 1 else 0 | None \<Rightarrow> 0)"

definition retries_bounded :: "'c ConnectorManager \<Rightarrow> bool" where
  "retries_bounded cm = (\<forall>(a, h) \<in> set (cg_handles cm). ca_count a + held h \<le> RETRIES_MAX + 1)"

lemma held_simps [simp]: "held None = 0" "held (Some (create_task c)) = 0"
  by (simp_all add: held_def create_task_def)

lemma held_le: "held h \<le> 1"
  by (simp add: held_def split: option.split)

lemma abort_count: "ca_count (abort_task a h) = ca_count a + held h"
  by (simp add: abort_task_def held_def split: option.split)

lemma merge_count: "ca_count a + held h \<le> RETRIES_MAX + 1 \<Longrightarrow> ca_count (merge a b) + held h \<le> RETRIES_MAX + 1"
  using held_le [of h] by (auto simp: merge_def add_count_def set_repeat_def Let_def)

lemma task_step_permits:
  assumes "task_step r (a, t) = (links, (a', t'))"
  shows "ca_count a' + held (Some t') \<le> ca_count a + held (Some t)"
  using assms by (auto simp: task_step_def held_def Let_def split: task_phase.splits if_splits)

text \<open>Everything that happens to a running manager.\<close>

inductive manager_step :: "('c \<Rightarrow> rust_string) \<Rightarrow> 'c ConnectorManager \<Rightarrow> 'c ConnectorManager \<Rightarrow> bool"
  for scheme where
  step_addr: "ca_count a \<le> RETRIES_MAX + 1 \<Longrightarrow> manager_step scheme cm (ConnectorManager_add_addr a cm)"
| step_connector: "ConnectorManager_add_connector scheme conn cm = Some cm' \<Longrightarrow> manager_step scheme cm cm'"
| step_turn: "manager_step scheme cm (snd (ConnectorManager_turn n (connected :: LinkSetError + unit) cm))"

definition manager_initial :: "'c ConnectorManager \<Rightarrow> bool" where
  "manager_initial cm =
     (\<exists>addrs conns. cm = ConnectorManager_start addrs conns \<and> distinct_addrs addrs \<and>
        (\<forall>a \<in> set addrs. ca_count a \<le> RETRIES_MAX + 1))"

lemma retries_add_addr:
  assumes "\<forall>(a, h) \<in> set hs. ca_count a + held h \<le> RETRIES_MAX + 1" "ca_count a \<le> RETRIES_MAX + 1"
  shows "\<forall>(a, h) \<in> set (add_addr_handles conns a hs). ca_count a + held h \<le> RETRIES_MAX + 1"
  using assms
proof (induction conns a hs rule: add_addr_handles.induct)
  case (1 conns a)
  then show ?case by (cases "map_of conns (addr_scheme a)") (simp_all add: start_handle_def)
next
  case (2 conns a b h hs)
  then show ?case using merge_count [of b h a] by auto
qed

lemma retries_add_connector:
  assumes "retries_bounded cm" "ConnectorManager_add_connector scheme conn cm = Some cm'"
  shows "retries_bounded cm'"
  using assms
  by (fastforce simp: retries_bounded_def ConnectorManager_add_connector_def Let_def abort_count
      split: if_splits bind_splits)

lemma retries_turn:
  assumes "retries_bounded cm"
  shows "retries_bounded (snd (ConnectorManager_turn n r cm))"
proof (cases "n < length (cg_handles cm) \<and> snd (cg_handles cm ! n) \<noteq> None")
  case True
  then obtain a t where nth: "cg_handles cm ! n = (a, Some t)" and n: "n < length (cg_handles cm)"
    by (cases "cg_handles cm ! n") auto
  obtain links a' t' where step: "task_step r (a, t) = (links, (a', t'))"
    by (cases "task_step r (a, t)") auto
  have "ca_count a + held (Some t) \<le> RETRIES_MAX + 1"
    using assms nth nth_mem [OF n] by (force simp: retries_bounded_def)
  then have "ca_count a' + held (Some t') \<le> RETRIES_MAX + 1"
    using task_step_permits [OF step] by simp
  then show ?thesis
    using assms nth n step set_update_subset_insert [of "cg_handles cm" n "(a', Some t')"]
    by (fastforce simp: ConnectorManager_turn_def retries_bounded_def)
qed (use assms in \<open>auto simp: ConnectorManager_turn_def split: prod.splits option.splits\<close>)

interpretation mgr: machine_invariant manager_initial "manager_step scheme"
  "\<lambda>cm. tasks_current cm \<and> retries_bounded cm"
proof unfold_locales
  fix cm :: "'a ConnectorManager" assume "manager_initial cm"
  then obtain addrs conns where cm: "cm = ConnectorManager_start addrs conns" "distinct_addrs addrs"
    "\<forall>a \<in> set addrs. ca_count a \<le> RETRIES_MAX + 1"
    by (auto simp: manager_initial_def)
  moreover have "held (map_option create_task h) = 0" for h :: "'a option"
    by (cases h) simp_all
  ultimately show "tasks_current cm \<and> retries_bounded cm"
    using tasks_current_start by (auto simp: retries_bounded_def ConnectorManager_start_def start_handle_def)
next
  fix cm cm' :: "'a ConnectorManager"
  assume inv: "tasks_current cm \<and> retries_bounded cm" and "manager_step scheme cm cm'"
  from this(2) show "tasks_current cm' \<and> retries_bounded cm'"
  proof cases
    case (step_addr a)
    with inv retries_add_addr [of "cg_handles cm" a "cg_conns cm"] show ?thesis
      by (simp add: tasks_current_add_addr) (simp add: retries_bounded_def ConnectorManager_add_addr_def)
  next
    case (step_connector conn)
    with inv tasks_current_add_connector [of cm scheme conn] retries_add_connector [of cm scheme conn cm']
    show ?thesis by force
  next
    case (step_turn n connected)
    with inv tasks_current_turn retries_turn show ?thesis by blast
  qed
qed

definition example_manager :: "bool ConnectorManager" where
  "example_manager = ConnectorManager_start
     [add_count 10 (ConnectorManagerAddress_new (Address_new [116] (AddrString [])))] [([116], False)]"

lemmas example_eval = example_manager_def ConnectorManager_start_def start_handle_def addr_scheme_def
  add_count_def ConnectorManagerAddress_new_def Address_new_def RETRIES_MAX_def create_task_def
  ConnectorManager_turn_def task_step_def Let_def

lemma example_manager_initial: "manager_initial example_manager"
  unfolding manager_initial_def example_manager_def
  by (intro exI conjI) (rule refl, simp_all add: distinct_addrs_def example_eval)

lemma example_reaches:
  "reaches (manager_step (\<lambda>_. [116])) example_manager (snd (ConnectorManager_turn 0 (Inr ()) example_manager))"
  by (rule reaches_step, rule reaches_refl, rule step_turn)

section \<open>Properties\<close>

text \<open>
  C31: while a connector manager runs, whatever addresses and connectors are added and however its
  tasks proceed, there is exactly one task for every address whose scheme has a connector, it uses
  the current connector of the scheme, and the \<open>debug_assert!\<close> in \<open>add_connector\<close> never fails.
\<close>

theorem one_current_task_per_address:
  assumes "manager_initial cm" "reaches (manager_step scheme) cm cm'"
  shows "tasks_current cm' \<and> ConnectorManager_add_connector scheme conn cm' \<noteq> None"
proof -
  have "tasks_current cm'"
    using mgr.inv_reachable [OF assms] by simp
  with tasks_current_add_connector [of cm' scheme conn] show ?thesis by auto
qed

lemma one_current_task_per_address_witness:
  "tasks_current (snd (ConnectorManager_turn 0 (Inr ()) example_manager)) \<and>
    ConnectorManager_add_connector (\<lambda>_. [116]) True (snd (ConnectorManager_turn 0 (Inr ()) example_manager)) \<noteq> None"
  by (rule one_current_task_per_address [OF example_manager_initial example_reaches])

text \<open>
  C33: an address never has more than one permit above the limit: the permits it has and the one its
  task holds are at most \<open>RETRIES_MAX + 1\<close>.
\<close>

theorem retries_stay_bounded:
  assumes "manager_initial cm" "reaches (manager_step scheme) cm cm'" "(a, h) \<in> set (cg_handles cm')"
  shows "ca_count a + held h \<le> RETRIES_MAX + 1"
  using mgr.inv_reachable [OF assms(1,2)] assms(3) by (auto simp: retries_bounded_def)

lemma retries_stay_bounded_witness:
  "ca_count \<lparr>ca_addr = Address_new [116] (AddrString []), ca_repeat = False, ca_count = 9\<rparr> +
     held (Some \<lparr>ct_conn = False, ct_phase = Connecting_with True\<rparr>) \<le> RETRIES_MAX + 1"
proof (rule retries_stay_bounded [OF example_manager_initial example_reaches])
  show "(\<lparr>ca_addr = Address_new [116] (AddrString []), ca_repeat = False, ca_count = 9\<rparr>,
      Some \<lparr>ct_conn = False, ct_phase = Connecting_with True\<rparr>)
    \<in> set (cg_handles (snd (ConnectorManager_turn 0 (Inr ()) example_manager)))"
    by (simp add: example_eval)
qed

text \<open>
  The limit of ten retries is exceeded: while the task of an address holds one of its ten
  permits, another is granted, and cancelling the manager returns the eleventh.
\<close>

lemma retries_limit_exceeded:
  "map ca_count (snd (ConnectorManager_cancel
     (ConnectorManager_add_addr
       (add_count 1 (ConnectorManagerAddress_new (Address_new [116] (AddrString []))))
       (snd (ConnectorManager_turn 0 (Inr ()) example_manager))))) = [RETRIES_MAX + 1]"
  by (simp add: example_eval ConnectorManager_cancel_def ConnectorManager_add_addr_def
      ConnectorManagerAddress_new_def abort_task_def merge_def set_repeat_def)

text \<open>
  Without the repeat flag a task attempts exactly one connection per permit: the permits that
  are left and the attempts that were made add up to the permits there were.
\<close>

theorem one_attempt_per_permit:
  assumes "\<not> ca_repeat a" "ct_phase t \<noteq> Connecting_with False"
    "task_turns results (a, t) = (attempts, (a', t'))"
  shows "attempts + ca_count a' + held (Some t') = ca_count a + held (Some t)"
  using assms
proof (induction results arbitrary: a t attempts)
  case (Cons r results)
  obtain links b u where step: "task_step r (a, t) = (links, (b, u))"
    by (cases "task_step r (a, t)") auto
  obtain n c v where turns: "task_turns results (b, u) = (n, (c, v))"
    by (cases "task_turns results (b, u)") auto
  have "\<not> ca_repeat b" "ct_phase u \<noteq> Connecting_with False"
    "is_attempt t + ca_count b + held (Some u) = ca_count a + held (Some t)"
    using Cons.prems(1,2) step
    by (auto simp: task_step_def held_def is_attempt_def Let_def split: task_phase.splits if_splits)
  with Cons.IH [of b u n] Cons.prems(3) step turns show ?case
    by auto
qed simp

lemma one_attempt_per_permit_witness:
  "1 + ca_count (add_count 1 (ConnectorManagerAddress_new (Address_new [116] (AddrString [])))) +
      held (Some \<lparr>ct_conn = (), ct_phase = Waiting\<rparr>) =
    ca_count (add_count 2 (ConnectorManagerAddress_new (Address_new [116] (AddrString [])))) +
      held (Some (create_task ()))"
  by (rule one_attempt_per_permit [where results = "[Inl Closed, Inl Closed, Inr ()]"])
     (simp_all add: example_eval is_attempt_def)

end
