(* ===== verification/States.thy ===== *)
theory States
  imports Links Connectors
begin

text \<open>
  \<^verbatim>\<open>src/src/state\<close>: the six states of a link set, their handlers and the transitions between them.

  \<open>'l\<close> is the type of links and \<open>'c\<close> the type of connectors. The environment of a handler is the
  implementation of the links, the scheme of a connector, the current instant, and whether overflow
  checks are on. A handler returns the next state and the common state; \<open>None\<close> is a panic. What a
  handler sends to the user is appended to \<open>cs_to_ctrl\<close>; that the user may have dropped the receiver
  is ignored, as in the code. Logging is left out.
\<close>

section \<open>Commands and messages\<close>

datatype ('l, 'c) LinkSetControlCommand =
    CmdConnect
  | CmdDisconnect
  | CmdAddConnector 'c
  | CmdAddAddress ConnectorManagerAddress
  | CmdAddLink 'l
  | CmdMessage bytes "Epoch option"

datatype LinkSetControlConfig =
    AutoConnect bool
  | ConnectTimeout "Duration option"
  | ReconnectTimeout "Duration option"
  | GracePeriodTimeout "Duration option"

datatype ('l, 'c) LinkSetControl =
    Command "('l, 'c) LinkSetControlCommand"
  | Config LinkSetControlConfig

datatype LinkSetMessageInner =
    InnerDisconnected
  | InnerConnected Epoch
  | InnerAttemptingConnection bool
  | InnerMessage bytes Epoch

record LinkDescription =
  ld_id :: u64
  ld_scheme :: rust_string

record DebugReplySnapshot =
  ds_state_name :: string
  ds_epoch :: "Epoch option"
  ds_addrs :: "Address list"
  ds_connectors :: "rust_string list"
  ds_links :: "LinkDescription list"

datatype DebugCommand = Snapshot | EvictLink u64

datatype DebugReply = ReplySnapshot DebugReplySnapshot | ReplyEvict bool

section \<open>The common state\<close>

record ('l, 'c) env =
  en_oc :: bool
  en_link :: "'l Link"
  en_scheme :: "'c \<Rightarrow> rust_string"
  en_now :: Instant

record CommonState =
  cs_to_ctrl :: "LinkSetMessageInner list"
  cs_next_link_id :: u64
  cs_readers :: "u64 list"
  cs_is_active :: bool
  cs_timer :: Deadline
  cs_auto_connect :: bool
  cs_connecting_timeout :: "Duration option"
  cs_reconnecting_timeout :: "Duration option"
  cs_grace_period_timeout :: "Duration option"

definition CommonState_new :: CommonState where
  "CommonState_new =
     \<lparr>cs_to_ctrl = [], cs_next_link_id = 0, cs_readers = [], cs_is_active = False, cs_timer = Deadline_new,
      cs_auto_connect = True, cs_connecting_timeout = Some (from_secs 60),
      cs_reconnecting_timeout = Some 0, cs_grace_period_timeout = Some 0\<rparr>"

definition to_ctrl :: "LinkSetMessageInner \<Rightarrow> CommonState \<Rightarrow> CommonState" where
  "to_ctrl msg common = common\<lparr>cs_to_ctrl := cs_to_ctrl common @ [msg]\<rparr>"

definition on_timer :: "(Deadline \<Rightarrow> Deadline) \<Rightarrow> CommonState \<Rightarrow> CommonState" where
  "on_timer f common = common\<lparr>cs_timer := f (cs_timer common)\<rparr>"

definition set_active :: "bool \<Rightarrow> CommonState \<Rightarrow> CommonState" where
  "set_active b common = common\<lparr>cs_is_active := b\<rparr>"

definition wrap_link ::
  "('l, 'c) env \<Rightarrow> 'l \<Rightarrow> CommonState \<Rightarrow> ('l LinkEntry LinkSetResult \<times> CommonState) option" where
  "wrap_link env link common =
     do { let link_id = cs_next_link_id common;
          next_link_id \<leftarrow> add_u64 (en_oc env) (cs_next_link_id common) 1;
          let common = common\<lparr>cs_next_link_id := next_link_id\<rparr>;
          if li_max_size (en_link env) link \<le> OVERHEAD
          then Some (Inl (Implementation (li_max_size (en_link env) link) OVERHEAD), common)
          else do {
            let (reader, wrapped) = LinkEntry_take_reader (en_link env) (LinkEntry_new link link_id);
            Some (case reader of
                    Inl e \<Rightarrow> (Inl e, common)
                  | Inr _ \<Rightarrow> (Inr wrapped, common\<lparr>cs_readers := cs_readers common @ [link_id]\<rparr>)) } }"

section \<open>The states\<close>

record 'c Disconnected =
  dc_conns :: "'c ConnectorSet"
  dc_addrs :: AddressSet
  dc_epoch :: "Epoch option"

record 'c Connecting =
  cn_connector :: "'c ConnectorManager"
  cn_queued_msgs :: "bytes list"
  cn_epoch :: "Epoch option"

record ('l, 'c) EpochMismatch =
  em_conns :: "'c ConnectorSet"
  em_addrs :: AddressSet
  em_links :: "'l LinkManager"
  em_queued_msgs :: "bytes list"
  em_epoch :: "Epoch option"
  em_last_ping :: Instant

record ('l, 'c) Connected =
  cd_conns :: "'c ConnectorSet"
  cd_addrs :: AddressSet
  cd_links :: "'l LinkManager"
  cd_msg_mgr :: MessageManager
  cd_epoch :: Epoch
  cd_last_ping :: Instant

record 'c Reconnecting =
  rc_msg_mgr :: MessageManager
  rc_epoch :: Epoch
  rc_connector :: "'c ConnectorManager"

record 'c GracePeriod =
  gp_conns :: "'c ConnectorSet"
  gp_addrs :: AddressSet
  gp_msg_mgr :: MessageManager
  gp_epoch :: Epoch

datatype ('l, 'c) States =
    S_Disconnected "'c Disconnected"
  | S_Connecting "'c Connecting"
  | S_EpochMismatch "('l, 'c) EpochMismatch"
  | S_Connected "('l, 'c) Connected"
  | S_Reconnecting "'c Reconnecting"
  | S_GracePeriod "'c GracePeriod"

fun get_name :: "('l, 'c) States \<Rightarrow> string" where
  "get_name (S_Disconnected _) = ''Disconnected''"
| "get_name (S_Connecting _) = ''Connecting''"
| "get_name (S_EpochMismatch _) = ''EpochMismatch''"
| "get_name (S_Connected _) = ''Connected''"
| "get_name (S_Reconnecting _) = ''Reconnecting''"
| "get_name (S_GracePeriod _) = ''GracePeriod''"

definition Disconnected_new :: "'c Disconnected" where
  "Disconnected_new = \<lparr>dc_conns = [], dc_addrs = [], dc_epoch = None\<rparr>"

definition States_new :: "('l, 'c) States" where
  "States_new = S_Disconnected Disconnected_new"

type_synonym ('l, 'c) outcome = "(('l, 'c) States \<times> CommonState) option"

section \<open>Transitions to Disconnected\<close>

definition Disconnected_from_Connecting ::
  "'c Connecting \<Rightarrow> CommonState \<Rightarrow> ('l, 'c) States \<times> CommonState" where
  "Disconnected_from_Connecting s common =
     (let (conns, addrs) = ConnectorManager_cancel (cn_connector s);
          common = on_timer Deadline_clear common;
          common = to_ctrl (InnerAttemptingConnection False) common
      in (S_Disconnected \<lparr>dc_conns = conns, dc_addrs = addrs, dc_epoch = cn_epoch s\<rparr>, common))"

definition Disconnected_from_EpochMismatch ::
  "('l, 'c) EpochMismatch \<Rightarrow> CommonState \<Rightarrow> ('l, 'c) States \<times> CommonState" where
  "Disconnected_from_EpochMismatch s common =
     (S_Disconnected \<lparr>dc_conns = em_conns s, dc_addrs = em_addrs s, dc_epoch = opt_epoch_increment (em_epoch s)\<rparr>,
      on_timer Deadline_clear common)"

definition Disconnected_from_Connected ::
  "('l, 'c) Connected \<Rightarrow> CommonState \<Rightarrow> ('l, 'c) States \<times> CommonState" where
  "Disconnected_from_Connected s common =
     (let common = to_ctrl InnerDisconnected common;
          common = on_timer Deadline_clear common;
          common = set_active False common
      in (S_Disconnected \<lparr>dc_conns = cd_conns s, dc_addrs = cd_addrs s, dc_epoch = Some (increment (cd_epoch s))\<rparr>,
          common))"

definition Disconnected_from_Reconnecting ::
  "'c Reconnecting \<Rightarrow> CommonState \<Rightarrow> ('l, 'c) States \<times> CommonState" where
  "Disconnected_from_Reconnecting s common =
     (let (conns, addrs) = ConnectorManager_cancel (rc_connector s);
          common = to_ctrl (InnerAttemptingConnection False) common;
          common = to_ctrl InnerDisconnected common;
          common = on_timer Deadline_clear common
      in (S_Disconnected \<lparr>dc_conns = conns, dc_addrs = addrs, dc_epoch = Some (increment (rc_epoch s))\<rparr>, common))"

definition Disconnected_from_GracePeriod ::
  "'c GracePeriod \<Rightarrow> CommonState \<Rightarrow> ('l, 'c) States \<times> CommonState" where
  "Disconnected_from_GracePeriod s common =
     (let common = on_timer Deadline_clear common;
          common = to_ctrl InnerDisconnected common
      in (S_Disconnected \<lparr>dc_conns = gp_conns s, dc_addrs = gp_addrs s, dc_epoch = Some (increment (gp_epoch s))\<rparr>,
          common))"

section \<open>Transitions to Connecting\<close>

definition determine_timer :: "Instant \<Rightarrow> CommonState \<Rightarrow> CommonState" where
  "determine_timer now common =
     (case cs_connecting_timeout common of
        Some timeout \<Rightarrow> on_timer (modify_deadline_from_now now timeout) (on_timer clear_repeat common)
      | None \<Rightarrow> on_timer Deadline_clear common)"

definition Connecting_from_Disconnected ::
  "('l, 'c) env \<Rightarrow> 'c Disconnected \<Rightarrow> CommonState \<Rightarrow> ('l, 'c) States \<times> CommonState" where
  "Connecting_from_Disconnected env s common =
     (let common = to_ctrl (InnerAttemptingConnection True) common;
          common = determine_timer (en_now env) common
      in (S_Connecting \<lparr>cn_connector = ConnectorManager_start (dc_addrs s) (dc_conns s), cn_queued_msgs = [],
            cn_epoch = dc_epoch s\<rparr>, common))"

definition Connecting_from_Disconnected_msg ::
  "('l, 'c) env \<Rightarrow> 'c Disconnected \<Rightarrow> CommonState \<Rightarrow> bytes \<Rightarrow> ('l, 'c) States \<times> CommonState" where
  "Connecting_from_Disconnected_msg env s common msg =
     (let common = to_ctrl (InnerAttemptingConnection True) common;
          common = determine_timer (en_now env) common
      in (S_Connecting \<lparr>cn_connector = ConnectorManager_start (dc_addrs s) (dc_conns s), cn_queued_msgs = [msg],
            cn_epoch = dc_epoch s\<rparr>, common))"

definition Connecting_from_EpochMismatch ::
  "('l, 'c) env \<Rightarrow> ('l, 'c) EpochMismatch \<Rightarrow> CommonState \<Rightarrow> ('l, 'c) States \<times> CommonState" where
  "Connecting_from_EpochMismatch env s common =
     (let common = to_ctrl (InnerAttemptingConnection True) common;
          common = determine_timer (en_now env) common
      in (S_Connecting \<lparr>cn_connector = ConnectorManager_start (em_addrs s) (em_conns s), cn_queued_msgs = [],
            cn_epoch = em_epoch s\<rparr>, common))"

text \<open>This transition exists in the code but no handler takes it.\<close>

definition Connecting_from_Connected ::
  "('l, 'c) env \<Rightarrow> ('l, 'c) Connected \<Rightarrow> CommonState \<Rightarrow> ('l, 'c) States \<times> CommonState" where
  "Connecting_from_Connected env s common =
     (let common = to_ctrl (InnerAttemptingConnection True) common;
          common = determine_timer (en_now env) common;
          common = set_active False common
      in (S_Connecting \<lparr>cn_connector = ConnectorManager_start (cd_addrs s) (cd_conns s), cn_queued_msgs = [],
            cn_epoch = Some (increment (cd_epoch s))\<rparr>, common))"

definition Connecting_from_Reconnecting ::
  "('l, 'c) env \<Rightarrow> 'c Reconnecting \<Rightarrow> CommonState \<Rightarrow> ('l, 'c) States \<times> CommonState" where
  "Connecting_from_Reconnecting env s common =
     (let common = determine_timer (en_now env) common;
          common = to_ctrl InnerDisconnected common
      in (S_Connecting \<lparr>cn_connector = rc_connector s, cn_queued_msgs = [],
            cn_epoch = Some (increment (rc_epoch s))\<rparr>, common))"

definition Connecting_from_GracePeriod ::
  "('l, 'c) env \<Rightarrow> 'c GracePeriod \<Rightarrow> CommonState \<Rightarrow> ('l, 'c) States \<times> CommonState" where
  "Connecting_from_GracePeriod env s common =
     (let common = to_ctrl InnerDisconnected common;
          common = to_ctrl (InnerAttemptingConnection True) common;
          common = determine_timer (en_now env) common
      in (S_Connecting \<lparr>cn_connector = ConnectorManager_start (gp_addrs s) (gp_conns s), cn_queued_msgs = [],
            cn_epoch = Some (increment (gp_epoch s))\<rparr>, common))"

section \<open>Transitions to EpochMismatch\<close>

definition EPOCH_MISMATCH_TIMER_INTERVAL :: Duration where
  "EPOCH_MISMATCH_TIMER_INTERVAL = from_secs 2"

definition EpochMismatch_from_Disconnected ::
  "('l, 'c) env \<Rightarrow> 'c Disconnected \<Rightarrow> CommonState \<Rightarrow> 'l LinkEntry \<Rightarrow> ('l, 'c) States \<times> CommonState" where
  "EpochMismatch_from_Disconnected env s common link =
     (let links = add_link link LinkManager_new;
          links = ping_all (en_link env) (en_now env) links;
          links = snd (links_reset (en_link env) (dc_epoch s) True links);
          common = on_timer (modify_repeat (en_now env) EPOCH_MISMATCH_TIMER_INTERVAL) common
      in (S_EpochMismatch \<lparr>em_conns = dc_conns s, em_addrs = dc_addrs s, em_links = links,
            em_queued_msgs = [], em_epoch = dc_epoch s, em_last_ping = en_now env\<rparr>, common))"

definition EpochMismatch_from_Connecting ::
  "('l, 'c) env \<Rightarrow> 'c Connecting \<Rightarrow> CommonState \<Rightarrow> 'l LinkEntry \<Rightarrow> ('l, 'c) States \<times> CommonState" where
  "EpochMismatch_from_Connecting env s common link =
     (let (conns, addrs) = ConnectorManager_cancel (cn_connector s);
          links = add_link link LinkManager_new;
          links = ping_all (en_link env) (en_now env) links;
          links = snd (links_reset (en_link env) (cn_epoch s) True links);
          common = to_ctrl (InnerAttemptingConnection False) common;
          common = on_timer (modify_repeat (en_now env) EPOCH_MISMATCH_TIMER_INTERVAL) common
      in (S_EpochMismatch \<lparr>em_conns = conns, em_addrs = addrs, em_links = links,
            em_queued_msgs = cn_queued_msgs s, em_epoch = cn_epoch s, em_last_ping = en_now env\<rparr>, common))"

definition EpochMismatch_from_Connected ::
  "('l, 'c) env \<Rightarrow> ('l, 'c) Connected \<Rightarrow> CommonState \<Rightarrow> ('l, 'c) States \<times> CommonState" where
  "EpochMismatch_from_Connected env s common =
     (let epoch = Some (increment (cd_epoch s));
          links = snd (links_reset (en_link env) epoch True (cd_links s));
          common = on_timer (modify_repeat (en_now env) EPOCH_MISMATCH_TIMER_INTERVAL) common;
          common = set_active False common
      in (S_EpochMismatch \<lparr>em_conns = cd_conns s, em_addrs = cd_addrs s, em_links = links,
            em_queued_msgs = [], em_epoch = epoch, em_last_ping = cd_last_ping s\<rparr>, common))"

section \<open>Transitions to Connected\<close>

definition CONNECTED_TIMER_INTERVAL :: Duration where
  "CONNECTED_TIMER_INTERVAL = from_secs 5"

definition PING_INTERVAL :: Duration where
  "PING_INTERVAL = from_secs 30"

text \<open>The timer and the activity flag that all three transitions set.\<close>

definition connected_common :: "Instant \<Rightarrow> CommonState \<Rightarrow> CommonState" where
  "connected_common now common =
     (let common = on_timer Deadline_clear common;
          common = on_timer (modify_repeat now CONNECTED_TIMER_INTERVAL) common
      in set_active True common)"

text \<open>The loop over the queued messages; a missing slice manager fails the \<open>expect\<close>.\<close>

fun send_queued ::
  "bool \<Rightarrow> 'l Link \<Rightarrow> bytes list \<Rightarrow> MessageManager \<Rightarrow> 'l LinkManager \<Rightarrow>
   (MessageManager \<times> 'l LinkManager) option" where
  "send_queued oc L [] msg_mgr links = Some (msg_mgr, links)"
| "send_queued oc L (data # msgs) msg_mgr links =
     do { (seq, msg_mgr) \<leftarrow> insert_msg oc msg_mgr data;
          slice_mgr \<leftarrow> get_outgoing_slice msg_mgr seq;
          (_, links) \<leftarrow> send_slices oc L slice_mgr links;
          send_queued oc L msgs msg_mgr links }"

definition Connected_from_EpochMismatch ::
  "('l, 'c) env \<Rightarrow> ('l, 'c) EpochMismatch \<Rightarrow> CommonState \<Rightarrow> Epoch \<Rightarrow> ('l, 'c) outcome" where
  "Connected_from_EpochMismatch env s common epoch =
     do { let common = to_ctrl (InnerConnected epoch) common;
          (msg_mgr, links) \<leftarrow>
            send_queued (en_oc env) (en_link env) (em_queued_msgs s) (MessageManager_new epoch) (em_links s);
          let common = connected_common (en_now env) common;
          Some (S_Connected \<lparr>cd_conns = em_conns s, cd_addrs = em_addrs s, cd_links = links,
                  cd_msg_mgr = msg_mgr, cd_epoch = epoch, cd_last_ping = em_last_ping s\<rparr>, common) }"

definition Connected_from_Reconnecting ::
  "('l, 'c) env \<Rightarrow> 'c Reconnecting \<Rightarrow> CommonState \<Rightarrow> 'l LinkEntry \<Rightarrow> ('l, 'c) States \<times> CommonState" where
  "Connected_from_Reconnecting env s common link =
     (let (conns, addrs) = ConnectorManager_cancel (rc_connector s);
          links = ping_all (en_link env) (en_now env) (with_link link);
          common = to_ctrl (InnerAttemptingConnection False) common;
          common = connected_common (en_now env) common
      in (S_Connected \<lparr>cd_conns = conns, cd_addrs = addrs, cd_links = links,
            cd_msg_mgr = rc_msg_mgr s, cd_epoch = rc_epoch s, cd_last_ping = en_now env\<rparr>, common))"

definition Connected_from_GracePeriod ::
  "('l, 'c) env \<Rightarrow> 'c GracePeriod \<Rightarrow> CommonState \<Rightarrow> 'l LinkEntry \<Rightarrow> ('l, 'c) States \<times> CommonState" where
  "Connected_from_GracePeriod env s common link =
     (let links = ping_all (en_link env) (en_now env) (with_link link);
          common = connected_common (en_now env) common
      in (S_Connected \<lparr>cd_conns = gp_conns s, cd_addrs = gp_addrs s, cd_links = links,
            cd_msg_mgr = gp_msg_mgr s, cd_epoch = gp_epoch s, cd_last_ping = en_now env\<rparr>, common))"

section \<open>Transitions to Reconnecting and GracePeriod\<close>

definition Reconnecting_from_Connected ::
  "('l, 'c) env \<Rightarrow> ('l, 'c) Connected \<Rightarrow> CommonState \<Rightarrow> ('l, 'c) States \<times> CommonState" where
  "Reconnecting_from_Connected env s common =
     (let common = to_ctrl (InnerAttemptingConnection True) common;
          common = (case cs_reconnecting_timeout common of
                      Some timeout \<Rightarrow> on_timer (modify_deadline_from_now (en_now env) timeout) common
                    | None \<Rightarrow> on_timer Deadline_clear common);
          connector = ConnectorManager_start (cd_addrs s) (cd_conns s);
          common = set_active False common
      in (S_Reconnecting \<lparr>rc_msg_mgr = cd_msg_mgr s, rc_epoch = cd_epoch s, rc_connector = connector\<rparr>, common))"

definition GracePeriod_from_Connected ::
  "('l, 'c) env \<Rightarrow> ('l, 'c) Connected \<Rightarrow> CommonState \<Rightarrow> ('l, 'c) States \<times> CommonState" where
  "GracePeriod_from_Connected env s common =
     (let common = (case cs_grace_period_timeout common of
                      Some timeout \<Rightarrow> on_timer (modify_deadline_from_now (en_now env) timeout) common
                    | None \<Rightarrow> on_timer Deadline_clear common);
          common = set_active False common
      in (S_GracePeriod \<lparr>gp_conns = cd_conns s, gp_addrs = cd_addrs s, gp_msg_mgr = cd_msg_mgr s,
            gp_epoch = cd_epoch s\<rparr>, common))"

section \<open>Disconnected\<close>

text \<open>\<open>conns.insert(scheme, conn)\<close>, in the four states that keep the connectors themselves.\<close>

definition insert_connector :: "('l, 'c) env \<Rightarrow> 'c \<Rightarrow> 'c ConnectorSet \<Rightarrow> 'c ConnectorSet" where
  "insert_connector env conn conns = AList.update (en_scheme env conn) conn conns"

fun Disconnected_ctrl_msg ::
  "('l, 'c) env \<Rightarrow> 'c Disconnected \<Rightarrow> CommonState \<Rightarrow> ('l, 'c) LinkSetControlCommand \<Rightarrow> ('l, 'c) outcome" where
  "Disconnected_ctrl_msg env s common CmdConnect = Some (Connecting_from_Disconnected env s common)"
| "Disconnected_ctrl_msg env s common CmdDisconnect = Some (S_Disconnected s, common)"
| "Disconnected_ctrl_msg env s common (CmdAddConnector conn) =
     Some (S_Disconnected (s\<lparr>dc_conns := insert_connector env conn (dc_conns s)\<rparr>), common)"
| "Disconnected_ctrl_msg env s common (CmdAddAddress addr) =
     Some (S_Disconnected (s\<lparr>dc_addrs := add_address addr (dc_addrs s)\<rparr>), common)"
| "Disconnected_ctrl_msg env s common (CmdAddLink link) =
     do { (wrapped, common) \<leftarrow> wrap_link env link common;
          Some (case wrapped of
                  Inr link \<Rightarrow> EpochMismatch_from_Disconnected env s common link
                | Inl _ \<Rightarrow> (S_Disconnected s, common)) }"
| "Disconnected_ctrl_msg env s common (CmdMessage data epoch) =
     Some (if cs_auto_connect common \<and> epoch = None
           then Connecting_from_Disconnected_msg env s common data
           else (S_Disconnected s, common))"

definition Disconnected_link_msg ::
  "'c Disconnected \<Rightarrow> CommonState \<Rightarrow> u64 \<Rightarrow> LinkProtocol \<Rightarrow> ('l, 'c) outcome" where
  "Disconnected_link_msg s common link_id msg = Some (S_Disconnected s, common\<lparr>cs_readers := []\<rparr>)"

definition Disconnected_timer :: "'c Disconnected \<Rightarrow> CommonState \<Rightarrow> ('l, 'c) outcome" where
  "Disconnected_timer s common = Some (S_Disconnected s, on_timer Deadline_clear common)"

section \<open>Connecting\<close>

fun Connecting_ctrl_msg ::
  "('l, 'c) env \<Rightarrow> 'c Connecting \<Rightarrow> CommonState \<Rightarrow> ('l, 'c) LinkSetControlCommand \<Rightarrow> ('l, 'c) outcome" where
  "Connecting_ctrl_msg env s common CmdConnect = Some (S_Connecting s, common)"
| "Connecting_ctrl_msg env s common CmdDisconnect = Some (Disconnected_from_Connecting s common)"
| "Connecting_ctrl_msg env s common (CmdAddConnector conn) =
     do { connector \<leftarrow> ConnectorManager_add_connector (en_scheme env) conn (cn_connector s);
          Some (S_Connecting (s\<lparr>cn_connector := connector\<rparr>), common) }"
| "Connecting_ctrl_msg env s common (CmdAddAddress addr) =
     Some (S_Connecting (s\<lparr>cn_connector := ConnectorManager_add_addr addr (cn_connector s)\<rparr>), common)"
| "Connecting_ctrl_msg env s common (CmdAddLink link) =
     do { (wrapped, common) \<leftarrow> wrap_link env link common;
          Some (case wrapped of
                  Inr link \<Rightarrow> EpochMismatch_from_Connecting env s common link
                | Inl _ \<Rightarrow> (S_Connecting s, common)) }"
| "Connecting_ctrl_msg env s common (CmdMessage msg epoch) =
     Some (S_Connecting (if epoch = None then s\<lparr>cn_queued_msgs := cn_queued_msgs s @ [msg]\<rparr> else s), common)"

definition Connecting_link_msg ::
  "'c Connecting \<Rightarrow> CommonState \<Rightarrow> u64 \<Rightarrow> LinkProtocol \<Rightarrow> ('l, 'c) outcome" where
  "Connecting_link_msg s common link_id msg = Some (S_Connecting s, common)"

definition Connecting_timer :: "'c Connecting \<Rightarrow> CommonState \<Rightarrow> ('l, 'c) outcome" where
  "Connecting_timer s common = Some (Disconnected_from_Connecting s (on_timer Deadline_clear common))"

section \<open>EpochMismatch\<close>

fun EpochMismatch_ctrl_msg ::
  "('l, 'c) env \<Rightarrow> ('l, 'c) EpochMismatch \<Rightarrow> CommonState \<Rightarrow> ('l, 'c) LinkSetControlCommand \<Rightarrow> ('l, 'c) outcome" where
  "EpochMismatch_ctrl_msg env s common CmdConnect = Some (S_EpochMismatch s, common)"
| "EpochMismatch_ctrl_msg env s common CmdDisconnect = Some (Disconnected_from_EpochMismatch s common)"
| "EpochMismatch_ctrl_msg env s common (CmdAddConnector conn) =
     Some (S_EpochMismatch (s\<lparr>em_conns := insert_connector env conn (em_conns s)\<rparr>), common)"
| "EpochMismatch_ctrl_msg env s common (CmdAddAddress addr) =
     Some (S_EpochMismatch (s\<lparr>em_addrs := add_address addr (em_addrs s)\<rparr>), common)"
| "EpochMismatch_ctrl_msg env s common (CmdAddLink link) =
     do { (wrapped, common) \<leftarrow> wrap_link env link common;
          Some (case wrapped of
                  Inr link \<Rightarrow> (S_EpochMismatch (s\<lparr>em_links := add_link link (em_links s)\<rparr>), common)
                | Inl _ \<Rightarrow> (S_EpochMismatch s, common)) }"
| "EpochMismatch_ctrl_msg env s common (CmdMessage msg epoch) =
     Some (S_EpochMismatch (if epoch = None then s\<lparr>em_queued_msgs := em_queued_msgs s @ [msg]\<rparr> else s), common)"

text \<open>The reply to \<open>Reset\<close>; comparing equal without an epoch fails the \<open>expect\<close>.\<close>

definition EpochMismatch_reset ::
  "('l, 'c) env \<Rightarrow> ('l, 'c) EpochMismatch \<Rightarrow> CommonState \<Rightarrow> Epoch option \<Rightarrow> bool \<Rightarrow> ('l, 'c) outcome" where
  "EpochMismatch_reset env s common epoch request =
     (let L = en_link env
      in case compare_epochs (em_epoch s) epoch of
           Greater \<Rightarrow>
             Some (S_EpochMismatch (s\<lparr>em_links := snd (links_reset L (em_epoch s) False (em_links s))\<rparr>), common)
         | Equal \<Rightarrow>
             do { let s = (if request
                           then s\<lparr>em_links := snd (links_reset L (em_epoch s) False (em_links s))\<rparr> else s);
                  epoch \<leftarrow> em_epoch s;
                  Connected_from_EpochMismatch env s common epoch }
         | Less \<Rightarrow>
             do { let s = s\<lparr>em_epoch := epoch\<rparr>;
                  let epoch = (case em_epoch s of Some e \<Rightarrow> e | None \<Rightarrow> Epoch_ONE);
                  let s = s\<lparr>em_links := snd (links_reset L (Some epoch) False (em_links s))\<rparr>;
                  Connected_from_EpochMismatch env s common epoch })"

fun EpochMismatch_link_msg ::
  "('l, 'c) env \<Rightarrow> ('l, 'c) EpochMismatch \<Rightarrow> CommonState \<Rightarrow> u64 \<Rightarrow> LinkProtocol \<Rightarrow> ('l, 'c) outcome" where
  "EpochMismatch_link_msg env s common link_id (Reset epoch request) =
     EpochMismatch_reset env s common epoch request"
| "EpochMismatch_link_msg env s common link_id (Ack _ _ _) = Some (S_EpochMismatch s, common)"
| "EpochMismatch_link_msg env s common link_id (MsgSlice _ _ _ _ _) = Some (S_EpochMismatch s, common)"
| "EpochMismatch_link_msg env s common link_id Ping =
     Some (S_EpochMismatch (s\<lparr>em_links := links_pong (en_link env) link_id (em_links s)\<rparr>), common)"
| "EpochMismatch_link_msg env s common link_id Pong =
     Some (S_EpochMismatch (s\<lparr>em_links := links_end_ping (en_now env) link_id (em_links s)\<rparr>), common)"

definition EpochMismatch_timer ::
  "('l, 'c) env \<Rightarrow> ('l, 'c) EpochMismatch \<Rightarrow> CommonState \<Rightarrow> ('l, 'c) outcome" where
  "EpochMismatch_timer env s common =
     (let s = s\<lparr>em_links := upkeep (en_link env) (em_links s)\<rparr>;
          s = s\<lparr>em_links := ping_all (en_link env) (en_now env) (em_links s)\<rparr>
      in Some (if LinkManager_is_empty (em_links s)
               then if cs_auto_connect common then Connecting_from_EpochMismatch env s common
                    else Disconnected_from_EpochMismatch s common
               else (S_EpochMismatch (s\<lparr>em_links := snd (links_reset (en_link env) (em_epoch s) True (em_links s))\<rparr>),
                     common)))"

section \<open>Connected\<close>

definition determine_state ::
  "('l, 'c) env \<Rightarrow> ('l, 'c) Connected \<Rightarrow> CommonState \<Rightarrow> ('l, 'c) States \<times> CommonState" where
  "determine_state env s common =
     (if LinkManager_is_empty (cd_links s)
      then if cs_reconnecting_timeout common \<noteq> Some 0 then Reconnecting_from_Connected env s common
           else if cs_grace_period_timeout common \<noteq> Some 0 then GracePeriod_from_Connected env s common
           else Disconnected_from_Connected s common
      else (S_Connected s, common))"

fun Connected_ctrl_msg ::
  "('l, 'c) env \<Rightarrow> ('l, 'c) Connected \<Rightarrow> CommonState \<Rightarrow> ('l, 'c) LinkSetControlCommand \<Rightarrow> ('l, 'c) outcome" where
  "Connected_ctrl_msg env s common CmdConnect = Some (S_Connected s, common)"
| "Connected_ctrl_msg env s common CmdDisconnect = Some (Disconnected_from_Connected s common)"
| "Connected_ctrl_msg env s common (CmdAddConnector conn) =
     Some (S_Connected (s\<lparr>cd_conns := insert_connector env conn (cd_conns s)\<rparr>), common)"
| "Connected_ctrl_msg env s common (CmdAddAddress addr) =
     Some (S_Connected (s\<lparr>cd_addrs := add_address addr (cd_addrs s)\<rparr>), common)"
| "Connected_ctrl_msg env s common (CmdAddLink link) =
     do { (wrapped, common) \<leftarrow> wrap_link env link common;
          Some (case wrapped of
                  Inr link \<Rightarrow> (S_Connected (s\<lparr>cd_links := add_link link (cd_links s)\<rparr>), common)
                | Inl _ \<Rightarrow> (S_Connected s, common)) }"
| "Connected_ctrl_msg env s common (CmdMessage msg epoch) =
     (if epoch \<noteq> None \<and> epoch \<noteq> Some (cd_epoch s) then Some (S_Connected s, common)
      else do {
        (seq, msg_mgr) \<leftarrow> insert_msg (en_oc env) (cd_msg_mgr s) msg;
        links \<leftarrow> (case get_outgoing_slice msg_mgr seq of
                     Some slice_mgr \<Rightarrow>
                       map_option snd (send_slices (en_oc env) (en_link env) slice_mgr (cd_links s))
                   | None \<Rightarrow> Some (cd_links s));
        Some (determine_state env (s\<lparr>cd_msg_mgr := msg_mgr, cd_links := links\<rparr>) common) })"

text \<open>The messages that \<open>take_recvd\<close> returns go to the user.\<close>

definition emit_messages :: "Epoch \<Rightarrow> bytes list \<Rightarrow> CommonState \<Rightarrow> CommonState" where
  "emit_messages epoch msgs common = fold (\<lambda>msg. to_ctrl (InnerMessage msg epoch)) msgs common"

fun Connected_link_msg ::
  "('l, 'c) env \<Rightarrow> ('l, 'c) Connected \<Rightarrow> CommonState \<Rightarrow> u64 \<Rightarrow> LinkProtocol \<Rightarrow> ('l, 'c) outcome" where
  "Connected_link_msg env s common link_id (Reset epoch request) =
     Some (if request
           then if epoch = Some (cd_epoch s)
                then determine_state env
                       (s\<lparr>cd_links := snd (links_reset (en_link env) (Some (cd_epoch s)) False (cd_links s))\<rparr>) common
                else EpochMismatch_from_Connected env s common
           else (S_Connected s, common))"
| "Connected_link_msg env s common link_id (Ack epoch seq last_index) =
     do { msg_mgr \<leftarrow> (if epoch = to_int (cd_epoch s)
                       then recv_ack (en_oc env) (cd_msg_mgr s) (seq, last_index) else Some (cd_msg_mgr s));
          Some (S_Connected (s\<lparr>cd_msg_mgr := msg_mgr\<rparr>), common) }"
| "Connected_link_msg env s common link_id (MsgSlice epoch seq seq_len first_index data) =
     (if epoch = to_int (cd_epoch s)
      then do {
        (should_ack, msg_mgr) \<leftarrow> MessageManager_recv (en_oc env) (cd_msg_mgr s) seq first_index seq_len data;
        let links = (if should_ack
                     then snd (links_ack (en_link env) (cd_epoch s) (mm_last_ack msg_mgr) (cd_links s))
                     else cd_links s);
        (msgs, msg_mgr) \<leftarrow> take_recvd (en_oc env) msg_mgr;
        Some (determine_state env (s\<lparr>cd_msg_mgr := msg_mgr, cd_links := links\<rparr>)
               (emit_messages (cd_epoch s) msgs common)) }
      else Some (S_Connected s, common))"
| "Connected_link_msg env s common link_id Ping =
     Some (S_Connected (s\<lparr>cd_links := links_pong (en_link env) link_id (cd_links s)\<rparr>), common)"
| "Connected_link_msg env s common link_id Pong =
     Some (S_Connected (s\<lparr>cd_links := links_end_ping (en_now env) link_id (cd_links s)\<rparr>), common)"

definition Connected_timer ::
  "('l, 'c) env \<Rightarrow> ('l, 'c) Connected \<Rightarrow> CommonState \<Rightarrow> ('l, 'c) outcome" where
  "Connected_timer env s common =
     do { let links = (if PING_INTERVAL < en_now env - cd_last_ping s
                       then ping_all (en_link env) (en_now env) (cd_links s) else cd_links s);
          let links = upkeep (en_link env) links;
          links \<leftarrow> (case get_outgoing_slices (cd_msg_mgr s) of
                       slice_mgr # _ \<Rightarrow>
                         if LinkManager_is_empty links then Some links
                         else map_option snd (send_slices (en_oc env) (en_link env) slice_mgr links)
                     | [] \<Rightarrow> Some links);
          Some (determine_state env (s\<lparr>cd_links := links\<rparr>) common) }"

section \<open>Reconnecting\<close>

fun Reconnecting_ctrl_msg ::
  "('l, 'c) env \<Rightarrow> 'c Reconnecting \<Rightarrow> CommonState \<Rightarrow> ('l, 'c) LinkSetControlCommand \<Rightarrow> ('l, 'c) outcome" where
  "Reconnecting_ctrl_msg env s common CmdConnect = Some (S_Reconnecting s, common)"
| "Reconnecting_ctrl_msg env s common CmdDisconnect = Some (Disconnected_from_Reconnecting s common)"
| "Reconnecting_ctrl_msg env s common (CmdAddConnector conn) =
     do { connector \<leftarrow> ConnectorManager_add_connector (en_scheme env) conn (rc_connector s);
          Some (S_Reconnecting (s\<lparr>rc_connector := connector\<rparr>), common) }"
| "Reconnecting_ctrl_msg env s common (CmdAddAddress addr) =
     Some (S_Reconnecting (s\<lparr>rc_connector := ConnectorManager_add_addr addr (rc_connector s)\<rparr>), common)"
| "Reconnecting_ctrl_msg env s common (CmdAddLink link) =
     do { (wrapped, common) \<leftarrow> wrap_link env link common;
          Some (case wrapped of
                  Inr link \<Rightarrow> Connected_from_Reconnecting env s common link
                | Inl _ \<Rightarrow> (S_Reconnecting s, common)) }"
| "Reconnecting_ctrl_msg env s common (CmdMessage data epoch) =
     (if epoch \<noteq> None \<and> epoch \<noteq> Some (rc_epoch s) then Some (S_Reconnecting s, common)
      else do { (_, msg_mgr) \<leftarrow> insert_msg (en_oc env) (rc_msg_mgr s) data;
                Some (S_Reconnecting (s\<lparr>rc_msg_mgr := msg_mgr\<rparr>), common) })"

fun Reconnecting_link_msg ::
  "('l, 'c) env \<Rightarrow> 'c Reconnecting \<Rightarrow> CommonState \<Rightarrow> u64 \<Rightarrow> LinkProtocol \<Rightarrow> ('l, 'c) outcome" where
  "Reconnecting_link_msg env s common link_id (Reset epoch request) =
     Some (if request
           then if epoch \<noteq> Some (rc_epoch s) then (S_Reconnecting s, common)
                else Connecting_from_Reconnecting env s common
           else (S_Reconnecting s, common))"
| "Reconnecting_link_msg env s common link_id (Ack epoch seq last_index) =
     do { msg_mgr \<leftarrow> (if epoch = to_int (rc_epoch s)
                       then recv_ack (en_oc env) (rc_msg_mgr s) (seq, last_index) else Some (rc_msg_mgr s));
          Some (S_Reconnecting (s\<lparr>rc_msg_mgr := msg_mgr\<rparr>), common) }"
| "Reconnecting_link_msg env s common link_id (MsgSlice epoch seq seq_len first_index data) =
     (if epoch = to_int (rc_epoch s)
      then do {
        (_, msg_mgr) \<leftarrow> MessageManager_recv (en_oc env) (rc_msg_mgr s) seq first_index seq_len data;
        (msgs, msg_mgr) \<leftarrow> take_recvd (en_oc env) msg_mgr;
        Some (S_Reconnecting (s\<lparr>rc_msg_mgr := msg_mgr\<rparr>), emit_messages (rc_epoch s) msgs common) }
      else Some (S_Reconnecting s, common))"
| "Reconnecting_link_msg env s common link_id Ping = Some (S_Reconnecting s, common)"
| "Reconnecting_link_msg env s common link_id Pong = Some (S_Reconnecting s, common)"

definition Reconnecting_timer ::
  "('l, 'c) env \<Rightarrow> 'c Reconnecting \<Rightarrow> CommonState \<Rightarrow> ('l, 'c) outcome" where
  "Reconnecting_timer env s common =
     Some (if cs_auto_connect common then Connecting_from_Reconnecting env s common
           else Disconnected_from_Reconnecting s common)"

section \<open>GracePeriod\<close>

fun GracePeriod_ctrl_msg ::
  "('l, 'c) env \<Rightarrow> 'c GracePeriod \<Rightarrow> CommonState \<Rightarrow> ('l, 'c) LinkSetControlCommand \<Rightarrow> ('l, 'c) outcome" where
  "GracePeriod_ctrl_msg env s common CmdConnect = Some (S_GracePeriod s, common)"
| "GracePeriod_ctrl_msg env s common CmdDisconnect = Some (Disconnected_from_GracePeriod s common)"
| "GracePeriod_ctrl_msg env s common (CmdAddConnector conn) =
     Some (S_GracePeriod (s\<lparr>gp_conns := insert_connector env conn (gp_conns s)\<rparr>), common)"
| "GracePeriod_ctrl_msg env s common (CmdAddAddress addr) =
     Some (S_GracePeriod (s\<lparr>gp_addrs := add_address addr (gp_addrs s)\<rparr>), common)"
| "GracePeriod_ctrl_msg env s common (CmdAddLink link) =
     do { (wrapped, common) \<leftarrow> wrap_link env link common;
          Some (case wrapped of
                  Inr link \<Rightarrow> Connected_from_GracePeriod env s common link
                | Inl _ \<Rightarrow> (S_GracePeriod s, common)) }"
| "GracePeriod_ctrl_msg env s common (CmdMessage data epoch) =
     (if epoch \<noteq> None \<and> epoch \<noteq> Some (gp_epoch s) then Some (S_GracePeriod s, common)
      else do { (_, msg_mgr) \<leftarrow> insert_msg (en_oc env) (gp_msg_mgr s) data;
                Some (S_GracePeriod (s\<lparr>gp_msg_mgr := msg_mgr\<rparr>), common) })"

fun GracePeriod_link_msg ::
  "('l, 'c) env \<Rightarrow> 'c GracePeriod \<Rightarrow> CommonState \<Rightarrow> u64 \<Rightarrow> LinkProtocol \<Rightarrow> ('l, 'c) outcome" where
  "GracePeriod_link_msg env s common link_id (Reset epoch request) =
     Some (if request
           then if epoch \<noteq> Some (gp_epoch s) then (S_GracePeriod s, common)
                else Disconnected_from_GracePeriod s common
           else (S_GracePeriod s, common))"
| "GracePeriod_link_msg env s common link_id (Ack epoch seq last_index) =
     do { msg_mgr \<leftarrow> (if epoch = to_int (gp_epoch s)
                       then recv_ack (en_oc env) (gp_msg_mgr s) (seq, last_index) else Some (gp_msg_mgr s));
          Some (S_GracePeriod (s\<lparr>gp_msg_mgr := msg_mgr\<rparr>), common) }"
| "GracePeriod_link_msg env s common link_id (MsgSlice epoch seq seq_len first_index data) =
     (if epoch = to_int (gp_epoch s)
      then do {
        (_, msg_mgr) \<leftarrow> MessageManager_recv (en_oc env) (gp_msg_mgr s) seq first_index seq_len data;
        (msgs, msg_mgr) \<leftarrow> take_recvd (en_oc env) msg_mgr;
        Some (S_GracePeriod (s\<lparr>gp_msg_mgr := msg_mgr\<rparr>), emit_messages (gp_epoch s) msgs common) }
      else Some (S_GracePeriod s, common))"
| "GracePeriod_link_msg env s common link_id Ping = Some (S_GracePeriod s, common)"
| "GracePeriod_link_msg env s common link_id Pong = Some (S_GracePeriod s, common)"

definition GracePeriod_timer ::
  "('l, 'c) env \<Rightarrow> 'c GracePeriod \<Rightarrow> CommonState \<Rightarrow> ('l, 'c) outcome" where
  "GracePeriod_timer env s common =
     Some (if cs_auto_connect common then Connecting_from_GracePeriod env s common
           else Disconnected_from_GracePeriod s common)"

section \<open>Debugging\<close>

definition addrs_of :: "AddressSet \<Rightarrow> Address list" where
  "addrs_of addrs = map ca_addr addrs"

definition schemes_of :: "('l, 'c) env \<Rightarrow> 'c ConnectorSet \<Rightarrow> rust_string list" where
  "schemes_of env conns = map (\<lambda>(_, c). en_scheme env c) conns"

definition describe_links :: "('l, 'c) env \<Rightarrow> 'l LinkManager \<Rightarrow> LinkDescription list" where
  "describe_links env lm =
     sort_key ld_id
       (map (\<lambda>e. \<lparr>ld_id = le_id e, ld_scheme = LinkEntry_scheme (en_link env) e\<rparr>) (lm_links lm))"

fun Disconnected_debug :: "('l, 'c) env \<Rightarrow> 'c Disconnected \<Rightarrow> DebugCommand \<Rightarrow> DebugReply \<times> ('l, 'c) States" where
  "Disconnected_debug env s Snapshot =
     (let states = S_Disconnected s
      in (ReplySnapshot \<lparr>ds_state_name = get_name states, ds_epoch = dc_epoch s, ds_addrs = addrs_of (dc_addrs s),
            ds_connectors = schemes_of env (dc_conns s), ds_links = []\<rparr>, states))"
| "Disconnected_debug env s (EvictLink link_id) = (ReplyEvict False, S_Disconnected s)"

fun Connecting_debug :: "('l, 'c) env \<Rightarrow> 'c Connecting \<Rightarrow> DebugCommand \<Rightarrow> DebugReply \<times> ('l, 'c) States" where
  "Connecting_debug env s Snapshot =
     (let (addrs, conns) = debug_request_snapshot (en_scheme env) (cn_connector s);
          states = S_Connecting s
      in (ReplySnapshot \<lparr>ds_state_name = get_name states, ds_epoch = cn_epoch s, ds_addrs = addrs,
            ds_connectors = conns, ds_links = []\<rparr>, states))"
| "Connecting_debug env s (EvictLink link_id) = (ReplyEvict False, S_Connecting s)"

fun EpochMismatch_debug :: "('l, 'c) env \<Rightarrow> ('l, 'c) EpochMismatch \<Rightarrow> DebugCommand \<Rightarrow> DebugReply \<times> ('l, 'c) States" where
  "EpochMismatch_debug env s Snapshot =
     (let states = S_EpochMismatch s
      in (ReplySnapshot \<lparr>ds_state_name = get_name states, ds_epoch = em_epoch s, ds_addrs = addrs_of (em_addrs s),
            ds_connectors = schemes_of env (em_conns s), ds_links = describe_links env (em_links s)\<rparr>, states))"
| "EpochMismatch_debug env s (EvictLink link_id) =
     (ReplyEvict True, S_EpochMismatch (s\<lparr>em_links := snd (evict_link link_id (em_links s))\<rparr>))"

fun Connected_debug :: "('l, 'c) env \<Rightarrow> ('l, 'c) Connected \<Rightarrow> DebugCommand \<Rightarrow> DebugReply \<times> ('l, 'c) States" where
  "Connected_debug env s Snapshot =
     (let states = S_Connected s
      in (ReplySnapshot \<lparr>ds_state_name = get_name states, ds_epoch = Some (cd_epoch s), ds_addrs = addrs_of (cd_addrs s),
            ds_connectors = schemes_of env (cd_conns s), ds_links = describe_links env (cd_links s)\<rparr>, states))"
| "Connected_debug env s (EvictLink link_id) =
     (ReplyEvict True, S_Connected (s\<lparr>cd_links := snd (evict_link link_id (cd_links s))\<rparr>))"

fun Reconnecting_debug :: "('l, 'c) env \<Rightarrow> 'c Reconnecting \<Rightarrow> DebugCommand \<Rightarrow> DebugReply \<times> ('l, 'c) States" where
  "Reconnecting_debug env s Snapshot =
     (let (addrs, conns) = debug_request_snapshot (en_scheme env) (rc_connector s);
          states = S_Reconnecting s
      in (ReplySnapshot \<lparr>ds_state_name = get_name states, ds_epoch = Some (rc_epoch s), ds_addrs = addrs,
            ds_connectors = conns, ds_links = []\<rparr>, states))"
| "Reconnecting_debug env s (EvictLink link_id) = (ReplyEvict False, S_Reconnecting s)"

fun GracePeriod_debug :: "('l, 'c) env \<Rightarrow> 'c GracePeriod \<Rightarrow> DebugCommand \<Rightarrow> DebugReply \<times> ('l, 'c) States" where
  "GracePeriod_debug env s Snapshot =
     (let states = S_GracePeriod s
      in (ReplySnapshot \<lparr>ds_state_name = get_name states, ds_epoch = Some (gp_epoch s), ds_addrs = addrs_of (gp_addrs s),
            ds_connectors = schemes_of env (gp_conns s), ds_links = []\<rparr>, states))"
| "GracePeriod_debug env s (EvictLink link_id) = (ReplyEvict False, S_GracePeriod s)"

section \<open>Sending the queued messages\<close>

lemma send_queued_any:
  assumes "\<And>l. li_max_size L l < u32_bound" "out_ok mm" "\<forall>m \<in> set msgs. length m \<le> isize_max"
    "mm_next_seq mm + length msgs < u64_bound"
  obtains mm' links' where "send_queued oc L msgs mm links = Some (mm', links')" "out_ok mm'"
    "mm_epoch mm' = mm_epoch mm" "mm_incoming_slices mm' = mm_incoming_slices mm"
    "mm_last_ack mm' = mm_last_ack mm"
proof -
  have "\<exists>mm' links'. send_queued oc L msgs mm links = Some (mm', links') \<and> out_ok mm' \<and>
      mm_epoch mm' = mm_epoch mm \<and> mm_incoming_slices mm' = mm_incoming_slices mm \<and>
      mm_last_ack mm' = mm_last_ack mm"
    using assms(2-4)
  proof (induction msgs arbitrary: mm links)
    case (Cons m msgs)
    have small: "length m \<le> isize_max" "mm_next_seq mm + 1 < u64_bound"
      using Cons.prems by auto
    obtain mm1 sm where mm1: "insert_msg oc mm m = Some (mm_next_seq mm, mm1)"
      "get_outgoing_slice mm1 (mm_next_seq mm) = Some sm" "out_ok mm1" "mm_epoch mm1 = mm_epoch mm"
      "mm_incoming_slices mm1 = mm_incoming_slices mm" "mm_last_ack mm1 = mm_last_ack mm"
      "mm_next_seq mm1 = mm_next_seq mm + 1"
      by (rule insert_msg_any [OF Cons.prems(1) small])
    have "(mm_next_seq mm, sm) \<in> set (mm_outgoing_slices mm1)"
      using mm1(2,3) by (simp add: get_outgoing_slice_def out_ok_def bt.get_entries)
    then obtain k where "sends_from sm k" "length (sm_data sm) \<le> isize_max"
      using out_ok_entry [OF mm1(3)] by blast
    then have "send_slices oc L sm links \<noteq> None"
      by (intro send_slices_any assms(1))
    then obtain r links1 where "send_slices oc L sm links = Some (r, links1)"
      by auto
    moreover obtain mm' links' where "send_queued oc L msgs mm1 links1 = Some (mm', links')" "out_ok mm'"
      "mm_epoch mm' = mm_epoch mm1" "mm_incoming_slices mm' = mm_incoming_slices mm1"
      "mm_last_ack mm' = mm_last_ack mm1"
      using Cons.IH [of mm1 links1] Cons.prems mm1(3,7) by auto
    ultimately show ?case
      using mm1 by simp
  qed simp
  then show thesis using that by blast
qed

end
