(* ===== verification/Link_Core.thy ===== *)
theory Link_Core
  imports States
begin

text \<open>
  \<^verbatim>\<open>src/src/core.rs\<close>: the task that owns a link set. Its loop waits for one of four events and passes
  it to the handler of the current state; \<open>core_handle\<close> is one turn of it. \<open>core_step\<close> adds what
  happens around the task: links and connection tasks change, readers end, time passes.
\<close>

section \<open>The loop\<close>

record ('l, 'c) core =
  co_state :: "('l, 'c) States"
  co_common :: CommonState

definition core_new :: "('l, 'c) core" where
  "core_new = \<lparr>co_state = States_new, co_common = CommonState_new\<rparr>"

fun set_config :: "LinkSetControlConfig \<Rightarrow> CommonState \<Rightarrow> CommonState" where
  "set_config (AutoConnect b) common = common\<lparr>cs_auto_connect := b\<rparr>"
| "set_config (ConnectTimeout t) common = common\<lparr>cs_connecting_timeout := t\<rparr>"
| "set_config (ReconnectTimeout t) common = common\<lparr>cs_reconnecting_timeout := t\<rparr>"
| "set_config (GracePeriodTimeout t) common = common\<lparr>cs_grace_period_timeout := t\<rparr>"

fun States_ctrl_msg ::
  "('l, 'c) env \<Rightarrow> ('l, 'c) States \<Rightarrow> CommonState \<Rightarrow> ('l, 'c) LinkSetControlCommand \<Rightarrow> ('l, 'c) outcome" where
  "States_ctrl_msg env (S_Disconnected s) common cmd = Disconnected_ctrl_msg env s common cmd"
| "States_ctrl_msg env (S_Connecting s) common cmd = Connecting_ctrl_msg env s common cmd"
| "States_ctrl_msg env (S_EpochMismatch s) common cmd = EpochMismatch_ctrl_msg env s common cmd"
| "States_ctrl_msg env (S_Connected s) common cmd = Connected_ctrl_msg env s common cmd"
| "States_ctrl_msg env (S_Reconnecting s) common cmd = Reconnecting_ctrl_msg env s common cmd"
| "States_ctrl_msg env (S_GracePeriod s) common cmd = GracePeriod_ctrl_msg env s common cmd"

fun handle_ctrl_msg ::
  "('l, 'c) env \<Rightarrow> CommonState \<Rightarrow> ('l, 'c) States \<Rightarrow> ('l, 'c) LinkSetControl \<Rightarrow> ('l, 'c) outcome" where
  "handle_ctrl_msg env common state (Command cmd) = States_ctrl_msg env state common cmd"
| "handle_ctrl_msg env common state (Config conf) = Some (state, set_config conf common)"

fun handle_link_msg ::
  "('l, 'c) env \<Rightarrow> CommonState \<Rightarrow> ('l, 'c) States \<Rightarrow> u64 \<Rightarrow> LinkProtocol \<Rightarrow> ('l, 'c) outcome" where
  "handle_link_msg env common (S_Disconnected s) link_id msg = Disconnected_link_msg s common link_id msg"
| "handle_link_msg env common (S_Connecting s) link_id msg = Connecting_link_msg s common link_id msg"
| "handle_link_msg env common (S_EpochMismatch s) link_id msg = EpochMismatch_link_msg env s common link_id msg"
| "handle_link_msg env common (S_Connected s) link_id msg = Connected_link_msg env s common link_id msg"
| "handle_link_msg env common (S_Reconnecting s) link_id msg = Reconnecting_link_msg env s common link_id msg"
| "handle_link_msg env common (S_GracePeriod s) link_id msg = GracePeriod_link_msg env s common link_id msg"

fun handle_timer :: "('l, 'c) env \<Rightarrow> CommonState \<Rightarrow> ('l, 'c) States \<Rightarrow> ('l, 'c) outcome" where
  "handle_timer env common (S_Disconnected s) = Disconnected_timer s common"
| "handle_timer env common (S_Connecting s) = Connecting_timer s common"
| "handle_timer env common (S_EpochMismatch s) = EpochMismatch_timer env s common"
| "handle_timer env common (S_Connected s) = Connected_timer env s common"
| "handle_timer env common (S_Reconnecting s) = Reconnecting_timer env s common"
| "handle_timer env common (S_GracePeriod s) = GracePeriod_timer env s common"

fun States_debug :: "('l, 'c) env \<Rightarrow> ('l, 'c) States \<Rightarrow> DebugCommand \<Rightarrow> DebugReply \<times> ('l, 'c) States" where
  "States_debug env (S_Disconnected s) cmd = Disconnected_debug env s cmd"
| "States_debug env (S_Connecting s) cmd = Connecting_debug env s cmd"
| "States_debug env (S_EpochMismatch s) cmd = EpochMismatch_debug env s cmd"
| "States_debug env (S_Connected s) cmd = Connected_debug env s cmd"
| "States_debug env (S_Reconnecting s) cmd = Reconnecting_debug env s cmd"
| "States_debug env (S_GracePeriod s) cmd = GracePeriod_debug env s cmd"

definition handle_debug ::
  "('l, 'c) env \<Rightarrow> CommonState \<Rightarrow> ('l, 'c) States \<Rightarrow> DebugCommand \<Rightarrow> ('l, 'c) outcome" where
  "handle_debug env common state cmd = Some (snd (States_debug env state cmd), common)"

datatype ('l, 'c) core_event =
    FromCtrl "('l, 'c) LinkSetControl"
  | FromLink u64 LinkProtocol
  | TimerReady
  | FromDebug DebugCommand

text \<open>
  One turn of the loop. The timer branch is ready when polling the timer says so, and polling
  rearms or disarms it before the handler runs.
\<close>

definition core_handle ::
  "('l, 'c) env \<Rightarrow> ('l, 'c) core \<Rightarrow> ('l, 'c) core_event \<Rightarrow> ('l, 'c) core option" where
  "core_handle env core ev =
     (let state = co_state core; common = co_common core
      in map_option (\<lambda>(state, common). \<lparr>co_state = state, co_common = common\<rparr>)
         (case ev of
            FromCtrl msg \<Rightarrow> handle_ctrl_msg env common state msg
          | FromLink link_id msg \<Rightarrow> handle_link_msg env common state link_id msg
          | TimerReady \<Rightarrow>
              handle_timer env (on_timer (\<lambda>timer. snd (Deadline_poll (en_now env) timer)) common) state
          | FromDebug cmd \<Rightarrow> handle_debug env common state cmd))"

text \<open>When the loop takes an event, and what its source guarantees.\<close>

definition core_enabled :: "('l, 'c) env \<Rightarrow> ('l, 'c) core \<Rightarrow> ('l, 'c) core_event \<Rightarrow> bool" where
  "core_enabled env core ev =
     (case ev of
        FromCtrl (Command (CmdMessage data epoch)) \<Rightarrow> length data \<le> isize_max
      | FromCtrl _ \<Rightarrow> True
      | FromLink link_id msg \<Rightarrow> link_id \<in> set (cs_readers (co_common core)) \<and> valid_proto msg
      | TimerReady \<Rightarrow> fst (Deadline_poll (en_now env) (cs_timer (co_common core)))
      | FromDebug _ \<Rightarrow> True)"

section \<open>Around the task\<close>

definition change_links :: "('l \<Rightarrow> 'l) \<Rightarrow> 'l LinkManager \<Rightarrow> 'l LinkManager" where
  "change_links f lm = lm\<lparr>lm_links := map (\<lambda>e. e\<lparr>le_link := f (le_link e)\<rparr>) (lm_links lm)\<rparr>"

fun links_change :: "('l \<Rightarrow> 'l) \<Rightarrow> ('l, 'c) States \<Rightarrow> ('l, 'c) States" where
  "links_change f (S_EpochMismatch s) = S_EpochMismatch (s\<lparr>em_links := change_links f (em_links s)\<rparr>)"
| "links_change f (S_Connected s) = S_Connected (s\<lparr>cd_links := change_links f (cd_links s)\<rparr>)"
| "links_change f s = s"

fun tasks_turn :: "nat \<Rightarrow> (LinkSetError + 'l) \<Rightarrow> ('l, 'c) States \<Rightarrow> ('l, 'c) States" where
  "tasks_turn n r (S_Connecting s) =
     S_Connecting (s\<lparr>cn_connector := snd (ConnectorManager_turn n r (cn_connector s))\<rparr>)"
| "tasks_turn n r (S_Reconnecting s) =
     S_Reconnecting (s\<lparr>rc_connector := snd (ConnectorManager_turn n r (rc_connector s))\<rparr>)"
| "tasks_turn n r s = s"

text \<open>What the type \<open>u32\<close> of \<open>max_size\<close> says of an implementation of links.\<close>

definition valid_link :: "'l Link \<Rightarrow> bool" where
  "valid_link L = (\<forall>l. li_max_size L l < u32_bound)"

inductive core_step :: "bool \<Rightarrow> ('c \<Rightarrow> rust_string) \<Rightarrow> ('l, 'c) core \<Rightarrow> ('l, 'c) core \<Rightarrow> bool" for oc scheme where
  step_event:
    "en_oc env = oc \<Longrightarrow> en_scheme env = scheme \<Longrightarrow> valid_link (en_link env) \<Longrightarrow> core_enabled env core ev \<Longrightarrow>
     core_handle env core ev = Some core' \<Longrightarrow> core_step oc scheme core core'"
| step_links: "core_step oc scheme core (core\<lparr>co_state := links_change f (co_state core)\<rparr>)"
| step_tasks: "core_step oc scheme core (core\<lparr>co_state := tasks_turn n r (co_state core)\<rparr>)"
| step_reader: "core_step oc scheme core
    (core\<lparr>co_common := (co_common core)\<lparr>cs_readers := removeAll link_id (cs_readers (co_common core))\<rparr>\<rparr>)"

end
