(* ===== verification/Lifecycle.thy ===== *)
theory Lifecycle
  imports Link_Core
begin

text \<open>
  What a user can rely on, whatever a link set goes through. \<open>View\<close> is what is visible of the core:
  the phase it is in, its epoch, the activity flag and the messages it has sent to the user.
  \<open>view_step\<close> is the contract: how these may change together. Every step of the core refines it, so
  the rest of the theory reasons about the contract alone.
\<close>

section \<open>The contract\<close>

datatype phase =
    Ph_Disconnected | Ph_Connecting | Ph_EpochMismatch | Ph_Connected | Ph_Reconnecting | Ph_GracePeriod

datatype view =
  View (vw_phase: phase) (vw_epoch: "Epoch option") (vw_active: bool) (vw_log: "LinkSetMessageInner list")

text \<open>The phases of a session: messages of its epoch are exchanged, or may be again.\<close>

definition in_session :: "phase \<Rightarrow> bool" where
  "in_session p = (p \<in> {Ph_Connected, Ph_Reconnecting, Ph_GracePeriod})"

definition attempting :: "phase \<Rightarrow> bool" where
  "attempting p = (p \<in> {Ph_Connecting, Ph_Reconnecting})"

inductive view_step :: "view \<Rightarrow> view \<Rightarrow> bool" where
  connect: "view_step (View Ph_Disconnected e a l)
    (View Ph_Connecting e a (l @ [InnerAttemptingConnection True]))"
| time_out: "view_step (View Ph_Connecting e a l)
    (View Ph_Disconnected e a (l @ [InnerAttemptingConnection False]))"
| accept: "view_step (View Ph_Disconnected e a l) (View Ph_EpochMismatch e a l)"
| find_link: "view_step (View Ph_Connecting e a l)
    (View Ph_EpochMismatch e a (l @ [InnerAttemptingConnection False]))"
| lose_links: "view_step (View Ph_EpochMismatch e a l)
    (View Ph_Connecting e a (l @ [InnerAttemptingConnection True]))"
| give_up: "view_step (View Ph_EpochMismatch e a l)
    (View Ph_Disconnected (opt_epoch_increment e) a l)"
| agree: "opt_epoch_le e (Some e') \<Longrightarrow> valid_epoch e' \<Longrightarrow> view_step (View Ph_EpochMismatch e a l)
    (View Ph_Connected (Some e') True (l @ [InnerConnected e']))"
| deliver: "in_session p \<Longrightarrow> view_step (View p (Some e) a l) (View p (Some e) a (l @ [InnerMessage m e]))"
| mismatch: "view_step (View Ph_Connected (Some e) a l)
    (View Ph_EpochMismatch (Some (increment e)) False l)"
| close: "view_step (View Ph_Connected (Some e) a l)
    (View Ph_Disconnected (Some (increment e)) False (l @ [InnerDisconnected]))"
| reconnect: "view_step (View Ph_Connected (Some e) a l)
    (View Ph_Reconnecting (Some e) False (l @ [InnerAttemptingConnection True]))"
| wait: "view_step (View Ph_Connected (Some e) a l) (View Ph_GracePeriod (Some e) False l)"
| resume: "view_step (View Ph_Reconnecting (Some e) a l)
    (View Ph_Connected (Some e) True (l @ [InnerAttemptingConnection False]))"
| resume_wait: "view_step (View Ph_GracePeriod (Some e) a l) (View Ph_Connected (Some e) True l)"
| reconnect_failed: "view_step (View Ph_Reconnecting (Some e) a l)
    (View Ph_Disconnected (Some (increment e)) a (l @ [InnerAttemptingConnection False, InnerDisconnected]))"
| reconnect_afresh: "view_step (View Ph_Reconnecting (Some e) a l)
    (View Ph_Connecting (Some (increment e)) a (l @ [InnerDisconnected]))"
| wait_failed: "view_step (View Ph_GracePeriod (Some e) a l)
    (View Ph_Disconnected (Some (increment e)) a (l @ [InnerDisconnected]))"
| wait_afresh: "view_step (View Ph_GracePeriod (Some e) a l)
    (View Ph_Connecting (Some (increment e)) a (l @ [InnerDisconnected, InnerAttemptingConnection True]))"

lemmas view_steps = view_step.intros [THEN reaches_one [of view_step]]

section \<open>The core refines the contract\<close>

fun phase_of :: "('l, 'c) States \<Rightarrow> phase" where
  "phase_of (S_Disconnected _) = Ph_Disconnected"
| "phase_of (S_Connecting _) = Ph_Connecting"
| "phase_of (S_EpochMismatch _) = Ph_EpochMismatch"
| "phase_of (S_Connected _) = Ph_Connected"
| "phase_of (S_Reconnecting _) = Ph_Reconnecting"
| "phase_of (S_GracePeriod _) = Ph_GracePeriod"

fun state_epoch :: "('l, 'c) States \<Rightarrow> Epoch option" where
  "state_epoch (S_Disconnected s) = dc_epoch s"
| "state_epoch (S_Connecting s) = cn_epoch s"
| "state_epoch (S_EpochMismatch s) = em_epoch s"
| "state_epoch (S_Connected s) = Some (cd_epoch s)"
| "state_epoch (S_Reconnecting s) = Some (rc_epoch s)"
| "state_epoch (S_GracePeriod s) = Some (gp_epoch s)"

text \<open>The view of a state and the common state, in the form in which handlers return them.\<close>

definition sees :: "('l, 'c) States \<times> CommonState \<Rightarrow> view" where
  "sees sc = View (phase_of (fst sc)) (state_epoch (fst sc)) (cs_is_active (snd sc)) (cs_to_ctrl (snd sc))"

definition core_view :: "('l, 'c) core \<Rightarrow> view" where
  "core_view core = sees (co_state core, co_common core)"

lemma common_unchanged [simp]:
  "cs_is_active (on_timer f common) = cs_is_active common" "cs_to_ctrl (on_timer f common) = cs_to_ctrl common"
  "cs_is_active (to_ctrl m common) = cs_is_active common"
  "cs_to_ctrl (to_ctrl m common) = cs_to_ctrl common @ [m]"
  "cs_is_active (set_active b common) = b" "cs_to_ctrl (set_active b common) = cs_to_ctrl common"
  "cs_is_active (determine_timer now common) = cs_is_active common"
  "cs_to_ctrl (determine_timer now common) = cs_to_ctrl common"
  "cs_is_active (connected_common now common) = True"
  "cs_to_ctrl (connected_common now common) = cs_to_ctrl common"
  by (simp_all add: on_timer_def to_ctrl_def set_active_def determine_timer_def connected_common_def Let_def
      split: option.split)

lemma wrap_link_common:
  "wrap_link env link common = Some (r, common') \<Longrightarrow>
   cs_is_active common' = cs_is_active common \<and> cs_to_ctrl common' = cs_to_ctrl common"
  by (auto simp: wrap_link_def Let_def split: bind_splits if_splits prod.splits sum.splits)

lemma transitions_refine:
  "reaches view_step (sees (S_Connecting cn, common)) (sees (Disconnected_from_Connecting cn common))"
  "reaches view_step (sees (S_EpochMismatch em, common)) (sees (Disconnected_from_EpochMismatch em common))"
  "reaches view_step (sees (S_Connected cd, common)) (sees (Disconnected_from_Connected cd common))"
  "reaches view_step (sees (S_Reconnecting rc, common)) (sees (Disconnected_from_Reconnecting rc common))"
  "reaches view_step (sees (S_GracePeriod gp, common)) (sees (Disconnected_from_GracePeriod gp common))"
  "reaches view_step (sees (S_Disconnected dc, common)) (sees (Connecting_from_Disconnected env dc common))"
  "reaches view_step (sees (S_Disconnected dc, common)) (sees (Connecting_from_Disconnected_msg env dc common msg))"
  "reaches view_step (sees (S_EpochMismatch em, common)) (sees (Connecting_from_EpochMismatch env em common))"
  "reaches view_step (sees (S_Reconnecting rc, common)) (sees (Connecting_from_Reconnecting env rc common))"
  "reaches view_step (sees (S_GracePeriod gp, common)) (sees (Connecting_from_GracePeriod env gp common))"
  "reaches view_step (sees (S_Disconnected dc, common)) (sees (EpochMismatch_from_Disconnected env dc common link))"
  "reaches view_step (sees (S_Connecting cn, common)) (sees (EpochMismatch_from_Connecting env cn common link))"
  "reaches view_step (sees (S_Connected cd, common)) (sees (EpochMismatch_from_Connected env cd common))"
  "reaches view_step (sees (S_Reconnecting rc, common)) (sees (Connected_from_Reconnecting env rc common link))"
  "reaches view_step (sees (S_GracePeriod gp, common)) (sees (Connected_from_GracePeriod env gp common link))"
  "reaches view_step (sees (S_Connected cd, common)) (sees (Reconnecting_from_Connected env cd common))"
  "reaches view_step (sees (S_Connected cd, common)) (sees (GracePeriod_from_Connected env cd common))"
  by (auto simp: sees_def Let_def case_prod_unfold Disconnected_from_Connecting_def Disconnected_from_EpochMismatch_def
      Disconnected_from_Connected_def Disconnected_from_Reconnecting_def Disconnected_from_GracePeriod_def
      Connecting_from_Disconnected_def Connecting_from_Disconnected_msg_def Connecting_from_EpochMismatch_def
      Connecting_from_Reconnecting_def Connecting_from_GracePeriod_def EpochMismatch_from_Disconnected_def
      EpochMismatch_from_Connecting_def EpochMismatch_from_Connected_def Connected_from_Reconnecting_def
      Connected_from_GracePeriod_def Reconnecting_from_Connected_def GracePeriod_from_Connected_def
      intro: view_steps split: option.split)

lemma sees_links [simp]:
  "sees (S_Connected (cd\<lparr>cd_links := x\<rparr>), common) = sees (S_Connected cd, common)"
  "sees (S_Connected (cd\<lparr>cd_msg_mgr := mm\<rparr>), common) = sees (S_Connected cd, common)"
  "sees (S_Connected (cd\<lparr>cd_conns := cs\<rparr>), common) = sees (S_Connected cd, common)"
  "sees (S_Connected (cd\<lparr>cd_addrs := as\<rparr>), common) = sees (S_Connected cd, common)"
  by (simp_all add: sees_def)

lemma determine_state_refines:
  "reaches view_step (sees (S_Connected s, common)) (sees (determine_state env s common))"
  by (simp add: determine_state_def transitions_refine reaches_refl)

lemma emit_messages_common [simp]:
  "cs_is_active (emit_messages e ms common) = cs_is_active common"
  "cs_to_ctrl (emit_messages e ms common) = cs_to_ctrl common @ map (\<lambda>m. InnerMessage m e) ms"
  by (induction ms arbitrary: common) (simp_all add: emit_messages_def)

lemma deliver_all:
  "in_session p \<Longrightarrow> reaches view_step (View p (Some e) a l) (View p (Some e) a (l @ map (\<lambda>m. InnerMessage m e) ms))"
proof (induction ms rule: rev_induct)
  case (snoc m ms)
  then show ?case
    using deliver [of p e a "l @ map (\<lambda>m. InnerMessage m e) ms" m] by (simp add: reaches_step)
qed (simp add: reaches_refl)

lemma emit_refines:
  assumes "in_session (phase_of st)" "state_epoch st = Some e"
  shows "reaches view_step (sees (st, common)) (sees (st, emit_messages e ms common))"
  using deliver_all [OF assms(1)] assms(2) by (simp add: sees_def)

text \<open>A common state that looks the same to the user, as after \<open>wrap_link\<close>.\<close>

lemma sees_common:
  "cs_is_active common' = cs_is_active common \<Longrightarrow> cs_to_ctrl common' = cs_to_ctrl common \<Longrightarrow>
   sees (st, common') = sees (st, common)"
  by (simp add: sees_def)

lemma after_wrap_link:
  assumes "do { (wrapped, common) \<leftarrow> wrap_link env link common; Some (f wrapped common) } = Some out"
    "\<And>wrapped common'. cs_is_active common' = cs_is_active common \<Longrightarrow> cs_to_ctrl common' = cs_to_ctrl common \<Longrightarrow>
       reaches view_step (sees (st, common')) (sees (f wrapped common'))"
  shows "reaches view_step (sees (st, common)) (sees out)"
proof -
  obtain wrapped common' where w: "wrap_link env link common = Some (wrapped, common')" "out = f wrapped common'"
    using assms(1) by (auto split: bind_splits)
  note same = wrap_link_common [OF w(1)]
  then show ?thesis
    using assms(2) [of common' wrapped] sees_common [of common' common st] w(2) by simp
qed

lemma sees_same [simp]:
  "sees (S_Disconnected (dc\<lparr>dc_conns := conns\<rparr>) :: ('l, 'c) States, common) = sees (S_Disconnected dc :: ('l, 'c) States, common)"
  "sees (S_Disconnected (dc\<lparr>dc_addrs := addrs\<rparr>) :: ('l, 'c) States, common) = sees (S_Disconnected dc :: ('l, 'c) States, common)"
  "sees (S_Connecting (cn\<lparr>cn_connector := connector\<rparr>) :: ('l, 'c) States, common) = sees (S_Connecting cn :: ('l, 'c) States, common)"
  "sees (S_Connecting (cn\<lparr>cn_queued_msgs := msgs\<rparr>) :: ('l, 'c) States, common) = sees (S_Connecting cn :: ('l, 'c) States, common)"
  "sees (S_EpochMismatch (em\<lparr>em_conns := conns\<rparr>) :: ('l, 'c) States, common) = sees (S_EpochMismatch em :: ('l, 'c) States, common)"
  "sees (S_EpochMismatch (em\<lparr>em_addrs := addrs\<rparr>) :: ('l, 'c) States, common) = sees (S_EpochMismatch em :: ('l, 'c) States, common)"
  "sees (S_EpochMismatch (em\<lparr>em_links := links\<rparr>) :: ('l, 'c) States, common) = sees (S_EpochMismatch em :: ('l, 'c) States, common)"
  "sees (S_EpochMismatch (em\<lparr>em_queued_msgs := msgs\<rparr>) :: ('l, 'c) States, common) = sees (S_EpochMismatch em :: ('l, 'c) States, common)"
  "sees (S_Reconnecting (rc\<lparr>rc_connector := connector\<rparr>) :: ('l, 'c) States, common) = sees (S_Reconnecting rc :: ('l, 'c) States, common)"
  "sees (S_Reconnecting (rc\<lparr>rc_msg_mgr := mm\<rparr>) :: ('l, 'c) States, common) = sees (S_Reconnecting rc :: ('l, 'c) States, common)"
  "sees (S_GracePeriod (gp\<lparr>gp_conns := conns\<rparr>) :: ('l, 'c) States, common) = sees (S_GracePeriod gp :: ('l, 'c) States, common)"
  "sees (S_GracePeriod (gp\<lparr>gp_addrs := addrs\<rparr>) :: ('l, 'c) States, common) = sees (S_GracePeriod gp :: ('l, 'c) States, common)"
  "sees (S_GracePeriod (gp\<lparr>gp_msg_mgr := mm\<rparr>) :: ('l, 'c) States, common) = sees (S_GracePeriod gp :: ('l, 'c) States, common)"
  by (simp_all add: sees_def)

lemma Disconnected_ctrl_refines:
  fixes env :: "('l, 'c) env"
  shows "Disconnected_ctrl_msg env s common cmd = Some out \<Longrightarrow>
    reaches view_step (sees (S_Disconnected s :: ('l, 'c) States, common)) (sees out)"
proof (cases cmd)
  case (CmdAddLink link)
  assume "Disconnected_ctrl_msg env s common cmd = Some out"
  then show ?thesis
    unfolding CmdAddLink Disconnected_ctrl_msg.simps
    by (rule after_wrap_link) (auto split: sum.split intro: transitions_refine reaches_refl)
qed (auto intro: transitions_refine reaches_refl split: if_splits)

lemma Connecting_ctrl_refines:
  fixes env :: "('l, 'c) env"
  shows "Connecting_ctrl_msg env s common cmd = Some out \<Longrightarrow>
    reaches view_step (sees (S_Connecting s :: ('l, 'c) States, common)) (sees out)"
proof (cases cmd)
  case (CmdAddLink link)
  assume "Connecting_ctrl_msg env s common cmd = Some out"
  then show ?thesis
    unfolding CmdAddLink Connecting_ctrl_msg.simps
    by (rule after_wrap_link) (auto split: sum.split intro: transitions_refine reaches_refl)
qed (auto intro: transitions_refine reaches_refl split: if_splits bind_splits)

lemma EpochMismatch_ctrl_refines:
  "EpochMismatch_ctrl_msg env s common cmd = Some out \<Longrightarrow>
   reaches view_step (sees (S_EpochMismatch s, common)) (sees out)"
proof (cases cmd)
  case (CmdAddLink link)
  assume "EpochMismatch_ctrl_msg env s common cmd = Some out"
  then show ?thesis
    unfolding CmdAddLink EpochMismatch_ctrl_msg.simps
    by (rule after_wrap_link) (auto split: sum.split intro: reaches_refl)
qed (auto intro: transitions_refine reaches_refl split: if_splits)

lemma Connected_ctrl_refines:
  "Connected_ctrl_msg env s common cmd = Some out \<Longrightarrow>
   reaches view_step (sees (S_Connected s, common)) (sees out)"
proof (cases cmd)
  case (CmdAddLink link)
  assume "Connected_ctrl_msg env s common cmd = Some out"
  then show ?thesis
    unfolding CmdAddLink Connected_ctrl_msg.simps
    by (rule after_wrap_link) (auto split: sum.split intro: reaches_refl)
next
  case (CmdMessage msg epoch)
  assume "Connected_ctrl_msg env s common cmd = Some out"
  with CmdMessage consider "out = (S_Connected s, common)"
    | mm links where "out = determine_state env (s\<lparr>cd_msg_mgr := mm, cd_links := links\<rparr>) common"
    by (auto split: if_splits bind_splits)
  then show ?thesis
  proof cases
    case (2 mm links)
    then show ?thesis
      using determine_state_refines [of "s\<lparr>cd_msg_mgr := mm, cd_links := links\<rparr>" common env] by simp
  qed (simp add: reaches_refl)
qed (auto intro: transitions_refine reaches_refl)

lemma Reconnecting_ctrl_refines:
  fixes env :: "('l, 'c) env"
  shows "Reconnecting_ctrl_msg env s common cmd = Some out \<Longrightarrow>
    reaches view_step (sees (S_Reconnecting s :: ('l, 'c) States, common)) (sees out)"
proof (cases cmd)
  case (CmdAddLink link)
  assume "Reconnecting_ctrl_msg env s common cmd = Some out"
  then show ?thesis
    unfolding CmdAddLink Reconnecting_ctrl_msg.simps
    by (rule after_wrap_link) (auto split: sum.split intro: transitions_refine reaches_refl)
qed (auto intro: transitions_refine reaches_refl split: if_splits bind_splits)

lemma GracePeriod_ctrl_refines:
  fixes env :: "('l, 'c) env"
  shows "GracePeriod_ctrl_msg env s common cmd = Some out \<Longrightarrow>
    reaches view_step (sees (S_GracePeriod s :: ('l, 'c) States, common)) (sees out)"
proof (cases cmd)
  case (CmdAddLink link)
  assume "GracePeriod_ctrl_msg env s common cmd = Some out"
  then show ?thesis
    unfolding CmdAddLink GracePeriod_ctrl_msg.simps
    by (rule after_wrap_link) (auto split: sum.split intro: transitions_refine reaches_refl)
qed (auto intro: transitions_refine reaches_refl split: if_splits bind_splits)

lemma States_ctrl_refines:
  "States_ctrl_msg env st common cmd = Some out \<Longrightarrow> reaches view_step (sees (st, common)) (sees out)"
  by (cases st)
     (simp_all add: Disconnected_ctrl_refines Connecting_ctrl_refines EpochMismatch_ctrl_refines
      Connected_ctrl_refines Reconnecting_ctrl_refines GracePeriod_ctrl_refines)

lemma EpochMismatch_reset_refines:
  assumes "EpochMismatch_reset env s common epoch request = Some out" "valid_opt_epoch epoch"
  shows "reaches view_step (sees (S_EpochMismatch s, common)) (sees out)"
proof (cases "compare_epochs (em_epoch s) epoch")
  case Less
  let ?e = "case epoch of Some e \<Rightarrow> e | None \<Rightarrow> Epoch_ONE"
  let ?s = "s\<lparr>em_epoch := epoch, em_links := snd (links_reset (en_link env) (Some ?e) False (em_links s))\<rparr>"
  have out: "Connected_from_EpochMismatch env ?s common ?e = Some out"
    using assms(1) Less by (simp add: EpochMismatch_reset_def Let_def)
  have "valid_epoch ?e"
    using assms(2) by (auto simp: valid_opt_epoch_def split: option.split)
  moreover have "opt_epoch_le (em_epoch s) (Some ?e)"
    using Less by (auto simp: compare_epochs_Less split: option.split)
  ultimately show ?thesis
    using out view_steps(7) [of "em_epoch s" ?e]
    by (auto simp: Connected_from_EpochMismatch_def sees_def Let_def split: bind_splits)
next
  case Equal
  then obtain e where e: "em_epoch s = Some e" "epoch = Some e"
    by (auto simp: compare_epochs_Equal)
  then have "valid_epoch e" using assms(2) by (simp add: valid_opt_epoch_def)
  then show ?thesis
    using assms(1) Equal e view_steps(7) [of "em_epoch s" e]
    by (auto simp: EpochMismatch_reset_def Connected_from_EpochMismatch_def sees_def Let_def split: bind_splits if_splits)
next
  case Greater
  then show ?thesis
    using assms(1) by (auto simp: EpochMismatch_reset_def Let_def reaches_refl)
qed

lemma Connected_link_refines:
  assumes "Connected_link_msg env s common link_id msg = Some out"
  shows "reaches view_step (sees (S_Connected s, common)) (sees out)"
proof (cases msg)
  case (Reset epoch request)
  have "reaches view_step (sees (S_Connected s, common)) (sees (determine_state env (s\<lparr>cd_links := links\<rparr>) common))" for links
    using determine_state_refines [of "s\<lparr>cd_links := links\<rparr>" common env] by simp
  with Reset assms show ?thesis
    by (auto intro: transitions_refine reaches_refl split: if_splits)
next
  case (MsgSlice epoch seq seq_len first_index data)
  with assms consider "out = (S_Connected s, common)"
    | msgs s' where "out = determine_state env s' (emit_messages (cd_epoch s) msgs common)"
        "\<And>common. sees (S_Connected s', common) = sees (S_Connected s, common)"
    by (auto simp: Let_def split: if_splits bind_splits)
  then show ?thesis
  proof cases
    case (2 msgs s')
    have "reaches view_step (sees (S_Connected s, common)) (sees (S_Connected s', emit_messages (cd_epoch s) msgs common))"
      unfolding 2 by (rule emit_refines) (simp_all add: in_session_def)
    with determine_state_refines [of s' "emit_messages (cd_epoch s) msgs common" env] 2(1) show ?thesis
      by (simp add: reaches_trans)
  qed (simp add: reaches_refl)
qed (use assms in \<open>auto simp: reaches_refl split: bind_splits\<close>)

lemma Connected_timer_refines:
  assumes "Connected_timer env s common = Some out"
  shows "reaches view_step (sees (S_Connected s, common)) (sees out)"
proof -
  obtain links where "out = determine_state env (s\<lparr>cd_links := links\<rparr>) common"
    using assms by (auto simp: Connected_timer_def Let_def split: bind_splits)
  then show ?thesis
    using determine_state_refines [of "s\<lparr>cd_links := links\<rparr>" common env] by simp
qed

lemma Reconnecting_link_refines:
  fixes env :: "('l, 'c) env"
  assumes "Reconnecting_link_msg env s common link_id msg = Some out"
  shows "reaches view_step (sees (S_Reconnecting s :: ('l, 'c) States, common)) (sees out)"
proof (cases msg)
  case (MsgSlice epoch seq seq_len first_index data)
  with assms consider "out = (S_Reconnecting s, common)"
    | msgs mm where "out = (S_Reconnecting (s\<lparr>rc_msg_mgr := mm\<rparr>), emit_messages (rc_epoch s) msgs common)"
    by (auto simp: Let_def split: if_splits bind_splits)
  then show ?thesis
    using emit_refines [of "S_Reconnecting s :: ('l, 'c) States"]
    by cases (simp_all add: reaches_refl in_session_def)
qed (use assms in \<open>auto intro: transitions_refine reaches_refl split: bind_splits if_splits\<close>)

lemma GracePeriod_link_refines:
  fixes env :: "('l, 'c) env"
  assumes "GracePeriod_link_msg env s common link_id msg = Some out"
  shows "reaches view_step (sees (S_GracePeriod s :: ('l, 'c) States, common)) (sees out)"
proof (cases msg)
  case (MsgSlice epoch seq seq_len first_index data)
  with assms consider "out = (S_GracePeriod s, common)"
    | msgs mm where "out = (S_GracePeriod (s\<lparr>gp_msg_mgr := mm\<rparr>), emit_messages (gp_epoch s) msgs common)"
    by (auto simp: Let_def split: if_splits bind_splits)
  then show ?thesis
    using emit_refines [of "S_GracePeriod s :: ('l, 'c) States"]
    by cases (simp_all add: reaches_refl in_session_def)
qed (use assms in \<open>auto intro: transitions_refine reaches_refl split: bind_splits if_splits\<close>)

lemma EpochMismatch_link_refines:
  assumes "EpochMismatch_link_msg env s common link_id msg = Some out" "valid_proto msg"
  shows "reaches view_step (sees (S_EpochMismatch s, common)) (sees out)"
proof (cases msg)
  case (Reset epoch request)
  then show ?thesis
    using assms by (auto intro: EpochMismatch_reset_refines)
qed (use assms in \<open>auto simp: reaches_refl\<close>)

lemma handle_link_refines:
  assumes "handle_link_msg env common st link_id msg = Some out" "valid_proto msg"
  shows "reaches view_step (sees (st, common)) (sees out)"
proof (cases st)
  case (S_Disconnected s)
  then show ?thesis
    using assms(1) by (auto simp: Disconnected_link_msg_def sees_def reaches_refl)
next
  case (S_Connecting s)
  then show ?thesis
    using assms(1) by (auto simp: Connecting_link_msg_def reaches_refl)
qed (use assms in \<open>simp_all add: EpochMismatch_link_refines Connected_link_refines Reconnecting_link_refines
      GracePeriod_link_refines\<close>)

lemma sees_on_timer [simp]: "sees (st, on_timer f common) = sees (st, common)"
  by (simp add: sees_def)

lemma handle_timer_refines:
  fixes env :: "('l, 'c) env"
  assumes "handle_timer env common st = Some out"
  shows "reaches view_step (sees (st, common)) (sees out)"
proof (cases st)
  case (S_Disconnected s)
  then show ?thesis
    using assms by (auto simp: Disconnected_timer_def reaches_refl)
next
  case (S_Connecting s)
  have "reaches view_step (sees (S_Connecting s :: ('l, 'c) States, on_timer Deadline_clear common))
      (sees (Disconnected_from_Connecting s (on_timer Deadline_clear common) :: ('l, 'c) States \<times> CommonState))"
    by (rule transitions_refine)
  with S_Connecting show ?thesis
    using assms by (simp add: Connecting_timer_def)
next
  case (S_EpochMismatch s)
  have "sees (S_EpochMismatch (s\<lparr>em_links := links\<rparr>), common) = sees (S_EpochMismatch s, common)" for links
    by simp
  with S_EpochMismatch show ?thesis
    using assms transitions_refine(8) [of "s\<lparr>em_links := _\<rparr>" common env]
      transitions_refine(2) [of "s\<lparr>em_links := _\<rparr>" common]
    by (auto simp: EpochMismatch_timer_def Let_def reaches_refl split: if_splits)
next
  case (S_Reconnecting s)
  then show ?thesis
    using assms by (auto simp: Reconnecting_timer_def intro: transitions_refine split: if_splits)
next
  case (S_GracePeriod s)
  then show ?thesis
    using assms by (auto simp: GracePeriod_timer_def intro: transitions_refine split: if_splits)
qed (use assms in \<open>simp add: Connected_timer_refines\<close>)

lemma States_debug_sees: "sees (snd (States_debug env st cmd), common) = sees (st, common)"
  by (cases st; cases cmd) (simp_all add: Let_def case_prod_unfold)

lemma sees_set_config [simp]: "sees (st, set_config conf common) = sees (st, common)"
  by (cases conf) (simp_all add: sees_def)

lemma core_handle_refines:
  assumes "core_handle env core ev = Some core'" "core_enabled env core ev"
  shows "reaches view_step (core_view core) (core_view core')"
proof -
  obtain st common where core': "core' = \<lparr>co_state = st, co_common = common\<rparr>"
    by (cases core')
  show ?thesis
  proof (cases ev)
    case (FromCtrl msg)
    then show ?thesis
      using assms(1) core'
      by (cases msg) (auto simp: core_handle_def core_view_def Let_def reaches_refl intro: States_ctrl_refines)
  next
    case (FromLink link_id msg)
    then show ?thesis
      using assms core' by (auto simp: core_handle_def core_view_def core_enabled_def Let_def intro: handle_link_refines)
  next
    case TimerReady
    then show ?thesis
      using assms(1) core' handle_timer_refines
        [of env "on_timer (\<lambda>timer. snd (Deadline_poll (en_now env) timer)) (co_common core)" "co_state core" "(st, common)"]
      by (auto simp: core_handle_def core_view_def Let_def)
  next
    case (FromDebug cmd)
    then show ?thesis
      using assms(1) core'
      by (auto simp: core_handle_def core_view_def handle_debug_def States_debug_sees Let_def reaches_refl)
  qed
qed

lemma links_change_sees: "sees (links_change f st, common) = sees (st, common)"
  by (cases st) simp_all

lemma tasks_turn_sees: "sees (tasks_turn n r st, common) = sees (st, common)"
  by (cases st) simp_all

definition core_initial :: "('l, 'c) core \<Rightarrow> bool" where
  "core_initial core = (core = core_new)"

definition view_initial :: "view \<Rightarrow> bool" where
  "view_initial v = (v = View Ph_Disconnected None False [])"

lemma core_new_view: "core_view core_new = View Ph_Disconnected None False []"
  by (simp add: core_view_def sees_def core_new_def States_new_def Disconnected_new_def CommonState_new_def)

lemma core_step_refines:
  assumes "core_step oc scheme core core'"
  shows "reaches view_step (core_view core) (core_view core')"
  using assms
proof (cases rule: core_step.cases)
  case (step_event env ev)
  then show ?thesis by (auto intro: core_handle_refines)
next
  case (step_reader link_id)
  then show ?thesis by (simp add: core_view_def sees_def reaches_refl)
qed (simp_all add: core_view_def links_change_sees tasks_turn_sees reaches_refl)

interpretation core_ref: machine_refinement core_initial "core_step oc scheme" view_initial view_step core_view
  by unfold_locales (simp_all add: core_initial_def view_initial_def core_new_view core_step_refines)

section \<open>What the messages tell the user\<close>

text \<open>
  Whether a connection is being attempted (no two announcements of the same kind in a row), and the
  epoch of the session, in which alone messages arrive. \<open>None\<close> is a sequence that breaks these rules.
\<close>

fun attempt_status :: "bool \<Rightarrow> LinkSetMessageInner list \<Rightarrow> bool option" where
  "attempt_status b [] = Some b"
| "attempt_status b (InnerAttemptingConnection b' # ms) = (if b = b' then None else attempt_status b' ms)"
| "attempt_status b (_ # ms) = attempt_status b ms"

fun user_epoch :: "Epoch option \<Rightarrow> LinkSetMessageInner list \<Rightarrow> Epoch option option" where
  "user_epoch e [] = Some e"
| "user_epoch e (InnerConnected e' # ms) = user_epoch (Some e') ms"
| "user_epoch e (InnerDisconnected # ms) = user_epoch None ms"
| "user_epoch e (InnerMessage _ e' # ms) = (if e = Some e' then user_epoch e ms else None)"
| "user_epoch e (InnerAttemptingConnection _ # ms) = user_epoch e ms"

fun connected_epochs :: "LinkSetMessageInner list \<Rightarrow> Epoch list" where
  "connected_epochs [] = []"
| "connected_epochs (InnerConnected e # ms) = e # connected_epochs ms"
| "connected_epochs (_ # ms) = connected_epochs ms"

lemma attempt_status_append [simp]:
  "attempt_status b (l @ l') = Option.bind (attempt_status b l) (\<lambda>b. attempt_status b l')"
  by (induction b l rule: attempt_status.induct) simp_all

lemma user_epoch_append [simp]:
  "user_epoch e (l @ l') = Option.bind (user_epoch e l) (\<lambda>e. user_epoch e l')"
  by (induction e l rule: user_epoch.induct) simp_all

lemma connected_epochs_append [simp]: "connected_epochs (l @ l') = connected_epochs l @ connected_epochs l'"
  by (induction l rule: connected_epochs.induct) simp_all

definition Epoch_MAX :: Epoch where
  "Epoch_MAX = Epoch (u64_bound - 1)"

text \<open>Strictly smaller, but for the largest epoch, at which incrementing stops.\<close>

definition epoch_before :: "Epoch \<Rightarrow> Epoch \<Rightarrow> bool" where
  "epoch_before a b = (a < b \<or> a = Epoch_MAX)"

lemma epoch_before_increment: "valid_epoch e \<Longrightarrow> epoch_before e (increment e)"
  using increment_gt [of e] by (cases e) (auto simp: epoch_before_def Epoch_MAX_def)

lemma epoch_before_le: "epoch_before a b \<Longrightarrow> b \<le> c \<Longrightarrow> epoch_before a c"
  by (auto simp: epoch_before_def)

lemma epoch_before_later: "epoch_before a b \<Longrightarrow> valid_epoch b \<Longrightarrow> epoch_before a (increment b)"
  by (rule epoch_before_le [OF _ increment_ge])

section \<open>The invariant of the contract\<close>

definition all_before :: "LinkSetMessageInner list \<Rightarrow> Epoch option \<Rightarrow> bool" where
  "all_before l epoch =
     (\<forall>a \<in> set (connected_epochs l). case epoch of Some e \<Rightarrow> epoch_before a e | None \<Rightarrow> False)"

definition session_log :: "LinkSetMessageInner list \<Rightarrow> Epoch option \<Rightarrow> bool" where
  "session_log l epoch =
     (case epoch of
        Some e \<Rightarrow> user_epoch None l = Some (Some e) \<and> (\<exists>es. connected_epochs l = es @ [e])
      | None \<Rightarrow> False)"

definition view_ok :: "view \<Rightarrow> bool" where
  "view_ok v =
     (valid_opt_epoch (vw_epoch v) \<and> vw_active v = (vw_phase v = Ph_Connected) \<and>
      attempt_status False (vw_log v) = Some (attempting (vw_phase v)) \<and>
      sorted_wrt epoch_before (connected_epochs (vw_log v)) \<and>
      user_epoch None (vw_log v) \<noteq> None \<and>
      (if in_session (vw_phase v) then session_log (vw_log v) (vw_epoch v)
       else all_before (vw_log v) (vw_epoch v)))"

lemma view_ok_new: "view_ok (View Ph_Disconnected None False [])"
  by (simp add: view_ok_def valid_opt_epoch_def attempting_def in_session_def all_before_def)

lemma session_all_before:
  "connected_epochs l = es @ [e] \<Longrightarrow> sorted_wrt epoch_before (es @ [e]) \<Longrightarrow> valid_epoch e \<Longrightarrow>
   all_before l (Some (increment e))"
  by (auto simp: all_before_def sorted_wrt_append epoch_before_increment intro: epoch_before_later)

lemma all_before_agree:
  assumes "all_before l e" "opt_epoch_le e (Some e')"
  shows "\<forall>a \<in> set (connected_epochs l). epoch_before a e'"
  using assms by (cases e) (auto simp: all_before_def intro: epoch_before_le)

lemma all_before_increment: "all_before l e \<Longrightarrow> valid_opt_epoch e \<Longrightarrow> all_before l (opt_epoch_increment e)"
  by (auto simp: all_before_def opt_epoch_increment_def valid_opt_epoch_def split: option.splits
      intro: epoch_before_later)

lemma valid_opt_increment: "valid_opt_epoch e \<Longrightarrow> valid_opt_epoch (opt_epoch_increment e)"
  by (auto simp: opt_epoch_increment_def valid_opt_epoch_def valid_increment split: option.splits)

lemma log_append [simp]:
  "connected_epochs ms = [] \<Longrightarrow> all_before (l @ ms) e = all_before l e"
  by (simp add: all_before_def)

lemma view_ok_step:
  assumes "view_ok v" "view_step v w"
  shows "view_ok w"
  using assms(2,1)
proof (cases rule: view_step.cases)
  case (agree e e' a l)
  then show ?thesis
    using assms(1) all_before_agree [of l e e']
    by (auto simp: view_ok_def in_session_def attempting_def session_log_def valid_opt_epoch_def sorted_wrt_append)
next
  case (give_up e a l)
  then show ?thesis
    using assms(1) by (simp add: view_ok_def in_session_def attempting_def all_before_increment valid_opt_increment)
next
  case (deliver p e a l m)
  then show ?thesis
    using assms(1) by (auto simp: view_ok_def session_log_def)
qed (use assms(1) in \<open>auto simp: view_ok_def in_session_def attempting_def session_log_def valid_opt_epoch_def
        valid_increment intro: session_all_before\<close>)

lemma increment_opt_ge: "valid_opt_epoch e \<Longrightarrow> opt_epoch_le e (opt_epoch_increment e)"
  by (cases e) (simp_all add: opt_epoch_increment_def valid_opt_epoch_def increment_ge)

lemma view_step_epoch: "view_ok v \<Longrightarrow> view_step v w \<Longrightarrow> opt_epoch_le (vw_epoch v) (vw_epoch w)"
  by (erule view_step.cases) (auto simp: view_ok_def valid_opt_epoch_def increment_ge increment_opt_ge)

interpretation views: machine_order view_initial view_step view_ok "\<lambda>v w. opt_epoch_le (vw_epoch v) (vw_epoch w)"
  by unfold_locales
     (auto simp: view_initial_def view_ok_new intro: view_ok_step view_step_epoch opt_epoch_le_trans)

lemma core_view_ok:
  assumes "reaches (core_step oc scheme) core_new core"
  shows "view_ok (core_view core)"
  using views.inv_reaches [OF core_ref.view_reaches [OF assms]] by (simp add: core_new_view view_ok_new)

section \<open>Runs\<close>

text \<open>A run of the loop over a list of events, each with the instant at which it is taken.\<close>

fun core_run :: "('l, 'c) env \<Rightarrow> ('l, 'c) core \<Rightarrow> (Instant \<times> ('l, 'c) core_event) list \<Rightarrow> ('l, 'c) core option" where
  "core_run env core [] = Some core"
| "core_run env core ((now, ev) # evs) =
     (if core_enabled (env\<lparr>en_now := now\<rparr>) core ev
      then do { core \<leftarrow> core_handle (env\<lparr>en_now := now\<rparr>) core ev; core_run env core evs }
      else None)"

lemma core_run_reaches:
  assumes "valid_link (en_link env)"
  shows "core_run env core evs = Some core' \<Longrightarrow> reaches (core_step (en_oc env) (en_scheme env)) core core'"
proof (induction evs arbitrary: core)
  case (Cons e evs)
  obtain now ev where e: "e = (now, ev)" by (cases e)
  let ?env = "env\<lparr>en_now := now\<rparr>"
  obtain c where c: "core_enabled ?env core ev" "core_handle ?env core ev = Some c" "core_run env c evs = Some core'"
    using Cons.prems e by (auto split: if_splits bind_splits)
  have "core_step (en_oc env) (en_scheme env) core c"
    by (rule step_event [of ?env]) (use c assms in simp_all)
  with Cons.IH [OF c(3)] show ?case
    by (blast intro: reaches_trans reaches_one)
qed (simp add: reaches_refl)

definition example_link :: "u32 \<Rightarrow> unit Link" where
  "example_link n =
     \<lparr>li_scheme = (\<lambda>_. []), li_send = (\<lambda>l _. (Inr (), l)), li_recv = (\<lambda>l. (Inr [], l)),
      li_take_reader = (\<lambda>l. (Inr (), l)), li_max_size = (\<lambda>_. n), li_is_closed = (\<lambda>l. (False, l))\<rparr>"

definition example_env :: "(unit, unit) env" where
  "example_env = \<lparr>en_oc = True, en_link = example_link 100, en_scheme = (\<lambda>_. []), en_now = 0\<rparr>"

text \<open>A link is added, the other side asks for a connection, and sends a message of two bytes.\<close>

definition example_events :: "(Instant \<times> (unit, unit) core_event) list" where
  "example_events =
     [(1, FromCtrl (Command (CmdAddLink ()))), (2, FromLink 0 (Reset None True)),
      (3, FromLink 0 (MsgSlice 1 0 2 0 [7, 8]))]"

lemmas core_eval = core_new_def core_handle_def core_enabled_def States_new_def Disconnected_new_def CommonState_new_def
  example_env_def example_link_def wrap_link_def LinkEntry_take_reader_def pinned_take_reader_def map_err_def
  EpochMismatch_from_Disconnected_def add_link_def LinkManager_new_def ping_all_def send_ping_def
  LinkEntry_end_ping_def LinkEntry_send_def pinned_send_def links_reset_def send_proto_def unusable_def
  LinkEntry_is_closed_def LinkEntry_latency_def LinkEntry_new_def HISTORY_LEN_def DEFAULT_LATENCY_def MAX_LATENCY_def
  OVERHEAD_def add_u64_def on_timer_def deadline_defs EPOCH_MISMATCH_TIMER_INTERVAL_def EpochMismatch_reset_def
  compare_epochs_def Connected_from_EpochMismatch_def connected_common_def CONNECTED_TIMER_INTERVAL_def to_ctrl_def
  set_active_def Epoch_ONE_def valid_opt_epoch_def links_ack_def determine_state_def LinkManager_is_empty_def
  emit_messages_def EpochMismatch_from_Connected_def Disconnected_from_EpochMismatch_def opt_epoch_increment_def
  increment_def saturating_add_u64_def sum_list_replicate message_eval

lemma example_run:
  obtains core where "core_run example_env core_new example_events = Some core"
    "phase_of (co_state core) = Ph_Connected" "state_epoch (co_state core) = Some Epoch_ONE"
    "cs_to_ctrl (co_common core) = [InnerConnected Epoch_ONE, InnerMessage [7, 8] Epoch_ONE]"
    "cs_is_active (co_common core)"
  by (simp add: example_events_def core_eval)

lemma example_run_reaches:
  "core_run example_env core evs = Some core' \<Longrightarrow> reaches (core_step True (\<lambda>_. [])) core core'"
  using core_run_reaches [of example_env core evs core'] by (simp add: example_env_def example_link_def valid_link_def)

section \<open>Properties\<close>

text \<open>
  C4: whatever commands, link messages, timer events and debug requests arrive in whatever order,
  and however links, readers and connection tasks behave, every run of the core, as far as the user
  can see it, is a run of the contract: the six phases change only along its arrows, with exactly
  the epochs, the activity flag and the messages to the user that belong to each arrow.
\<close>

theorem core_refines_contract:
  assumes "reaches (core_step oc scheme) core core'"
  shows "reaches view_step (core_view core) (core_view core')"
  using assms by (rule core_ref.view_reaches)

lemma core_refines_contract_witness:
  "reaches view_step (View Ph_Disconnected None False [])
     (View Ph_Connected (Some Epoch_ONE) True [InnerConnected Epoch_ONE, InnerMessage [7, 8] Epoch_ONE])"
proof -
  obtain core where run: "core_run example_env core_new example_events = Some core"
    "phase_of (co_state core) = Ph_Connected" "state_epoch (co_state core) = Some Epoch_ONE"
    "cs_to_ctrl (co_common core) = [InnerConnected Epoch_ONE, InnerMessage [7, 8] Epoch_ONE]"
    "cs_is_active (co_common core)"
    by (rule example_run)
  have "core_view core =
      View Ph_Connected (Some Epoch_ONE) True [InnerConnected Epoch_ONE, InnerMessage [7, 8] Epoch_ONE]"
    using run(2-) by (simp add: core_view_def sees_def)
  then show ?thesis
    using core_refines_contract [OF example_run_reaches [OF run(1)]] by (simp add: core_new_view)
qed





text \<open>
  The epoch of a core never goes back, from any reachable state to any later one.
\<close>

theorem epoch_never_decreases:
  assumes "reaches (core_step oc scheme) core_new core" "reaches (core_step oc scheme) core core'"
  shows "opt_epoch_le (state_epoch (co_state core)) (state_epoch (co_state core'))"
  using views.le_reaches [OF core_ref.view_reaches [OF assms(2)] core_view_ok [OF assms(1)]]
  by (simp add: core_view_def sees_def)

lemma epoch_never_decreases_witness:
  "\<exists>core. reaches (core_step True (\<lambda>_. [])) core_new (core :: (unit, unit) core) \<and>
     state_epoch (co_state core) = Some Epoch_ONE \<and>
     opt_epoch_le (state_epoch (co_state (core_new :: (unit, unit) core))) (state_epoch (co_state core))"
proof -
  obtain core where run: "core_run example_env core_new example_events = Some core"
    "state_epoch (co_state core) = Some Epoch_ONE"
    using example_run by blast
  note r = example_run_reaches [OF run(1)]
  show ?thesis
    by (rule exI [of _ core]) (intro conjI r run(2) epoch_never_decreases [OF reaches_refl r])
qed


end
