(* ===== verification/Core_Safety.thy ===== *)
theory Core_Safety
  imports Lifecycle
begin

text \<open>
  What holds inside the core, whatever happens to it: its timer is armed when it has to be, its
  connection tasks are current, its message manager can always be asked for slices, and its handlers
  return.
\<close>

section \<open>The invariant\<close>

definition mgr_ok :: "Epoch \<Rightarrow> MessageManager \<Rightarrow> bool" where
  "mgr_ok epoch mm = (mm_epoch mm = epoch \<and> out_ok mm \<and> drained mm)"

definition msgs_ok :: "bytes list \<Rightarrow> bool" where
  "msgs_ok msgs = (\<forall>m \<in> set msgs. length m \<le> isize_max)"

fun state_ok :: "('l, 'c) States \<Rightarrow> bool" where
  "state_ok (S_Disconnected s) = distinct_addrs (dc_addrs s)"
| "state_ok (S_Connecting s) = (tasks_current (cn_connector s) \<and> msgs_ok (cn_queued_msgs s))"
| "state_ok (S_EpochMismatch s) = (distinct_addrs (em_addrs s) \<and> msgs_ok (em_queued_msgs s))"
| "state_ok (S_Connected s) = (distinct_addrs (cd_addrs s) \<and> mgr_ok (cd_epoch s) (cd_msg_mgr s))"
| "state_ok (S_Reconnecting s) = (tasks_current (rc_connector s) \<and> mgr_ok (rc_epoch s) (rc_msg_mgr s))"
| "state_ok (S_GracePeriod s) = (distinct_addrs (gp_addrs s) \<and> mgr_ok (gp_epoch s) (gp_msg_mgr s))"

text \<open>
  The timer in each state. A reconnection or a grace period ends with the first timer event, or
  never; the repeat interval of \<open>Connected\<close> is left in place there.
\<close>

fun timer_ok :: "phase \<Rightarrow> Deadline \<Rightarrow> bool" where
  "timer_ok Ph_Disconnected dl = (dl = Deadline_new)"
| "timer_ok Ph_Connecting dl = (dl_repeat dl = None)"
| "timer_ok Ph_EpochMismatch dl = armed_every EPOCH_MISMATCH_TIMER_INTERVAL dl"
| "timer_ok Ph_Connected dl = armed_every CONNECTED_TIMER_INTERVAL dl"
| "timer_ok Ph_Reconnecting dl = (dl = Deadline_new \<or> armed_every CONNECTED_TIMER_INTERVAL dl)"
| "timer_ok Ph_GracePeriod dl = (dl = Deadline_new \<or> armed_every CONNECTED_TIMER_INTERVAL dl)"

definition outcome_ok :: "('l, 'c) States \<times> CommonState \<Rightarrow> bool" where
  "outcome_ok sc = (state_ok (fst sc) \<and> timer_ok (phase_of (fst sc)) (cs_timer (snd sc)))"

definition core_ok :: "('l, 'c) core \<Rightarrow> bool" where
  "core_ok core = outcome_ok (co_state core, co_common core)"

text \<open>A handler returns, and what it returns satisfies the invariant.\<close>

definition succeeds :: "('l, 'c) outcome \<Rightarrow> bool" where
  "succeeds r = (\<exists>out. r = Some out \<and> outcome_ok out)"

lemma succeeds_Some [simp]: "succeeds (Some out) = outcome_ok out"
  by (simp add: succeeds_def)

section \<open>Transitions\<close>

lemma timer_of_common [simp]:
  "cs_timer (to_ctrl m common) = cs_timer common" "cs_timer (set_active b common) = cs_timer common"
  "cs_timer (on_timer f common) = f (cs_timer common)"
  "cs_timer (emit_messages e ms common) = cs_timer common"
  "armed_every CONNECTED_TIMER_INTERVAL (cs_timer (connected_common now common))"
  "dl_repeat (cs_timer (determine_timer now common)) = None"
  "cs_timer (set_config conf common) = cs_timer common"
proof -
  show "cs_timer (emit_messages e ms common) = cs_timer common"
    by (induction ms arbitrary: common) (simp_all add: emit_messages_def to_ctrl_def)
  show "cs_timer (set_config conf common) = cs_timer common"
    by (cases conf) simp_all
qed (simp_all add: to_ctrl_def set_active_def on_timer_def connected_common_def determine_timer_def deadline_defs
    armed_every_def split: option.split)

lemma armed_modify_deadline:
  "armed_every d dl \<Longrightarrow> armed_every d (modify_deadline_from_now now t dl)"
  by (simp add: armed_every_def deadline_defs)

lemma poll_new: "snd (Deadline_poll now Deadline_new) = Deadline_new"
  by (simp add: Deadline_poll_def Deadline_new_def)

lemma poll_repeat: "dl_repeat (snd (Deadline_poll now dl)) = dl_repeat dl"
  by (simp add: Deadline_poll_def split: option.split)

lemma timer_ok_poll: "timer_ok p dl \<Longrightarrow> timer_ok p (snd (Deadline_poll now dl))"
  by (cases p) (auto simp: armed_every_poll poll_new poll_repeat)

lemma cancelled: "tasks_current cm \<Longrightarrow> ConnectorManager_cancel cm = (conns, addrs) \<Longrightarrow> distinct_addrs addrs"
  using distinct_cancel [of cm] by simp

lemmas transition_defs = Let_def case_prod_unfold Disconnected_from_Connecting_def
  Disconnected_from_EpochMismatch_def Disconnected_from_Connected_def Disconnected_from_Reconnecting_def
  Disconnected_from_GracePeriod_def Connecting_from_Disconnected_def Connecting_from_Disconnected_msg_def
  Connecting_from_EpochMismatch_def Connecting_from_Reconnecting_def Connecting_from_GracePeriod_def
  EpochMismatch_from_Disconnected_def EpochMismatch_from_Connecting_def EpochMismatch_from_Connected_def
  Connected_from_Reconnecting_def Connected_from_GracePeriod_def Reconnecting_from_Connected_def
  GracePeriod_from_Connected_def

lemma transitions_ok:
  "state_ok (S_Connecting cn :: ('l, 'c) States) \<Longrightarrow> outcome_ok (Disconnected_from_Connecting cn common :: ('l, 'c) States \<times> CommonState)"
  "state_ok (S_EpochMismatch em) \<Longrightarrow> outcome_ok (Disconnected_from_EpochMismatch em common)"
  "state_ok (S_Connected cd) \<Longrightarrow> outcome_ok (Disconnected_from_Connected cd common)"
  "state_ok (S_Reconnecting rc :: ('l, 'c) States) \<Longrightarrow> outcome_ok (Disconnected_from_Reconnecting rc common :: ('l, 'c) States \<times> CommonState)"
  "state_ok (S_GracePeriod gp :: ('l, 'c) States) \<Longrightarrow> outcome_ok (Disconnected_from_GracePeriod gp common :: ('l, 'c) States \<times> CommonState)"
  "state_ok (S_Disconnected dc :: ('l, 'c) States) \<Longrightarrow> outcome_ok (Connecting_from_Disconnected (env :: ('l, 'c) env) dc common)"
  "state_ok (S_Disconnected dc :: ('l, 'c) States) \<Longrightarrow> length msg \<le> isize_max \<Longrightarrow>
     outcome_ok (Connecting_from_Disconnected_msg (env :: ('l, 'c) env) dc common msg)"
  "state_ok (S_EpochMismatch em) \<Longrightarrow> outcome_ok (Connecting_from_EpochMismatch env em common)"
  "state_ok (S_Reconnecting rc :: ('l, 'c) States) \<Longrightarrow> outcome_ok (Connecting_from_Reconnecting (env :: ('l, 'c) env) rc common)"
  "state_ok (S_GracePeriod gp :: ('l, 'c) States) \<Longrightarrow> outcome_ok (Connecting_from_GracePeriod (env :: ('l, 'c) env) gp common)"
  "state_ok (S_Disconnected dc :: ('l, 'c) States) \<Longrightarrow> outcome_ok (EpochMismatch_from_Disconnected (env :: ('l, 'c) env) dc common link)"
  "state_ok (S_Connecting cn :: ('l, 'c) States) \<Longrightarrow> outcome_ok (EpochMismatch_from_Connecting (env :: ('l, 'c) env) cn common link)"
  "state_ok (S_Connected cd) \<Longrightarrow> outcome_ok (EpochMismatch_from_Connected env cd common)"
  "state_ok (S_Reconnecting rc :: ('l, 'c) States) \<Longrightarrow> outcome_ok (Connected_from_Reconnecting (env :: ('l, 'c) env) rc common link)"
  "state_ok (S_GracePeriod gp :: ('l, 'c) States) \<Longrightarrow> outcome_ok (Connected_from_GracePeriod (env :: ('l, 'c) env) gp common link)"
  by (simp_all add: outcome_ok_def transition_defs distinct_cancel tasks_current_start msgs_ok_def)

lemma leave_connected_ok:
  assumes "state_ok (S_Connected cd)" "timer_ok Ph_Connected (cs_timer common)"
  shows "outcome_ok (Reconnecting_from_Connected env cd common)" "outcome_ok (GracePeriod_from_Connected env cd common)"
  using assms
  by (auto simp: outcome_ok_def transition_defs tasks_current_start armed_modify_deadline split: option.split)

lemma determine_state_ok:
  assumes "state_ok (S_Connected s)" "timer_ok Ph_Connected (cs_timer common)"
  shows "outcome_ok (determine_state env s common)"
  using assms leave_connected_ok [OF assms, of env] transitions_ok(3) [OF assms(1), of common]
  by (simp add: determine_state_def) (simp add: outcome_ok_def)

section \<open>Handlers\<close>

text \<open>No counter is about to wrap around.\<close>

definition mgr_room :: "MessageManager \<Rightarrow> bool" where
  "mgr_room mm =
     (mm_next_seq mm + 1 < u64_bound \<and> fst (mm_last_ack mm) + length (mm_incoming_slices mm) + 1 < u64_bound)"

fun state_room :: "('l, 'c) States \<Rightarrow> bool" where
  "state_room (S_EpochMismatch s) = (length (em_queued_msgs s) < u64_bound)"
| "state_room (S_Connected s) = mgr_room (cd_msg_mgr s)"
| "state_room (S_Reconnecting s) = mgr_room (rc_msg_mgr s)"
| "state_room (S_GracePeriod s) = mgr_room (gp_msg_mgr s)"
| "state_room _ = True"

definition has_room :: "('l, 'c) core \<Rightarrow> bool" where
  "has_room core = (state_room (co_state core) \<and> cs_next_link_id (co_common core) + 1 < u64_bound)"

lemma wrap_link_any:
  assumes "cs_next_link_id common + 1 < u64_bound"
  obtains r common' where "wrap_link env link common = Some (r, common')" "cs_timer common' = cs_timer common"
proof -
  obtain reader wrapped where
    "LinkEntry_take_reader (en_link env) (LinkEntry_new link (cs_next_link_id common)) = (reader, wrapped)"
    by (cases "LinkEntry_take_reader (en_link env) (LinkEntry_new link (cs_next_link_id common))")
  then have "\<exists>r common'. wrap_link env link common = Some (r, common') \<and> cs_timer common' = cs_timer common"
    using assms by (cases reader) (auto simp: wrap_link_def u64_simps Let_def)
  then show thesis using that by blast
qed

lemma wrap_link_succeeds:
  assumes "cs_next_link_id common + 1 < u64_bound"
    "\<And>wrapped common'. cs_timer common' = cs_timer common \<Longrightarrow> outcome_ok (f wrapped common')"
  shows "succeeds (do { (wrapped, common) \<leftarrow> wrap_link env link common; Some (f wrapped common) })"
proof -
  obtain r common' where "wrap_link env link common = Some (r, common')" "cs_timer common' = cs_timer common"
    by (rule wrap_link_any [OF assms(1)])
  then show ?thesis using assms(2) by simp
qed

lemma insert_msg_ok:
  assumes "mgr_ok epoch mm" "mgr_room mm" "length data \<le> isize_max"
  obtains mm' sm where "insert_msg oc mm data = Some (mm_next_seq mm, mm')" "mgr_ok epoch mm'"
    "get_outgoing_slice mm' (mm_next_seq mm) = Some sm"
proof -
  have pre: "out_ok mm" "mm_next_seq mm + 1 < u64_bound"
    using assms(1,2) by (simp_all add: mgr_ok_def mgr_room_def)
  obtain mm' sm where mm': "insert_msg oc mm data = Some (mm_next_seq mm, mm')"
    "get_outgoing_slice mm' (mm_next_seq mm) = Some sm" "out_ok mm'" "mm_epoch mm' = mm_epoch mm"
    "mm_incoming_slices mm' = mm_incoming_slices mm" "mm_last_ack mm' = mm_last_ack mm"
    "mm_next_seq mm' = mm_next_seq mm + 1"
    by (rule insert_msg_any [OF pre(1) assms(3) pre(2)])
  show thesis
    by (rule that [OF mm'(1) _ mm'(2)]) (use assms(1) mm' in \<open>simp add: mgr_ok_def drained_def\<close>)
qed

lemma recv_ack_ok:
  assumes "mgr_ok epoch mm"
  obtains mm' where "recv_ack oc mm ack = Some mm'" "mgr_ok epoch mm'"
proof -
  have "out_ok mm" using assms by (simp add: mgr_ok_def)
  then obtain mm' where mm': "recv_ack oc mm ack = Some mm'" "out_ok mm'" "mm_epoch mm' = mm_epoch mm"
    "mm_incoming_slices mm' = mm_incoming_slices mm" "mm_last_ack mm' = mm_last_ack mm"
    "mm_next_seq mm' = mm_next_seq mm"
    by (rule recv_ack_any)
  show thesis
    by (rule that [OF mm'(1)]) (use assms mm' in \<open>simp add: mgr_ok_def drained_def\<close>)
qed

lemma receive_ok:
  assumes "mgr_ok epoch mm" "mgr_room mm" "MessageManager_recv oc mm seq first_index seq_len data = Some (ch, mm')"
  obtains msgs mm'' where "take_recvd oc mm' = Some (msgs, mm'')" "mgr_ok epoch mm''"
proof -
  have pre: "out_ok mm" "drained mm" "fst (mm_last_ack mm) + length (mm_incoming_slices mm) + 1 < u64_bound"
    using assms(1,2) by (simp_all add: mgr_ok_def mgr_room_def)
  obtain msgs mm'' where "take_recvd oc mm' = Some (msgs, mm'')" "out_ok mm''" "drained mm''"
    "mm_epoch mm'' = mm_epoch mm"
    by (rule receive_any [OF pre assms(3)])
  then show thesis
    using that assms(1) by (simp add: mgr_ok_def)
qed

lemma send_slices_succeeds:
  assumes "valid_link L" "mgr_ok epoch mm" "sm \<in> set (get_outgoing_slices mm)"
  obtains r lm' where "send_slices oc L sm lm = Some (r, lm')"
proof -
  obtain q where "(q, sm) \<in> set (mm_outgoing_slices mm)"
    using assms(3) by (auto simp: get_outgoing_slices_def)
  then obtain k where "sends_from sm k" "length (sm_data sm) \<le> isize_max"
    using assms(2) out_ok_entry [of mm q sm] by (auto simp: mgr_ok_def)
  then have "send_slices oc L sm lm \<noteq> None"
    using assms(1) by (intro send_slices_any) (simp_all add: valid_link_def)
  then show thesis using that by auto
qed

lemma outgoing_slice_in:
  "mgr_ok epoch mm \<Longrightarrow> get_outgoing_slice mm q = Some sm \<Longrightarrow> sm \<in> set (get_outgoing_slices mm)"
  by (force simp: mgr_ok_def out_ok_def get_outgoing_slice_def get_outgoing_slices_def bt.get_entries)

lemma outcome_okI: "state_ok st \<Longrightarrow> timer_ok (phase_of st) (cs_timer common) \<Longrightarrow> outcome_ok (st, common)"
  by (simp add: outcome_ok_def)

definition cmd_ok :: "('l, 'c) LinkSetControlCommand \<Rightarrow> bool" where
  "cmd_ok cmd = (case cmd of CmdMessage data epoch \<Rightarrow> length data \<le> isize_max | _ \<Rightarrow> True)"

lemma add_connector_ok:
  assumes "tasks_current cm"
  obtains cm' where "ConnectorManager_add_connector scheme conn cm = Some cm'" "tasks_current cm'"
  using tasks_current_add_connector [OF assms] by blast

lemma Disconnected_ctrl_succeeds:
  fixes env :: "('l, 'c) env"
  assumes "state_ok (S_Disconnected s :: ('l, 'c) States)" "timer_ok Ph_Disconnected (cs_timer common)"
    "cs_next_link_id common + 1 < u64_bound" "cmd_ok cmd"
  shows "succeeds (Disconnected_ctrl_msg env s common cmd)"
proof (cases cmd)
  case (CmdAddLink link)
  show ?thesis
    unfolding CmdAddLink Disconnected_ctrl_msg.simps
    by (rule wrap_link_succeeds [OF assms(3)])
       (use assms(1,2) in \<open>auto split: sum.split intro: transitions_ok outcome_okI\<close>)
qed (use assms in \<open>auto simp: cmd_ok_def outcome_okI distinct_add_address intro: transitions_ok\<close>)

lemma Connecting_ctrl_succeeds:
  fixes env :: "('l, 'c) env"
  assumes "state_ok (S_Connecting s :: ('l, 'c) States)" "timer_ok Ph_Connecting (cs_timer common)"
    "cs_next_link_id common + 1 < u64_bound" "cmd_ok cmd"
  shows "succeeds (Connecting_ctrl_msg env s common cmd)"
proof (cases cmd)
  case (CmdAddLink link)
  show ?thesis
    unfolding CmdAddLink Connecting_ctrl_msg.simps
    by (rule wrap_link_succeeds [OF assms(3)])
       (use assms(1,2) in \<open>auto split: sum.split intro: transitions_ok outcome_okI\<close>)
next
  case (CmdAddConnector conn)
  have "tasks_current (cn_connector s)" using assms(1) by simp
  then obtain cm' where "ConnectorManager_add_connector (en_scheme env) conn (cn_connector s) = Some cm'"
    "tasks_current cm'"
    by (rule add_connector_ok)
  with CmdAddConnector assms show ?thesis by (simp add: outcome_okI)
qed (use assms in \<open>auto simp: cmd_ok_def outcome_okI msgs_ok_def tasks_current_add_addr intro: transitions_ok\<close>)

lemma EpochMismatch_ctrl_succeeds:
  assumes "state_ok (S_EpochMismatch s)" "timer_ok Ph_EpochMismatch (cs_timer common)"
    "cs_next_link_id common + 1 < u64_bound" "cmd_ok cmd"
  shows "succeeds (EpochMismatch_ctrl_msg env s common cmd)"
proof (cases cmd)
  case (CmdAddLink link)
  show ?thesis
    unfolding CmdAddLink EpochMismatch_ctrl_msg.simps
    by (rule wrap_link_succeeds [OF assms(3)]) (use assms(1,2) in \<open>auto split: sum.split intro: outcome_okI\<close>)
qed (use assms in \<open>auto simp: cmd_ok_def outcome_okI msgs_ok_def distinct_add_address intro: transitions_ok\<close>)

lemma Connected_ctrl_succeeds:
  assumes "state_ok (S_Connected s)" "timer_ok Ph_Connected (cs_timer common)" "valid_link (en_link env)"
    "cs_next_link_id common + 1 < u64_bound" "cmd_ok cmd" "mgr_room (cd_msg_mgr s)"
  shows "succeeds (Connected_ctrl_msg env s common cmd)"
proof (cases cmd)
  case (CmdAddLink link)
  show ?thesis
    unfolding CmdAddLink Connected_ctrl_msg.simps
    by (rule wrap_link_succeeds [OF assms(4)]) (use assms(1,2) in \<open>auto split: sum.split intro: outcome_okI\<close>)
next
  case (CmdMessage data epoch)
  have pre: "mgr_ok (cd_epoch s) (cd_msg_mgr s)" "length data \<le> isize_max"
    using assms(1,5) CmdMessage by (simp_all add: cmd_ok_def)
  obtain mm' sm where mm': "insert_msg (en_oc env) (cd_msg_mgr s) data = Some (mm_next_seq (cd_msg_mgr s), mm')"
    "mgr_ok (cd_epoch s) mm'" "get_outgoing_slice mm' (mm_next_seq (cd_msg_mgr s)) = Some sm"
    by (rule insert_msg_ok [OF pre(1) assms(6) pre(2)])
  obtain r lm where "send_slices (en_oc env) (en_link env) sm (cd_links s) = Some (r, lm)"
    by (rule send_slices_succeeds [OF assms(3) mm'(2) outgoing_slice_in [OF mm'(2,3)]])
  moreover have "outcome_ok (determine_state env (s\<lparr>cd_msg_mgr := mm', cd_links := lm\<rparr>) common)"
    by (rule determine_state_ok) (use assms(1,2) mm'(2) in simp_all)
  ultimately show ?thesis
    using CmdMessage mm' assms(1,2) by (auto intro: outcome_okI)
qed (use assms in \<open>auto simp: outcome_okI distinct_add_address intro: transitions_ok\<close>)

lemma Reconnecting_ctrl_succeeds:
  fixes env :: "('l, 'c) env"
  assumes "state_ok (S_Reconnecting s :: ('l, 'c) States)" "timer_ok Ph_Reconnecting (cs_timer common)"
    "cs_next_link_id common + 1 < u64_bound" "cmd_ok cmd" "mgr_room (rc_msg_mgr s)"
  shows "succeeds (Reconnecting_ctrl_msg env s common cmd)"
proof (cases cmd)
  case (CmdAddLink link)
  show ?thesis
    unfolding CmdAddLink Reconnecting_ctrl_msg.simps
    by (rule wrap_link_succeeds [OF assms(3)])
       (use assms(1,2) in \<open>auto split: sum.split intro: transitions_ok outcome_okI\<close>)
next
  case (CmdAddConnector conn)
  have "tasks_current (rc_connector s)" using assms(1) by simp
  then obtain cm' where "ConnectorManager_add_connector (en_scheme env) conn (rc_connector s) = Some cm'"
    "tasks_current cm'"
    by (rule add_connector_ok)
  with CmdAddConnector assms show ?thesis by (simp add: outcome_okI)
next
  case (CmdMessage data epoch)
  have pre: "mgr_ok (rc_epoch s) (rc_msg_mgr s)" "length data \<le> isize_max"
    using assms(1,4) CmdMessage by (simp_all add: cmd_ok_def)
  obtain mm' sm where "insert_msg (en_oc env) (rc_msg_mgr s) data = Some (mm_next_seq (rc_msg_mgr s), mm')"
    "mgr_ok (rc_epoch s) mm'" "get_outgoing_slice mm' (mm_next_seq (rc_msg_mgr s)) = Some sm"
    by (rule insert_msg_ok [OF pre(1) assms(5) pre(2)])
  then show ?thesis
    using CmdMessage assms(1,2) by (auto intro: outcome_okI)
qed (use assms in \<open>auto simp: outcome_okI tasks_current_add_addr intro: transitions_ok\<close>)

lemma GracePeriod_ctrl_succeeds:
  fixes env :: "('l, 'c) env"
  assumes "state_ok (S_GracePeriod s :: ('l, 'c) States)" "timer_ok Ph_GracePeriod (cs_timer common)"
    "cs_next_link_id common + 1 < u64_bound" "cmd_ok cmd" "mgr_room (gp_msg_mgr s)"
  shows "succeeds (GracePeriod_ctrl_msg env s common cmd)"
proof (cases cmd)
  case (CmdAddLink link)
  show ?thesis
    unfolding CmdAddLink GracePeriod_ctrl_msg.simps
    by (rule wrap_link_succeeds [OF assms(3)])
       (use assms(1,2) in \<open>auto split: sum.split intro: transitions_ok outcome_okI\<close>)
next
  case (CmdMessage data epoch)
  have pre: "mgr_ok (gp_epoch s) (gp_msg_mgr s)" "length data \<le> isize_max"
    using assms(1,4) CmdMessage by (simp_all add: cmd_ok_def)
  obtain mm' sm where "insert_msg (en_oc env) (gp_msg_mgr s) data = Some (mm_next_seq (gp_msg_mgr s), mm')"
    "mgr_ok (gp_epoch s) mm'" "get_outgoing_slice mm' (mm_next_seq (gp_msg_mgr s)) = Some sm"
    by (rule insert_msg_ok [OF pre(1) assms(5) pre(2)])
  then show ?thesis
    using CmdMessage assms(1,2) by (auto intro: outcome_okI)
qed (use assms in \<open>auto simp: outcome_okI distinct_add_address intro: transitions_ok\<close>)

text \<open>The message manager of a session, and whether it survives a slice.\<close>

fun state_msg_mgr :: "('l, 'c) States \<Rightarrow> MessageManager option" where
  "state_msg_mgr (S_Connected s) = Some (cd_msg_mgr s)"
| "state_msg_mgr (S_Reconnecting s) = Some (rc_msg_mgr s)"
| "state_msg_mgr (S_GracePeriod s) = Some (gp_msg_mgr s)"
| "state_msg_mgr _ = None"

fun recv_returns :: "bool \<Rightarrow> MessageManager option \<Rightarrow> LinkProtocol \<Rightarrow> bool" where
  "recv_returns oc (Some mm) (MsgSlice epoch seq seq_len first_index data) =
     (epoch = to_int (mm_epoch mm) \<longrightarrow> MessageManager_recv oc mm seq first_index seq_len data \<noteq> None)"
| "recv_returns oc mm msg = True"

lemma send_queued_ok:
  assumes "valid_link L" "msgs_ok msgs" "length msgs < u64_bound"
  obtains mm links' where "send_queued oc L msgs (MessageManager_new epoch) links = Some (mm, links')" "mgr_ok epoch mm"
proof -
  have pre: "\<And>l. li_max_size L l < u32_bound" "out_ok (MessageManager_new epoch)"
    "\<forall>m \<in> set msgs. length m \<le> isize_max" "mm_next_seq (MessageManager_new epoch) + length msgs < u64_bound"
    using assms out_ok_new [of epoch] by (simp_all add: valid_link_def msgs_ok_def MessageManager_new_def)
  obtain mm links' where mm: "send_queued oc L msgs (MessageManager_new epoch) links = Some (mm, links')" "out_ok mm"
    "mm_epoch mm = mm_epoch (MessageManager_new epoch)"
    "mm_incoming_slices mm = mm_incoming_slices (MessageManager_new epoch)"
    "mm_last_ack mm = mm_last_ack (MessageManager_new epoch)"
    by (rule send_queued_any [OF pre])
  show thesis
    by (rule that [OF mm(1)]) (use mm(2-) in \<open>simp add: mgr_ok_def drained_def MessageManager_new_def\<close>)
qed

lemma Connected_from_EpochMismatch_succeeds:
  assumes "state_ok (S_EpochMismatch s)" "valid_link (en_link env)" "length (em_queued_msgs s) < u64_bound"
  shows "succeeds (Connected_from_EpochMismatch env s common epoch)"
proof -
  have "msgs_ok (em_queued_msgs s)" using assms(1) by simp
  then obtain mm links where "send_queued (en_oc env) (en_link env) (em_queued_msgs s) (MessageManager_new epoch)
      (em_links s) = Some (mm, links)" "mgr_ok epoch mm"
    by (rule send_queued_ok [OF assms(2) _ assms(3)])
  then show ?thesis
    using assms(1) by (simp add: Connected_from_EpochMismatch_def outcome_ok_def Let_def)
qed

lemma EpochMismatch_link_succeeds:
  assumes "state_ok (S_EpochMismatch s)" "timer_ok Ph_EpochMismatch (cs_timer common)" "valid_link (en_link env)"
    "length (em_queued_msgs s) < u64_bound"
  shows "succeeds (EpochMismatch_link_msg env s common link_id msg)"
proof (cases msg)
  case (Reset epoch request)
  have "succeeds (Connected_from_EpochMismatch env (s\<lparr>em_epoch := e, em_links := lm\<rparr>) common e')"
    "succeeds (Connected_from_EpochMismatch env (s\<lparr>em_links := lm\<rparr>) common e')" for e lm e'
    by (rule Connected_from_EpochMismatch_succeeds; use assms in simp)+
  moreover have "succeeds (Connected_from_EpochMismatch env s common e')" for e'
    by (rule Connected_from_EpochMismatch_succeeds [OF assms(1,3,4)])
  moreover have "em_epoch s \<noteq> None" if "compare_epochs (em_epoch s) epoch = Equal"
    using that by (auto simp: compare_epochs_Equal)
  ultimately show ?thesis
    using Reset assms(1,2)
    by (auto simp: EpochMismatch_reset_def Let_def outcome_okI split: Ordering.split)
qed (use assms in \<open>auto simp: outcome_okI\<close>)

lemma Connected_link_succeeds:
  assumes "state_ok (S_Connected s)" "timer_ok Ph_Connected (cs_timer common)" "mgr_room (cd_msg_mgr s)"
    "recv_returns (en_oc env) (Some (cd_msg_mgr s)) msg"
  shows "succeeds (Connected_link_msg env s common link_id msg)"
proof -
  have mgr: "mgr_ok (cd_epoch s) (cd_msg_mgr s)" and addrs: "distinct_addrs (cd_addrs s)"
    using assms(1) by simp_all
  have det: "outcome_ok (determine_state env (s\<lparr>cd_msg_mgr := mm, cd_links := lm\<rparr>) (emit_messages e ms common))"
    if "mgr_ok (cd_epoch s) mm" for mm lm e ms
    by (rule determine_state_ok) (use that addrs assms(2) in simp_all)
  show ?thesis
  proof (cases msg)
    case (Reset epoch request)
    have "outcome_ok (determine_state env (s\<lparr>cd_links := lm\<rparr>) common)" for lm
      by (rule determine_state_ok) (use assms(1,2) in simp_all)
    then show ?thesis
      using Reset assms(1,2) by (auto simp: outcome_okI transitions_ok)
  next
    case (Ack epoch seq last_index)
    obtain mm' where "recv_ack (en_oc env) (cd_msg_mgr s) (seq, last_index) = Some mm'" "mgr_ok (cd_epoch s) mm'"
      by (rule recv_ack_ok [OF mgr])
    then show ?thesis
      using Ack assms(1,2) by (auto simp: outcome_okI)
  next
    case (MsgSlice epoch seq seq_len first_index data)
    show ?thesis
    proof (cases "epoch = to_int (cd_epoch s)")
      case True
      then obtain ch mm' where r: "MessageManager_recv (en_oc env) (cd_msg_mgr s) seq first_index seq_len data = Some (ch, mm')"
        using assms(4) MsgSlice mgr by (auto simp: mgr_ok_def)
      obtain msgs mm'' where t: "take_recvd (en_oc env) mm' = Some (msgs, mm'')" "mgr_ok (cd_epoch s) mm''"
        by (rule receive_ok [OF mgr assms(3) r])
      show ?thesis
        using MsgSlice True r t(1) det [OF t(2)] by (simp add: Let_def)
    qed (use MsgSlice assms(1,2) in \<open>simp add: outcome_okI\<close>)
  qed (use assms(1,2) in \<open>auto simp: outcome_okI\<close>)
qed

lemma Connected_timer_succeeds:
  assumes "state_ok (S_Connected s)" "timer_ok Ph_Connected (cs_timer common)" "valid_link (en_link env)"
  shows "succeeds (Connected_timer env s common)"
proof -
  have mgr: "mgr_ok (cd_epoch s) (cd_msg_mgr s)" using assms(1) by simp
  have det: "outcome_ok (determine_state env (s\<lparr>cd_links := lm\<rparr>) common)" for lm
    by (rule determine_state_ok) (use assms(1,2) in simp_all)
  show ?thesis
  proof (cases "get_outgoing_slices (cd_msg_mgr s)")
    case Nil
    then show ?thesis using det by (simp add: Connected_timer_def Let_def)
  next
    case (Cons sm sms)
    let ?lm = "upkeep (en_link env) (if PING_INTERVAL < en_now env - cd_last_ping s
      then ping_all (en_link env) (en_now env) (cd_links s) else cd_links s)"
    have "sm \<in> set (get_outgoing_slices (cd_msg_mgr s))" using Cons by simp
    then obtain r lm' where "send_slices (en_oc env) (en_link env) sm ?lm = Some (r, lm')"
      by (rule send_slices_succeeds [OF assms(3) mgr])
    then show ?thesis
      using Cons det by (simp add: Connected_timer_def Let_def)
  qed
qed

lemma Reconnecting_link_succeeds:
  fixes env :: "('l, 'c) env"
  assumes "state_ok (S_Reconnecting s :: ('l, 'c) States)" "timer_ok Ph_Reconnecting (cs_timer common)"
    "mgr_room (rc_msg_mgr s)" "recv_returns (en_oc env) (Some (rc_msg_mgr s)) msg"
  shows "succeeds (Reconnecting_link_msg env s common link_id msg)"
proof -
  have mgr: "mgr_ok (rc_epoch s) (rc_msg_mgr s)" using assms(1) by simp
  show ?thesis
  proof (cases msg)
    case (Ack epoch seq last_index)
    obtain mm' where "recv_ack (en_oc env) (rc_msg_mgr s) (seq, last_index) = Some mm'" "mgr_ok (rc_epoch s) mm'"
      by (rule recv_ack_ok [OF mgr])
    then show ?thesis
      using Ack assms(1,2) by (auto simp: outcome_okI)
  next
    case (MsgSlice epoch seq seq_len first_index data)
    show ?thesis
    proof (cases "epoch = to_int (rc_epoch s)")
      case True
      then obtain ch mm' where r: "MessageManager_recv (en_oc env) (rc_msg_mgr s) seq first_index seq_len data = Some (ch, mm')"
        using assms(4) MsgSlice mgr by (auto simp: mgr_ok_def)
      obtain msgs mm'' where t: "take_recvd (en_oc env) mm' = Some (msgs, mm'')" "mgr_ok (rc_epoch s) mm''"
        by (rule receive_ok [OF mgr assms(3) r])
      show ?thesis
        using MsgSlice True r t assms(1,2) by (simp add: outcome_okI)
    qed (use MsgSlice assms(1,2) in \<open>simp add: outcome_okI\<close>)
  qed (use assms(1,2) in \<open>auto simp: outcome_okI transitions_ok\<close>)
qed

lemma GracePeriod_link_succeeds:
  fixes env :: "('l, 'c) env"
  assumes "state_ok (S_GracePeriod s :: ('l, 'c) States)" "timer_ok Ph_GracePeriod (cs_timer common)"
    "mgr_room (gp_msg_mgr s)" "recv_returns (en_oc env) (Some (gp_msg_mgr s)) msg"
  shows "succeeds (GracePeriod_link_msg env s common link_id msg)"
proof -
  have mgr: "mgr_ok (gp_epoch s) (gp_msg_mgr s)" using assms(1) by simp
  show ?thesis
  proof (cases msg)
    case (Ack epoch seq last_index)
    obtain mm' where "recv_ack (en_oc env) (gp_msg_mgr s) (seq, last_index) = Some mm'" "mgr_ok (gp_epoch s) mm'"
      by (rule recv_ack_ok [OF mgr])
    then show ?thesis
      using Ack assms(1,2) by (auto simp: outcome_okI)
  next
    case (MsgSlice epoch seq seq_len first_index data)
    show ?thesis
    proof (cases "epoch = to_int (gp_epoch s)")
      case True
      then obtain ch mm' where r: "MessageManager_recv (en_oc env) (gp_msg_mgr s) seq first_index seq_len data = Some (ch, mm')"
        using assms(4) MsgSlice mgr by (auto simp: mgr_ok_def)
      obtain msgs mm'' where t: "take_recvd (en_oc env) mm' = Some (msgs, mm'')" "mgr_ok (gp_epoch s) mm''"
        by (rule receive_ok [OF mgr assms(3) r])
      show ?thesis
        using MsgSlice True r t assms(1,2) by (simp add: outcome_okI)
    qed (use MsgSlice assms(1,2) in \<open>simp add: outcome_okI\<close>)
  qed (use assms(1,2) in \<open>auto simp: outcome_okI transitions_ok\<close>)
qed

section \<open>The loop\<close>

text \<open>Whether the message manager survives an event; only slices can fail it.\<close>

definition survives :: "bool \<Rightarrow> ('l, 'c) core \<Rightarrow> ('l, 'c) core_event \<Rightarrow> bool" where
  "survives oc core ev =
     (case ev of FromLink link_id msg \<Rightarrow> recv_returns oc (state_msg_mgr (co_state core)) msg | _ \<Rightarrow> True)"

lemma States_ctrl_succeeds:
  assumes "outcome_ok (st, common)" "state_room st" "cs_next_link_id common + 1 < u64_bound"
    "valid_link (en_link env)" "cmd_ok cmd"
  shows "succeeds (States_ctrl_msg env st common cmd)"
  using assms
  by (cases st)
     (auto simp: outcome_ok_def intro: Disconnected_ctrl_succeeds Connecting_ctrl_succeeds EpochMismatch_ctrl_succeeds
       Connected_ctrl_succeeds Reconnecting_ctrl_succeeds GracePeriod_ctrl_succeeds)

lemma handle_link_succeeds:
  assumes "outcome_ok (st, common)" "state_room st" "valid_link (en_link env)"
    "recv_returns (en_oc env) (state_msg_mgr st) msg"
  shows "succeeds (handle_link_msg env common st link_id msg)"
proof (cases st)
  case (S_EpochMismatch s)
  then show ?thesis
    using assms by (auto simp: outcome_ok_def intro: EpochMismatch_link_succeeds)
next
  case (S_Connected s)
  then show ?thesis
    using assms by (auto simp: outcome_ok_def intro: Connected_link_succeeds)
next
  case (S_Reconnecting s)
  then show ?thesis
    using assms by (auto simp: outcome_ok_def intro: Reconnecting_link_succeeds)
next
  case (S_GracePeriod s)
  then show ?thesis
    using assms by (auto simp: outcome_ok_def intro: GracePeriod_link_succeeds)
qed (use assms(1) in \<open>auto simp: outcome_ok_def Disconnected_link_msg_def Connecting_link_msg_def\<close>)

lemma handle_timer_succeeds:
  assumes "outcome_ok (st, common)" "valid_link (en_link env)"
  shows "succeeds (handle_timer env common st)"
proof -
  have ok: "state_ok st" "timer_ok (phase_of st) (cs_timer common)"
    using assms(1) by (simp_all add: outcome_ok_def)
  show ?thesis
  proof (cases st)
    case (S_EpochMismatch s)
    have "state_ok (S_EpochMismatch (s\<lparr>em_links := lm\<rparr>))" for lm
      using assms(1) S_EpochMismatch by (simp add: outcome_ok_def)
    from transitions_ok(2,8) [OF this] show ?thesis
      using assms(1) S_EpochMismatch
      by (auto simp: EpochMismatch_timer_def Let_def outcome_okI outcome_ok_def [of "(S_EpochMismatch s, common)"])
  next
    case (S_Connected s)
    then show ?thesis
      using assms by (auto simp: outcome_ok_def intro: Connected_timer_succeeds)
  qed (use ok in \<open>auto simp: Disconnected_timer_def Connecting_timer_def Reconnecting_timer_def
        GracePeriod_timer_def transitions_ok outcome_okI\<close>)
qed

lemma States_debug_ok:
  "outcome_ok (st, common) \<Longrightarrow> outcome_ok (snd (States_debug env st cmd), common)"
  by (cases st; cases cmd) (simp_all add: outcome_ok_def Let_def case_prod_unfold)

lemma core_handle_succeeds:
  assumes "core_ok core" "has_room core" "valid_link (en_link env)" "core_enabled env core ev"
    "survives (en_oc env) core ev"
  obtains core' where "core_handle env core ev = Some core'" "core_ok core'"
proof -
  let ?st = "co_state core" and ?common = "co_common core"
  let ?r = "case ev of
      FromCtrl msg \<Rightarrow> handle_ctrl_msg env ?common ?st msg
    | FromLink link_id msg \<Rightarrow> handle_link_msg env ?common ?st link_id msg
    | TimerReady \<Rightarrow> handle_timer env (on_timer (\<lambda>timer. snd (Deadline_poll (en_now env) timer)) ?common) ?st
    | FromDebug cmd \<Rightarrow> handle_debug env ?common ?st cmd"
  have ok: "outcome_ok (?st, ?common)" "state_room ?st" "cs_next_link_id ?common + 1 < u64_bound"
    using assms(1,2) by (simp_all add: core_ok_def has_room_def)
  have "succeeds ?r"
  proof (cases ev)
    case (FromCtrl msg)
    then show ?thesis
    proof (cases msg)
      case (Command cmd)
      have "cmd_ok cmd"
        using assms(4) FromCtrl Command
        by (auto simp: core_enabled_def cmd_ok_def split: LinkSetControlCommand.splits)
      with FromCtrl Command ok assms(3) show ?thesis by (simp add: States_ctrl_succeeds)
    next
      case (Config conf)
      with FromCtrl ok(1) show ?thesis by (simp add: outcome_ok_def)
    qed
  next
    case (FromLink link_id msg)
    with ok assms(3,5) show ?thesis by (simp add: handle_link_succeeds survives_def)
  next
    case TimerReady
    have "outcome_ok (?st, on_timer (\<lambda>timer. snd (Deadline_poll (en_now env) timer)) ?common)"
      using ok(1) by (simp add: outcome_ok_def timer_ok_poll)
    with TimerReady assms(3) show ?thesis by (simp add: handle_timer_succeeds)
  next
    case (FromDebug cmd)
    with ok(1) show ?thesis by (simp add: handle_debug_def States_debug_ok)
  qed
  then show thesis
    using that by (auto simp: succeeds_def core_handle_def core_ok_def Let_def)
qed

text \<open>A step that returns has survived its event.\<close>

lemma handled_survives:
  assumes "core_ok core" "core_handle env core ev = Some core'"
  shows "survives (en_oc env) core ev"
proof (cases ev)
  case (FromLink link_id msg)
  show ?thesis
  proof (cases msg)
    case (MsgSlice epoch seq seq_len first_index data)
    then show ?thesis
      using assms FromLink
      by (cases "co_state core")
         (auto simp: survives_def core_handle_def core_ok_def outcome_ok_def mgr_ok_def split: bind_splits)
  qed (use FromLink in \<open>auto simp: survives_def\<close>)
qed (simp_all add: survives_def)

text \<open>The steps before which no counter is about to wrap around.\<close>

definition safe_step :: "bool \<Rightarrow> ('c \<Rightarrow> rust_string) \<Rightarrow> ('l, 'c) core \<Rightarrow> ('l, 'c) core \<Rightarrow> bool" where
  "safe_step oc scheme core core' = (core_step oc scheme core core' \<and> has_room core)"

lemma core_ok_new: "core_ok core_new"
  by (simp add: core_ok_def outcome_ok_def core_new_def States_new_def Disconnected_new_def CommonState_new_def
      distinct_addrs_def)

lemma core_ok_step:
  assumes "core_ok core" "safe_step oc scheme core core'"
  shows "core_ok core'"
proof -
  have "core_step oc scheme core core'" "has_room core"
    using assms(2) by (simp_all add: safe_step_def)
  then show ?thesis
  proof (cases rule: core_step.cases)
    case (step_event env ev)
    obtain c where "core_handle env core ev = Some c" "core_ok c"
      by (rule core_handle_succeeds [OF assms(1) \<open>has_room core\<close> step_event(3,4) handled_survives [OF assms(1) step_event(5)]])
    with step_event(5) show ?thesis by simp
  next
    case (step_links f)
    then show ?thesis
      using assms(1) by (cases "co_state core") (simp_all add: core_ok_def outcome_ok_def)
  next
    case (step_tasks n r)
    then show ?thesis
      using assms(1) by (cases "co_state core") (simp_all add: core_ok_def outcome_ok_def tasks_current_turn)
  next
    case (step_reader link_id)
    then show ?thesis
      using assms(1) by (simp add: core_ok_def outcome_ok_def)
  qed
qed

interpretation safe: machine_invariant core_initial "safe_step oc scheme" core_ok
  by unfold_locales (auto simp: core_initial_def core_ok_new intro: core_ok_step)

lemma safe_core_ok: "reaches (safe_step oc scheme) core_new core \<Longrightarrow> core_ok core"
  by (rule safe.inv_reaches [OF _ core_ok_new])

section \<open>Properties\<close>


lemma core_run_safe:
  assumes "valid_link (en_link env)" "core_run env core [(now, ev)] = Some core'" "has_room core"
  shows "safe_step (en_oc env) (en_scheme env) core core'"
  using assms step_event [of "env\<lparr>en_now := now\<rparr>" "en_oc env" "en_scheme env" core ev core']
  by (auto simp: safe_step_def split: if_splits bind_splits)

text \<open>The core after a link has been added.\<close>

lemma example_linked:
  obtains core where "core_run example_env core_new [(1, FromCtrl (Command (CmdAddLink ())))] = Some core"
    "reaches (safe_step True (\<lambda>_. [])) core_new core" "has_room core"
    "phase_of (co_state core) = Ph_EpochMismatch" "cs_readers (co_common core) = [0]"
    "state_msg_mgr (co_state core) = None"
proof -
  have "\<exists>core. core_run example_env core_new [(1, FromCtrl (Command (CmdAddLink ())))] = Some core \<and> has_room core \<and>
      phase_of (co_state core) = Ph_EpochMismatch \<and> cs_readers (co_common core) = [0] \<and>
      state_msg_mgr (co_state core) = None"
    by (simp add: core_eval has_room_def)
  then obtain core where core: "core_run example_env core_new [(1, FromCtrl (Command (CmdAddLink ())))] = Some core"
    "has_room core" "phase_of (co_state core) = Ph_EpochMismatch" "cs_readers (co_common core) = [0]"
    "state_msg_mgr (co_state core) = None"
    by blast
  have "valid_link (en_link example_env)" "has_room (core_new :: (unit, unit) core)"
    by (simp_all add: core_eval has_room_def valid_link_def)
  then have "safe_step (en_oc example_env) (en_scheme example_env) core_new core"
    by (rule core_run_safe [OF _ core(1)])
  then have "reaches (safe_step True (\<lambda>_. [])) core_new core"
    by (simp add: example_env_def reaches_one)
  then show thesis using that core by blast
qed


text \<open>
  C14: while there are links to look after, the timer never goes to sleep: in \<open>EpochMismatch\<close> and
  \<open>Connected\<close> there is always an instant from which on the timer event is enabled, and taking it
  arms the timer again at the interval of the state. While disconnected the timer is off, and
  nothing else sets it.
\<close>

theorem timer_stays_armed:
  assumes "reaches (safe_step oc scheme) core_new core"
  shows "timer_ok (phase_of (co_state core)) (cs_timer (co_common core)) \<and>
    (if phase_of (co_state core) \<in> {Ph_EpochMismatch, Ph_Connected}
     then \<exists>due. \<forall>t. core_enabled (env\<lparr>en_now := due + t\<rparr>) core TimerReady else True)"
proof -
  have ok: "timer_ok (phase_of (co_state core)) (cs_timer (co_common core))"
    using safe_core_ok [OF assms] by (simp add: core_ok_def outcome_ok_def)
  moreover have "\<exists>due. \<forall>t. core_enabled (env\<lparr>en_now := due + t\<rparr>) core TimerReady"
    if armed: "has_deadline (cs_timer (co_common core))"
  proof -
    obtain due where "dl_deadline (cs_timer (co_common core)) = Some due"
      using armed by (auto simp: has_deadline_def)
    then show ?thesis
      by (intro exI [of _ due]) (simp add: core_enabled_def Deadline_poll_def)
  qed
  ultimately show ?thesis
    by (auto simp: armed_every_def)
qed

lemma timer_stays_armed_witness:
  "\<exists>core. core_run example_env core_new [(1, FromCtrl (Command (CmdAddLink ())))] = Some core \<and>
     timer_ok Ph_EpochMismatch (cs_timer (co_common core)) \<and>
     (\<exists>due. \<forall>t. core_enabled (example_env\<lparr>en_now := due + t\<rparr>) core TimerReady)"
proof -
  obtain core where core: "core_run example_env core_new [(1, FromCtrl (Command (CmdAddLink ())))] = Some core"
    "reaches (safe_step True (\<lambda>_. [])) core_new core" "has_room core"
    "phase_of (co_state core) = Ph_EpochMismatch" "cs_readers (co_common core) = [0]"
    "state_msg_mgr (co_state core) = None"
    by (rule example_linked)
  show ?thesis
    using timer_stays_armed [OF core(2), of example_env] core(1,4) by auto
qed

end
