(* ===== verification/Message_Transfer.thy ===== *)
theory Message_Transfer
  imports Message_Manager
begin

text \<open>
  Two message managers of one epoch and the network between them: the message part of
  \<open>Connected::ctrl_msg\<close>, \<open>Connected::link_msg\<close> and \<open>Connected::timer\<close>
  (\<^verbatim>\<open>src/src/state/states/connected.rs\<close>), run against each other.

  The network keeps every slice and every acknowledgement that was ever sent and delivers any of
  them at any time, so it loses, repeats and reorders at will. The one thing asked of it is that
  it never delivers a slice beyond the bytes of its message that have already arrived
  (\<open>leaves_no_gap\<close>): with a gap, \<open>SliceManager::add_slice\<close> marks bytes that never came. A message
  that fits one slice, and any link that keeps the order, meet the condition.
\<close>

section \<open>The network and its events\<close>

record transfer =
  tr_sent :: "bytes list"
  tr_sender :: MessageManager
  tr_receiver :: MessageManager
  tr_slices :: "LinkProtocol list"
  tr_acks :: "LinkProtocol list"
  tr_delivered :: "bytes list"

datatype transfer_event =
    Queue bytes
  | Transmit u64 u32
  | Receive LinkProtocol
  | Acknowledge LinkProtocol

definition transfer_start :: "Epoch \<Rightarrow> transfer" where
  "transfer_start epoch =
     \<lparr>tr_sent = [], tr_sender = MessageManager_new epoch, tr_receiver = MessageManager_new epoch,
      tr_slices = [], tr_acks = [], tr_delivered = []\<rparr>"

text \<open>What \<open>Connected::link_msg\<close> does with a slice of its epoch: the acknowledgement to send, if any,
  the messages handed to the user, and the manager afterwards.\<close>

definition receive_slice ::
  "bool \<Rightarrow> MessageManager \<Rightarrow> u64 \<Rightarrow> u64 \<Rightarrow> u64 \<Rightarrow> bytes \<Rightarrow>
   (LinkProtocol list \<times> bytes list \<times> MessageManager) option" where
  "receive_slice oc mm seq first_index seq_len data =
     do { (should_ack, mm) \<leftarrow> MessageManager_recv oc mm seq first_index seq_len data;
          let ack = mm_last_ack mm;
          let acks = (if should_ack then [Ack (to_int (mm_epoch mm)) (fst ack) (snd ack)] else []);
          (msgs, mm) \<leftarrow> take_recvd oc mm;
          Some (acks, msgs, mm) }"

text \<open>\<open>None\<close> is a panic of one of the two sides.\<close>

fun transfer_exec :: "bool \<Rightarrow> transfer \<Rightarrow> transfer_event \<Rightarrow> transfer option" where
  "transfer_exec oc t (Queue data) =
     do { (seq, mm) \<leftarrow> insert_msg oc (tr_sender t) data;
          Some (t\<lparr>tr_sent := tr_sent t @ [data], tr_sender := mm\<rparr>) }"
| "transfer_exec oc t (Transmit seq slice_size) =
     (case get_outgoing_slice (tr_sender t) seq of
        None \<Rightarrow> Some t
      | Some sm \<Rightarrow> do { ps \<leftarrow> get_slices oc sm slice_size;
                        Some (t\<lparr>tr_slices := tr_slices t @ ps\<rparr>) })"
| "transfer_exec oc t (Receive (MsgSlice epoch seq seq_len first_index data)) =
     (if epoch = to_int (mm_epoch (tr_receiver t))
      then do { (acks, msgs, mm) \<leftarrow> receive_slice oc (tr_receiver t) seq first_index seq_len data;
                Some (t\<lparr>tr_receiver := mm, tr_acks := tr_acks t @ acks,
                        tr_delivered := tr_delivered t @ msgs\<rparr>) }
      else Some t)"
| "transfer_exec oc t (Receive _) = Some t"
| "transfer_exec oc t (Acknowledge (Ack epoch seq last_index)) =
     (if epoch = to_int (mm_epoch (tr_sender t))
      then do { mm \<leftarrow> recv_ack oc (tr_sender t) (seq, last_index); Some (t\<lparr>tr_sender := mm\<rparr>) }
      else Some t)"
| "transfer_exec oc t (Acknowledge _) = Some t"

fun transfer_run :: "bool \<Rightarrow> transfer \<Rightarrow> transfer_event list \<Rightarrow> transfer option" where
  "transfer_run oc t [] = Some t"
| "transfer_run oc t (ev # evs) = do { t \<leftarrow> transfer_exec oc t ev; transfer_run oc t evs }"

text \<open>The bytes of message \<open>seq\<close> that have arrived in order.\<close>

definition head_bytes :: "MessageManager \<Rightarrow> u64 \<Rightarrow> nat" where
  "head_bytes mm seq =
     (case bt_get (mm_incoming_slices mm) seq of
        None \<Rightarrow> 0
      | Some sm \<Rightarrow> (case last_head_index sm of None \<Rightarrow> 0 | Some i \<Rightarrow> i + 1))"

fun leaves_no_gap :: "MessageManager \<Rightarrow> LinkProtocol \<Rightarrow> bool" where
  "leaves_no_gap mm (MsgSlice _ seq _ first_index _) =
     (seq < fst (mm_last_ack mm) \<or> first_index \<le> head_bytes mm seq)"
| "leaves_no_gap mm _ = True"

fun transfer_allowed :: "transfer \<Rightarrow> transfer_event \<Rightarrow> bool" where
  "transfer_allowed t (Queue data) =
     (data \<noteq> [] \<and> length data \<le> isize_max \<and> length (tr_sent t) + 1 < u64_bound)"
| "transfer_allowed t (Transmit seq slice_size) = (0 < slice_size \<and> slice_size < u32_bound)"
| "transfer_allowed t (Receive p) = (p \<in> set (tr_slices t) \<and> leaves_no_gap (tr_receiver t) p)"
| "transfer_allowed t (Acknowledge p) = (p \<in> set (tr_acks t))"

text \<open>Every event of the sequence is allowed when its turn comes.\<close>

fun transfer_trace :: "bool \<Rightarrow> transfer \<Rightarrow> transfer_event list \<Rightarrow> bool" where
  "transfer_trace oc t [] = True"
| "transfer_trace oc t (ev # evs) =
     (transfer_allowed t ev \<and>
      (case transfer_exec oc t ev of None \<Rightarrow> True | Some t \<Rightarrow> transfer_trace oc t evs))"

text \<open>
  One round of \<open>Connected::timer\<close>: the sender resends the earliest message it still holds, the
  slices arrive, and the last acknowledgement comes back.
\<close>

definition resend_round :: "bool \<Rightarrow> u32 \<Rightarrow> transfer \<Rightarrow> transfer option" where
  "resend_round oc slice_size t =
     (case get_outgoing_slices (tr_sender t) of
        [] \<Rightarrow> Some t
      | sm # _ \<Rightarrow>
          do { ps \<leftarrow> get_slices oc sm slice_size;
               t \<leftarrow> transfer_run oc (t\<lparr>tr_slices := tr_slices t @ ps\<rparr>) (map Receive ps);
               if tr_acks t = [] then Some t
               else transfer_exec oc t (Acknowledge (last (tr_acks t))) })"

fun resend_rounds :: "bool \<Rightarrow> u32 \<Rightarrow> nat \<Rightarrow> transfer \<Rightarrow> transfer option" where
  "resend_rounds oc slice_size 0 t = Some t"
| "resend_rounds oc slice_size (Suc n) t =
     do { t \<leftarrow> resend_round oc slice_size t; resend_rounds oc slice_size n t }"

section \<open>The invariant\<close>

definition slice_of_sent :: "Epoch \<Rightarrow> bytes list \<Rightarrow> LinkProtocol \<Rightarrow> bool" where
  "slice_of_sent epoch ms p =
     (\<exists>q f d. p = MsgSlice (to_int epoch) q (length (ms ! q)) f d \<and> q < length ms \<and> is_slice (ms ! q) f d)"

definition ack_of_received :: "Epoch \<Rightarrow> bytes list \<Rightarrow> (nat \<Rightarrow> nat) \<Rightarrow> LinkProtocol \<Rightarrow> bool" where
  "ack_of_received epoch ms pfx p = (\<exists>seq i. p = Ack (to_int epoch) seq i \<and> valid_ack ms pfx (seq, i))"

definition transfer_rel :: "Epoch \<Rightarrow> (nat \<Rightarrow> nat) \<Rightarrow> transfer \<Rightarrow> bool" where
  "transfer_rel epoch pfx t =
     (recv_inv epoch (tr_sent t) pfx (tr_receiver t) \<and> send_inv epoch (tr_sent t) pfx (tr_sender t) \<and>
      small_messages (tr_sent t) \<and>
      (\<forall>p \<in> set (tr_slices t). slice_of_sent epoch (tr_sent t) p) \<and>
      (\<forall>p \<in> set (tr_acks t). ack_of_received epoch (tr_sent t) pfx p) \<and>
      tr_delivered t = take (fst (mm_last_ack (tr_receiver t))) (tr_sent t))"

lemma take_map_nth_upt:
  "a \<le> b \<Longrightarrow> b \<le> length xs \<Longrightarrow> take a xs @ map ((!) xs) [a..<b] = take b xs"
  by (intro nth_equalityI) (auto simp: nth_append)

lemma transfer_rel_start: "transfer_rel epoch (\<lambda>_. 0) (transfer_start epoch)"
  by (simp add: transfer_rel_def transfer_start_def recv_inv_new send_inv_new small_messages_def)

lemma slice_of_sent_append: "slice_of_sent epoch ms p \<Longrightarrow> slice_of_sent epoch (ms @ [m]) p"
  by (auto simp: slice_of_sent_def nth_append)

lemma valid_ack_append:
  "valid_ack ms pfx ack \<Longrightarrow> valid_ack (ms @ [m]) pfx ack"
  by (auto simp: valid_ack_def complete_def nth_append)

lemma grow_ge: "pfx j \<le> grow pfx q f d j"
  by (simp add: grow_def)

lemma valid_ack_grow:
  "valid_ack ms pfx ack \<Longrightarrow> is_slice (ms ! q) f d \<Longrightarrow> valid_ack ms (grow pfx q f d) ack"
  unfolding valid_ack_def using complete_grow [of ms pfx _ q f d] grow_ge [of pfx "fst ack" q f d]
  by auto

lemma last_ack_le_sent:
  "recv_inv epoch ms pfx mm \<Longrightarrow> fst (mm_last_ack mm) \<le> length ms"
  by (rule ccontr) (auto simp: recv_inv_def complete_def not_le)

lemma head_bytes_prefix:
  assumes "recv_inv epoch ms pfx mm" "fst (mm_last_ack mm) \<le> q"
  shows "head_bytes mm q = pfx q"
proof -
  have st: "stored_ok epoch ms pfx (fst (mm_last_ack mm)) (mm_incoming_slices mm)"
    using assms(1) by (simp add: recv_inv_def)
  show ?thesis
  proof (cases "bt_get (mm_incoming_slices mm) q")
    case None
    then have "q \<notin> fst ` set (mm_incoming_slices mm)"
      using st by (auto simp: stored_ok_def bt.get_entries [symmetric])
    then show ?thesis
      using None st assms(2) by (auto simp: head_bytes_def stored_ok_def)
  next
    case (Some sm)
    then have "(q, sm) \<in> set (mm_incoming_slices mm)"
      using st by (simp add: stored_ok_def bt.get_entries)
    then have "holds_prefix sm (ms ! q) (pfx q)"
      using st by (auto simp: stored_ok_def holds_prefix_of_def)
    then show ?thesis
      using Some by (simp add: head_bytes_def last_head_index_prefix)
  qed
qed

lemma leaves_no_gap_prefix:
  assumes "recv_inv epoch ms pfx mm" "leaves_no_gap mm (MsgSlice e q n f d)" "is_slice (ms ! q) f d"
  shows "f \<le> pfx q"
proof (cases "q < fst (mm_last_ack mm)")
  case True
  then show ?thesis
    using assms(1,3) by (auto simp: recv_inv_def complete_def is_slice_def)
next
  case False
  then show ?thesis
    using assms(2) head_bytes_prefix [OF assms(1), of q] by simp
qed

lemma send_inv_grow:
  assumes "send_inv epoch ms pfx mm" "is_slice (ms ! q) f d"
  shows "send_inv epoch ms (grow pfx q f d) mm"
proof (rule send_invI)
  fix j sm assume "(j, sm) \<in> set (mm_outgoing_slices mm)"
  with assms(1) obtain k where "j < length ms" "k \<le> pfx j" "queued epoch j (ms ! j) k sm"
    using send_inv_entry by blast
  then show "j < length ms \<and> (\<exists>k \<le> grow pfx q f d j. queued epoch j (ms ! j) k sm)"
    using le_trans [OF _ grow_ge] by blast
next
  fix j assume "j < length ms" "\<not> complete ms (grow pfx q f d) j"
  then have "\<not> complete ms pfx j"
    using complete_grow [OF _ assms(2)] by blast
  from send_inv_key [OF assms(1) \<open>j < length ms\<close> this]
  show "j \<in> fst ` set (mm_outgoing_slices mm)" by force
qed (use send_inv_fields [OF assms(1)] in simp_all)

lemma receive_rel:
  assumes rel: "transfer_rel epoch pfx t" and q: "q < length (tr_sent t)"
    and slice: "is_slice (tr_sent t ! q) f d" and gap: "f \<le> pfx q"
  obtains t' where
    "transfer_exec oc t (Receive (MsgSlice (to_int epoch) q (length (tr_sent t ! q)) f d)) = Some t'"
    "transfer_rel epoch (grow pfx q f d) t'" "tr_sent t' = tr_sent t" "tr_sender t' = tr_sender t"
    "tr_slices t' = tr_slices t"
    "fst (mm_last_ack (tr_receiver t)) \<le> fst (mm_last_ack (tr_receiver t'))"
    "q < fst (mm_last_ack (tr_receiver t')) \<Longrightarrow> tr_acks t' \<noteq> [] \<and>
       last (tr_acks t') = Ack (to_int epoch) (fst (mm_last_ack (tr_receiver t'))) (snd (mm_last_ack (tr_receiver t')))"
proof -
  let ?ms = "tr_sent t" and ?mm = "tr_receiver t" and ?pfx = "grow pfx q f d"
  have inv: "recv_inv epoch ?ms pfx ?mm" and small: "small_messages ?ms" and ep: "mm_epoch ?mm = epoch"
    using rel by (auto simp: transfer_rel_def recv_inv_def)
  obtain ch mm1 where mm1: "MessageManager_recv oc ?mm q f (length (?ms ! q)) d = Some (ch, mm1)"
    "recvd epoch ?ms ?pfx (fst (mm_last_ack ?mm)) mm1" "q < fst (mm_last_ack mm1) \<Longrightarrow> ch"
    using recv_honest [OF inv small q slice gap, of oc] by blast
  obtain mm2 where mm2: "take_recvd oc mm1 =
      Some (map ((!) ?ms) [fst (mm_last_ack ?mm)..<fst (mm_last_ack mm1)], mm2)"
    "recv_inv epoch ?ms ?pfx mm2" "mm_last_ack mm2 = mm_last_ack mm1"
    using take_recvd_recvd [OF mm1(2)] by blast
  let ?msgs = "map ((!) ?ms) [fst (mm_last_ack ?mm)..<fst (mm_last_ack mm1)]"
  let ?acks = "if ch then [Ack (to_int epoch) (fst (mm_last_ack mm1)) (snd (mm_last_ack mm1))] else []"
  let ?t = "t\<lparr>tr_receiver := mm2, tr_acks := tr_acks t @ ?acks, tr_delivered := tr_delivered t @ ?msgs\<rparr>"
  have ep1: "mm_epoch mm1 = epoch" and mono: "fst (mm_last_ack ?mm) \<le> fst (mm_last_ack mm1)"
    using mm1(2) by (auto simp: recvd_def)
  have "transfer_exec oc t (Receive (MsgSlice (to_int epoch) q (length (?ms ! q)) f d)) = Some ?t"
    using mm1(1) mm2(1) by (simp add: receive_slice_def ep ep1 Let_def)
  moreover have "transfer_rel epoch ?pfx ?t"
  proof -
    have "ack_of_received epoch ?ms ?pfx p" if "p \<in> set (tr_acks ?t)" for p
      using that rel valid_ack_last_ack [OF mm2(2)] mm2(3) valid_ack_grow [OF _ slice]
      by (auto simp: transfer_rel_def ack_of_received_def split: if_splits)
    moreover have "fst (mm_last_ack mm1) \<le> length ?ms"
      using last_ack_le_sent [OF mm2(2)] mm2(3) by simp
    then have "tr_delivered t @ ?msgs = take (fst (mm_last_ack mm2)) ?ms"
      using rel mono mm2(3) by (simp add: transfer_rel_def take_map_nth_upt)
    ultimately show ?thesis
      using rel mm2(2) send_inv_grow [OF _ slice] by (simp add: transfer_rel_def)
  qed
  ultimately show thesis
    using that [of ?t] mm1(3) mm2(3) mono by simp
qed

lemma transmit_slices:
  assumes "transfer_rel epoch pfx t" "(q, sm) \<in> set (mm_outgoing_slices (tr_sender t))"
    "0 < slice_size" "slice_size < u32_bound"
  obtains ps k where "get_slices oc sm slice_size = Some ps" "q < length (tr_sent t)" "k \<le> pfx q"
    "slice_chain (to_int epoch) q (tr_sent t ! q) k ps (length (tr_sent t ! q))" "ps \<noteq> []"
proof -
  obtain k where k: "q < length (tr_sent t)" "k \<le> pfx q" "queued epoch q (tr_sent t ! q) k sm"
    using assms(1,2) send_inv_entry by (fastforce simp: transfer_rel_def)
  have "length (sm_data sm) \<le> isize_max"
    using k assms(1) by (simp add: queued_def transfer_rel_def small_messages_def)
  moreover have "sends_from sm k" "k < length (sm_data sm)"
    using k(3) by (auto simp: queued_def)
  ultimately obtain ps where ps: "get_slices oc sm slice_size = Some ps"
    "slice_chain (to_int (sm_epoch sm)) (sm_seq sm) (sm_data sm) k ps (length (sm_data sm))"
    using get_slices_chain assms(3,4) by metis
  moreover have "ps \<noteq> []"
    using ps(2) \<open>k < length (sm_data sm)\<close> by auto
  ultimately show thesis
    using that [of ps k] k by (simp add: queued_def)
qed

lemma slice_chain_sent:
  "slice_chain (to_int epoch) q (ms ! q) k ps stop \<Longrightarrow> q < length ms \<Longrightarrow> p \<in> set ps \<Longrightarrow>
   slice_of_sent epoch ms p"
  using slice_chain_slices [of "to_int epoch" q "ms ! q" k ps stop p]
  by (auto simp: slice_of_sent_def)

lemma transfer_rel_slices:
  "transfer_rel epoch pfx t \<Longrightarrow> \<forall>p \<in> set ps. slice_of_sent epoch (tr_sent t) p \<Longrightarrow>
   transfer_rel epoch pfx (t\<lparr>tr_slices := tr_slices t @ ps\<rparr>)"
  by (auto simp: transfer_rel_def)

lemma queue_rel:
  assumes "transfer_rel epoch pfx t" "transfer_allowed t (Queue m)"
  shows "\<exists>t'. transfer_exec oc t (Queue m) = Some t' \<and> transfer_rel epoch pfx t'"
proof -
  have inv: "send_inv epoch (tr_sent t) pfx (tr_sender t)"
    using assms(1) by (simp add: transfer_rel_def)
  have m: "m \<noteq> []" "length (tr_sent t) + 1 < u64_bound"
    using assms(2) by simp_all
  obtain mm where mm: "insert_msg oc (tr_sender t) m = Some (length (tr_sent t), mm)"
    "send_inv epoch (tr_sent t @ [m]) pfx mm"
    using insert_msg_inv [OF inv m, of oc] by metis
  have "ack_of_received epoch (tr_sent t @ [m]) pfx p" if "p \<in> set (tr_acks t)" for p
    using that assms(1) valid_ack_append by (fastforce simp: transfer_rel_def ack_of_received_def)
  moreover have "slice_of_sent epoch (tr_sent t @ [m]) p" if "p \<in> set (tr_slices t)" for p
    using that assms(1) slice_of_sent_append by (auto simp: transfer_rel_def)
  moreover have "fst (mm_last_ack (tr_receiver t)) \<le> length (tr_sent t)"
    using assms(1) last_ack_le_sent by (auto simp: transfer_rel_def)
  ultimately show ?thesis
    using assms mm recv_inv_append by (simp add: transfer_rel_def small_messages_def)
qed

lemma acknowledge_rel:
  assumes "transfer_rel epoch pfx t" "ack_of_received epoch (tr_sent t) pfx p"
  obtains t' where "transfer_exec oc t (Acknowledge p) = Some t'" "transfer_rel epoch pfx t'"
    "tr_sent t' = tr_sent t" "tr_delivered t' = tr_delivered t" "tr_receiver t' = tr_receiver t"
    "\<And>e seq i. p = Ack e seq i \<Longrightarrow> fst ` set (mm_outgoing_slices (tr_sender t')) \<subseteq>
       {q \<in> fst ` set (mm_outgoing_slices (tr_sender t)). seq \<le> q}"
proof -
  obtain seq i where p: "p = Ack (to_int epoch) seq i" "valid_ack (tr_sent t) pfx (seq, i)"
    using assms(2) by (auto simp: ack_of_received_def)
  have inv: "send_inv epoch (tr_sent t) pfx (tr_sender t)" and small: "small_messages (tr_sent t)"
    and rinv: "recv_inv epoch (tr_sent t) pfx (tr_receiver t)"
    using assms(1) by (auto simp: transfer_rel_def)
  have bound: "\<And>j. pfx j \<noteq> 0 \<Longrightarrow> pfx j \<le> length (tr_sent t ! j)"
    using recv_inv_bound [OF rinv] by blast
  obtain mm where mm: "recv_ack oc (tr_sender t) (seq, i) = Some mm"
    "send_inv epoch (tr_sent t) pfx mm"
    "mm_incoming_slices mm = mm_incoming_slices (tr_sender t)"
    "mm_last_ack mm = mm_last_ack (tr_sender t)"
    "fst ` set (mm_outgoing_slices mm) \<subseteq> {q \<in> fst ` set (mm_outgoing_slices (tr_sender t)). seq \<le> q}"
    by (rule recv_ack_inv [OF inv p(2) bound small])
  let ?t = "t\<lparr>tr_sender := mm\<rparr>"
  have "transfer_exec oc t (Acknowledge p) = Some ?t"
    using p(1) mm(1) send_inv_fields [OF inv] by simp
  moreover have "transfer_rel epoch pfx ?t"
    using assms(1) mm(2) by (simp add: transfer_rel_def)
  ultimately show thesis
    using that [of ?t] mm(5) p(1) by simp
qed

lemma exec_rel:
  assumes "transfer_rel epoch pfx t" "transfer_allowed t ev"
  shows "\<exists>t' pfx'. transfer_exec oc t ev = Some t' \<and> transfer_rel epoch pfx' t'"
proof (cases ev)
  case (Queue m)
  then show ?thesis using queue_rel assms by blast
next
  case (Transmit q slice_size)
  show ?thesis
  proof (cases "get_outgoing_slice (tr_sender t) q")
    case None
    then show ?thesis using Transmit assms(1) by auto
  next
    case (Some sm)
    moreover have "bt_wf (mm_outgoing_slices (tr_sender t))"
      using assms(1) by (simp add: transfer_rel_def send_inv_def)
    ultimately have entry: "(q, sm) \<in> set (mm_outgoing_slices (tr_sender t))"
      by (simp add: get_outgoing_slice_def bt.get_entries)
    have "0 < slice_size" "slice_size < u32_bound"
      using Transmit assms(2) by simp_all
    then obtain ps k where ps: "get_slices oc sm slice_size = Some ps" "q < length (tr_sent t)"
      "slice_chain (to_int epoch) q (tr_sent t ! q) k ps (length (tr_sent t ! q))"
      using transmit_slices [OF assms(1) entry, of slice_size oc] by blast
    then have "transfer_rel epoch pfx (t\<lparr>tr_slices := tr_slices t @ ps\<rparr>)"
      using transfer_rel_slices [OF assms(1)] slice_chain_sent by blast
    then show ?thesis using Some Transmit ps(1) by auto
  qed
next
  case (Receive p)
  then have sent: "slice_of_sent epoch (tr_sent t) p" and gap: "leaves_no_gap (tr_receiver t) p"
    using assms by (auto simp: transfer_rel_def)
  then obtain q f d where p: "p = MsgSlice (to_int epoch) q (length (tr_sent t ! q)) f d"
    "q < length (tr_sent t)" "is_slice (tr_sent t ! q) f d"
    by (auto simp: slice_of_sent_def)
  have "f \<le> pfx q"
    using leaves_no_gap_prefix gap p assms(1) by (auto simp: transfer_rel_def)
  then show ?thesis
    using receive_rel [OF assms(1) p(2,3), of oc] p(1) Receive by metis
next
  case (Acknowledge p)
  then have "ack_of_received epoch (tr_sent t) pfx p"
    using assms by (auto simp: transfer_rel_def)
  then show ?thesis
    using acknowledge_rel [OF assms(1), of p oc] Acknowledge by metis
qed

lemma run_rel:
  "transfer_rel epoch pfx t \<Longrightarrow> transfer_trace oc t evs \<Longrightarrow>
   \<exists>t' pfx'. transfer_run oc t evs = Some t' \<and> transfer_rel epoch pfx' t'"
proof (induction evs arbitrary: t pfx)
  case Nil
  then show ?case by auto
next
  case (Cons ev evs)
  then obtain t' pfx' where "transfer_exec oc t ev = Some t'" "transfer_rel epoch pfx' t'"
    using exec_rel [of epoch pfx t ev oc] by auto
  with Cons show ?case by auto
qed

section \<open>Resending\<close>

lemma receive_chain:
  assumes "transfer_rel epoch pfx t" "q < length (tr_sent t)" "k \<le> pfx q" "ps \<noteq> []"
    "slice_chain (to_int epoch) q (tr_sent t ! q) k ps (length (tr_sent t ! q))"
    "q \<le> fst (mm_last_ack (tr_receiver t))"
  shows "\<exists>t' pfx'. transfer_run oc t (map Receive ps) = Some t' \<and> transfer_rel epoch pfx' t' \<and>
    tr_sent t' = tr_sent t \<and> tr_sender t' = tr_sender t \<and> tr_acks t' \<noteq> [] \<and>
    q < fst (mm_last_ack (tr_receiver t')) \<and>
    last (tr_acks t') =
      Ack (to_int epoch) (fst (mm_last_ack (tr_receiver t'))) (snd (mm_last_ack (tr_receiver t')))"
  using assms
proof (induction ps arbitrary: t pfx k)
  case (Cons p ps)
  obtain f d where p: "p = MsgSlice (to_int epoch) q (length (tr_sent t ! q)) f d"
    "is_slice (tr_sent t ! q) f d" "f = k"
    "slice_chain (to_int epoch) q (tr_sent t ! q) (f + length d) ps (length (tr_sent t ! q))"
    using Cons.prems(5) by (cases p) auto
  have gap: "f \<le> pfx q" using p(3) Cons.prems(3) by simp
  obtain t' where t': "transfer_exec oc t (Receive p) = Some t'"
    "transfer_rel epoch (grow pfx q f d) t'" "tr_sent t' = tr_sent t" "tr_sender t' = tr_sender t"
    "fst (mm_last_ack (tr_receiver t)) \<le> fst (mm_last_ack (tr_receiver t'))"
    "q < fst (mm_last_ack (tr_receiver t')) \<Longrightarrow> tr_acks t' \<noteq> [] \<and>
       last (tr_acks t') = Ack (to_int epoch) (fst (mm_last_ack (tr_receiver t'))) (snd (mm_last_ack (tr_receiver t')))"
    using receive_rel [OF Cons.prems(1,2) p(2) gap, of oc] p(1) by metis
  have le: "q \<le> fst (mm_last_ack (tr_receiver t'))"
    using t'(5) Cons.prems(6) by simp
  show ?case
  proof (cases "ps = []")
    case False
    have "f + length d \<le> grow pfx q f d q"
      by (simp add: grow_def)
    then show ?thesis
      using Cons.IH [OF t'(2), of "f + length d"] t' False p(4) le Cons.prems(2) by auto
  next
    case True
    have inv: "recv_inv epoch (tr_sent t) (grow pfx q f d) (tr_receiver t')"
      using t'(2,3) by (simp add: transfer_rel_def)
    have "complete (tr_sent t) (grow pfx q f d) q"
      using recv_inv_bound [OF inv, of q] p(2,4) True Cons.prems(2)
      by (auto simp: complete_def grow_def is_slice_def)
    then have "q < fst (mm_last_ack (tr_receiver t'))"
      using le inv by (metis recv_inv_def le_neq_implies_less)
    then show ?thesis
      using True t' by auto
  qed
qed simp

lemma earliest_outgoing:
  assumes "transfer_rel epoch pfx t" "mm_outgoing_slices (tr_sender t) = (q, sm) # rest"
  shows "q \<le> fst (mm_last_ack (tr_receiver t))"
proof (rule ccontr)
  let ?d = "fst (mm_last_ack (tr_receiver t))"
  assume "\<not> q \<le> ?d"
  moreover have "q < length (tr_sent t)"
    using assms send_inv_entry [of epoch "tr_sent t" pfx "tr_sender t" q sm]
    by (simp add: transfer_rel_def)
  moreover have "\<not> complete (tr_sent t) pfx ?d"
    using assms(1) by (simp add: transfer_rel_def recv_inv_def)
  ultimately obtain sm' where "(?d, sm') \<in> set ((q, sm) # rest)"
    using send_inv_key [of epoch "tr_sent t" pfx "tr_sender t" ?d] assms
    by (auto simp: transfer_rel_def)
  moreover have "bt_wf ((q, sm) # rest)"
    using assms send_inv_fields by (fastforce simp: transfer_rel_def)
  ultimately show False
    using \<open>\<not> q \<le> ?d\<close> by auto
qed

lemma keys_subset_length:
  "bt_wf m \<Longrightarrow> bt_wf m' \<Longrightarrow> fst ` set m' \<subseteq> K \<Longrightarrow> K \<subset> fst ` set m \<Longrightarrow> length m' < length m"
proof -
  assume a: "bt_wf m" "bt_wf m'" "fst ` set m' \<subseteq> K" "K \<subset> fst ` set m"
  have "card (set (map fst m')) < card (set (map fst m))"
    using a(3,4) by (intro psubset_card_mono) auto
  then show ?thesis
    using a(1,2) by (simp only: distinct_card bt_wf_distinct length_map)
qed

lemma keys_drop: "q \<in> K \<Longrightarrow> q < d \<Longrightarrow> {j \<in> K. d \<le> j} \<subset> K" for d :: nat
  by (metis (no_types, lifting) leD mem_Collect_eq psubsetI subsetI)

lemma outgoing_wf: "transfer_rel epoch pfx t \<Longrightarrow> bt_wf (mm_outgoing_slices (tr_sender t))"
  by (simp add: transfer_rel_def send_inv_def)

lemma resend_round_rel:
  assumes "transfer_rel epoch pfx t" "0 < slice_size" "slice_size < u32_bound"
    "mm_outgoing_slices (tr_sender t) \<noteq> []"
  shows "\<exists>t' pfx'. resend_round oc slice_size t = Some t' \<and> transfer_rel epoch pfx' t' \<and>
    tr_sent t' = tr_sent t \<and>
    length (mm_outgoing_slices (tr_sender t')) < length (mm_outgoing_slices (tr_sender t))"
proof -
  obtain q sm rest where out: "mm_outgoing_slices (tr_sender t) = (q, sm) # rest"
    using assms(4) by (cases "mm_outgoing_slices (tr_sender t)") auto
  then have entry: "(q, sm) \<in> set (mm_outgoing_slices (tr_sender t))" by simp
  obtain ps k where ps: "get_slices oc sm slice_size = Some ps" "q < length (tr_sent t)" "k \<le> pfx q"
    "slice_chain (to_int epoch) q (tr_sent t ! q) k ps (length (tr_sent t ! q))" "ps \<noteq> []"
    using transmit_slices [OF assms(1) entry assms(2,3), of oc] by blast
  let ?t1 = "t\<lparr>tr_slices := tr_slices t @ ps\<rparr>"
  have rel1: "transfer_rel epoch pfx ?t1"
    using transfer_rel_slices [OF assms(1)] slice_chain_sent [OF ps(4,2)] by blast
  obtain t2 pfx2 where t2: "transfer_run oc ?t1 (map Receive ps) = Some t2"
    "transfer_rel epoch pfx2 t2" "tr_sent t2 = tr_sent t" "tr_sender t2 = tr_sender t"
    "tr_acks t2 \<noteq> []" "q < fst (mm_last_ack (tr_receiver t2))"
    "last (tr_acks t2) = Ack (to_int epoch) (fst (mm_last_ack (tr_receiver t2))) (snd (mm_last_ack (tr_receiver t2)))"
    using receive_chain [OF rel1, of q k ps oc] ps earliest_outgoing [OF assms(1) out] by auto
  have "ack_of_received epoch (tr_sent t2) pfx2 (last (tr_acks t2))"
    using t2(2,5) by (simp add: transfer_rel_def)
  then obtain t3 where t3: "transfer_exec oc t2 (Acknowledge (last (tr_acks t2))) = Some t3"
    "transfer_rel epoch pfx2 t3" "tr_sent t3 = tr_sent t2"
    "fst ` set (mm_outgoing_slices (tr_sender t3)) \<subseteq>
       {j \<in> fst ` set (mm_outgoing_slices (tr_sender t2)). fst (mm_last_ack (tr_receiver t2)) \<le> j}"
    using t2(7) by (elim acknowledge_rel [OF t2(2), of _ oc]) blast
  have "{j \<in> fst ` set (mm_outgoing_slices (tr_sender t)). fst (mm_last_ack (tr_receiver t2)) \<le> j}
      \<subset> fst ` set (mm_outgoing_slices (tr_sender t))"
    using entry t2(6) by (intro keys_drop [of q]) (auto intro: rev_image_eqI)
  then have "length (mm_outgoing_slices (tr_sender t3)) < length (mm_outgoing_slices (tr_sender t))"
    using keys_subset_length [OF outgoing_wf [OF assms(1)] outgoing_wf [OF t3(2)]] t3(4) t2(4) by simp
  moreover have "resend_round oc slice_size t = Some t3"
    using out ps(1) t2(1,5) t3(1) by (simp add: resend_round_def get_outgoing_slices_def)
  ultimately show ?thesis
    using t3(2,3) t2(3) by auto
qed

lemma all_delivered:
  assumes "transfer_rel epoch pfx t" "mm_outgoing_slices (tr_sender t) = []"
  shows "tr_delivered t = tr_sent t"
proof -
  let ?d = "fst (mm_last_ack (tr_receiver t))"
  have "\<not> complete (tr_sent t) pfx ?d"
    using assms(1) by (simp add: transfer_rel_def recv_inv_def)
  then have "\<not> ?d < length (tr_sent t)"
    using send_inv_key [of epoch "tr_sent t" pfx "tr_sender t" ?d] assms by (auto simp: transfer_rel_def)
  then show ?thesis
    using assms(1) by (simp add: transfer_rel_def)
qed

lemma resend_rounds_rel:
  assumes "transfer_rel epoch pfx t" "0 < slice_size" "slice_size < u32_bound"
    "length (mm_outgoing_slices (tr_sender t)) \<le> n"
  shows "\<exists>t' pfx'. resend_rounds oc slice_size n t = Some t' \<and> transfer_rel epoch pfx' t' \<and>
    tr_sent t' = tr_sent t \<and> mm_outgoing_slices (tr_sender t') = []"
  using assms(1,4)
proof (induction n arbitrary: t pfx)
  case 0
  then show ?case
    by (intro exI [of _ t] exI [of _ pfx]) simp
next
  case (Suc n)
  show ?case
  proof (cases "mm_outgoing_slices (tr_sender t) = []")
    case True
    then have "resend_round oc slice_size t = Some t"
      by (simp add: resend_round_def get_outgoing_slices_def)
    with Suc.IH [OF Suc.prems(1)] True show ?thesis by simp
  next
    case False
    obtain t' pfx' where t': "resend_round oc slice_size t = Some t'" "transfer_rel epoch pfx' t'"
      "tr_sent t' = tr_sent t"
      "length (mm_outgoing_slices (tr_sender t')) < length (mm_outgoing_slices (tr_sender t))"
      using resend_round_rel [OF Suc.prems(1) assms(2,3) False, of oc] by blast
    with Suc.IH [OF t'(2)] Suc.prems(2) show ?thesis by simp
  qed
qed

section \<open>Properties\<close>

text \<open>
  Whatever the network loses, repeats, delays or reorders, as long as no slice arrives beyond a
  gap of its message, neither side panics and the user receives the messages that were queued,
  each of them once, unchanged and in order: what has been delivered is a prefix of what was sent.
\<close>

theorem delivered_in_order:
  assumes "transfer_trace oc (transfer_start epoch) evs"
  shows "\<exists>t. transfer_run oc (transfer_start epoch) evs = Some t \<and>
    tr_delivered t = take (length (tr_delivered t)) (tr_sent t)"
proof -
  obtain t pfx where "transfer_run oc (transfer_start epoch) evs = Some t" "transfer_rel epoch pfx t"
    using run_rel [OF transfer_rel_start assms] by blast
  then show ?thesis
    by (auto simp: transfer_rel_def min_def)
qed

lemmas transfer_eval = message_eval transfer_start_def insert_msg_def SliceManager_from_vec_def
  get_outgoing_slice_def get_slices_def get_slices_of.simps make_slices_def make_slices_loop.simps
  receive_slice_def head_bytes_def recv_ack_def SliceManager_ack_def remove_slice_def
  remove_slice_loop.simps SliceManager_is_empty_def

lemma delivered_in_order_witness:
  "\<exists>t. transfer_run True (transfer_start (Epoch 1))
      [Queue [7, 8, 9], Queue [5], Transmit 1 2, Receive (MsgSlice 1 1 1 0 [5]), Transmit 0 2,
       Receive (MsgSlice 1 0 3 0 [7, 8]), Receive (MsgSlice 1 0 3 2 [9])] = Some t \<and>
    tr_delivered t = take (length (tr_delivered t)) (tr_sent t)"
  by (rule delivered_in_order) (simp add: transfer_eval)




end
