(* ===== verification/Sessions.thy ===== *)
theory Sessions
  imports Core_Safety Message_Transfer "HOL-Library.Sublist"
begin

text \<open>
  Two link sets and everything between them. Both run the loop of \<^verbatim>\<open>src/src/core.rs\<close> from the start,
  with any links, any users and any timing; links come and go, sessions end and new ones begin. The
  network loses, repeats and reorders what is written, and may invent any \<open>Reset\<close>, \<open>Ping\<close> and \<open>Pong\<close>.
  What it delivers besides is honest: a slice of a message that the other user has sent in that epoch,
  or an acknowledgement that the other side owed at some time. That each side in turn writes honest
  messages only is shown in \<open>Writing\<close>.

  The message manager of a session is what the three states of a session have in common: first it is
  shown to change by \<open>insert_msg\<close>, \<open>recv_ack\<close>, \<open>recv\<close> and \<open>take_recvd\<close> only, whatever else happens to
  the core, and then two of them are the two sides of a transfer for each epoch and direction.
\<close>

section \<open>A session of one link set\<close>

definition session_epoch :: "('l, 'c) States \<Rightarrow> Epoch option" where
  "session_epoch st = (if in_session (phase_of st) then state_epoch st else None)"

fun queued_msgs :: "('l, 'c) States \<Rightarrow> bytes list" where
  "queued_msgs (S_Connecting s) = cn_queued_msgs s"
| "queued_msgs (S_EpochMismatch s) = em_queued_msgs s"
| "queued_msgs _ = []"

text \<open>The messages that the user of a link set has received in an epoch.\<close>

fun messages_in :: "Epoch \<Rightarrow> LinkSetMessageInner list \<Rightarrow> bytes list" where
  "messages_in e [] = []"
| "messages_in e (InnerMessage m e' # log) = (if e' = e then [m] else []) @ messages_in e log"
| "messages_in e (_ # log) = messages_in e log"

lemma messages_in_append [simp]: "messages_in e (l @ l') = messages_in e l @ messages_in e l'"
  by (induction e l rule: messages_in.induct) simp_all

text \<open>
  What an event does to the manager of a session: the acknowledgement it owes, the messages it hands
  to the user, and the manager afterwards.
\<close>

fun session_exec ::
  "bool \<Rightarrow> Epoch \<Rightarrow> MessageManager \<Rightarrow> ('l, 'c) core_event \<Rightarrow>
   (LinkProtocol list \<times> bytes list \<times> MessageManager) option" where
  "session_exec oc e mm (FromCtrl (Command (CmdMessage data epoch))) =
     (if epoch = None \<or> epoch = Some e
      then do { (_, mm) \<leftarrow> insert_msg oc mm data; Some ([], [], mm) } else Some ([], [], mm))"
| "session_exec oc e mm (FromLink _ (Ack epoch seq last_index)) =
     (if epoch = to_int e
      then do { mm \<leftarrow> recv_ack oc mm (seq, last_index); Some ([], [], mm) } else Some ([], [], mm))"
| "session_exec oc e mm (FromLink _ (MsgSlice epoch seq seq_len first_index data)) =
     (if epoch = to_int e then receive_slice oc mm seq first_index seq_len data else Some ([], [], mm))"
| "session_exec oc e mm _ = Some ([], [], mm)"

fun insert_all :: "bool \<Rightarrow> bytes list \<Rightarrow> MessageManager \<Rightarrow> MessageManager option" where
  "insert_all oc [] mm = Some mm"
| "insert_all oc (m # ms) mm = do { (_, mm) \<leftarrow> insert_msg oc mm m; insert_all oc ms mm }"

text \<open>
  What an outcome shows of the session: its epoch and its manager, the messages that wait for one,
  and what the user has been told.
\<close>

definition keeps_session ::
  "Epoch \<Rightarrow> MessageManager \<Rightarrow> bytes list \<Rightarrow> LinkSetMessageInner list \<Rightarrow> ('l, 'c) States \<times> CommonState \<Rightarrow> bool" where
  "keeps_session e mm msgs log sc =
     ((session_epoch (fst sc) = Some e \<and> state_msg_mgr (fst sc) = Some mm \<or> session_epoch (fst sc) = None) \<and>
      queued_msgs (fst sc) = [] \<and>
      (\<forall>e'. messages_in e' (cs_to_ctrl (snd sc)) = messages_in e' log @ (if e' = e then msgs else [])) \<and>
      connected_epochs (cs_to_ctrl (snd sc)) = connected_epochs log)"

lemma messages_emitted [simp]:
  "messages_in e (map (\<lambda>m. InnerMessage m e') msgs) = (if e = e' then msgs else [])"
  "connected_epochs (map (\<lambda>m. InnerMessage m e') msgs) = []"
  by (induction msgs) simp_all

lemma determine_state_keeps:
  assumes "cd_epoch s = e" "cd_msg_mgr s = mm"
    "\<forall>e'. messages_in e' (cs_to_ctrl common) = messages_in e' log @ (if e' = e then msgs else [])"
    "connected_epochs (cs_to_ctrl common) = connected_epochs log"
  shows "keeps_session e mm msgs log (determine_state env s common)"
  using assms
  by (auto simp: determine_state_def keeps_session_def transition_defs session_epoch_def in_session_def split: option.split)

text \<open>A handler of a session returned, and its manager did what \<open>session_exec\<close> says.\<close>

definition follows ::
  "bool \<Rightarrow> Epoch \<Rightarrow> MessageManager \<Rightarrow> ('l, 'c) core_event \<Rightarrow> LinkSetMessageInner list \<Rightarrow>
   ('l, 'c) States \<times> CommonState \<Rightarrow> bool" where
  "follows oc e mm ev log sc =
     (\<exists>acks msgs mm'. session_exec oc e mm ev = Some (acks, msgs, mm') \<and> keeps_session e mm' msgs log sc)"

lemma keeps_same:
  "session_epoch st = Some e \<Longrightarrow> state_msg_mgr st = Some mm \<Longrightarrow> queued_msgs st = [] \<Longrightarrow> cs_to_ctrl common = log \<Longrightarrow>
   keeps_session e mm [] log (st, common)"
  by (simp add: keeps_session_def)

lemma session_state [simp]:
  "session_epoch (S_Connected cd) = Some (cd_epoch cd)" "session_epoch (S_Reconnecting rc) = Some (rc_epoch rc)"
  "session_epoch (S_GracePeriod gp) = Some (gp_epoch gp)" "session_epoch (S_Disconnected dc) = None"
  "session_epoch (S_Connecting cn) = None" "session_epoch (S_EpochMismatch em) = None"
  by (simp_all add: session_epoch_def in_session_def)

lemma transitions_keep:
  "keeps_session (cd_epoch cd) mm [] (cs_to_ctrl common) (Disconnected_from_Connected cd common)"
  "keeps_session (rc_epoch rc) mm [] (cs_to_ctrl common) (Disconnected_from_Reconnecting rc common)"
  "keeps_session (gp_epoch gp) mm [] (cs_to_ctrl common) (Disconnected_from_GracePeriod gp common)"
  "keeps_session (rc_epoch rc) mm [] (cs_to_ctrl common) (Connecting_from_Reconnecting env rc common)"
  "keeps_session (gp_epoch gp) mm [] (cs_to_ctrl common) (Connecting_from_GracePeriod env gp common)"
  "keeps_session (cd_epoch cd) mm [] (cs_to_ctrl common) (EpochMismatch_from_Connected env cd common)"
  "cs_to_ctrl common = log \<Longrightarrow>
   keeps_session (rc_epoch rc) (rc_msg_mgr rc) [] log (Connected_from_Reconnecting env rc common link)"
  "cs_to_ctrl common = log \<Longrightarrow>
   keeps_session (gp_epoch gp) (gp_msg_mgr gp) [] log (Connected_from_GracePeriod env gp common link)"
  by (auto simp: keeps_session_def transition_defs)

lemma Connected_ctrl_follows:
  assumes "Connected_ctrl_msg env s common cmd = Some sc"
  shows "follows (en_oc env) (cd_epoch s) (cd_msg_mgr s) (FromCtrl (Command cmd)) (cs_to_ctrl common) sc"
proof (cases cmd)
  case (CmdMessage msg epoch)
  with assms show ?thesis
    by (auto simp: follows_def split: if_splits bind_splits intro!: keeps_same determine_state_keeps)
qed (use assms in \<open>auto simp: follows_def split: bind_splits sum.splits dest!: wrap_link_common
       intro!: keeps_same transitions_keep\<close>)

lemma Connected_link_follows:
  fixes sc :: "('l, 'c) States \<times> CommonState"
  assumes "Connected_link_msg env s common link_id msg = Some sc"
  shows "follows (en_oc env) (cd_epoch s) (cd_msg_mgr s) (FromLink link_id msg) (cs_to_ctrl common) sc"
proof (cases msg)
  case (MsgSlice epoch seq seq_len first_index data)
  with assms show ?thesis
    by (auto simp: follows_def receive_slice_def Let_def split: if_splits bind_splits
        intro!: keeps_same determine_state_keeps)
next
  case (Reset epoch request)
  with assms show ?thesis
    by (auto simp: follows_def split: if_splits intro!: keeps_same determine_state_keeps transitions_keep)
qed (use assms in \<open>auto simp: follows_def split: if_splits bind_splits intro!: keeps_same\<close>)

lemma Connected_timer_follows:
  assumes "Connected_timer env s common = Some sc"
  shows "keeps_session (cd_epoch s) (cd_msg_mgr s) [] (cs_to_ctrl common) sc"
  using assms
  by (auto simp: Connected_timer_def Let_def split: bind_splits list.splits if_splits intro!: determine_state_keeps)

lemma Reconnecting_ctrl_follows:
  assumes "Reconnecting_ctrl_msg env s common cmd = Some sc"
  shows "follows (en_oc env) (rc_epoch s) (rc_msg_mgr s) (FromCtrl (Command cmd)) (cs_to_ctrl common) sc"
  using assms
  by (cases cmd) (auto simp: follows_def split: if_splits bind_splits sum.splits dest!: wrap_link_common
       intro!: keeps_same transitions_keep)

lemma Reconnecting_link_follows:
  fixes sc :: "('l, 'c) States \<times> CommonState"
  assumes "Reconnecting_link_msg env s common link_id msg = Some sc"
  shows "follows (en_oc env) (rc_epoch s) (rc_msg_mgr s) (FromLink link_id msg) (cs_to_ctrl common) sc"
  using assms
  by (cases msg) (auto simp: follows_def receive_slice_def transition_defs keeps_session_def split: if_splits bind_splits)

lemma GracePeriod_ctrl_follows:
  assumes "GracePeriod_ctrl_msg env s common cmd = Some sc"
  shows "follows (en_oc env) (gp_epoch s) (gp_msg_mgr s) (FromCtrl (Command cmd)) (cs_to_ctrl common) sc"
  using assms
  by (cases cmd) (auto simp: follows_def split: if_splits bind_splits sum.splits dest!: wrap_link_common
       intro!: keeps_same transitions_keep)

lemma GracePeriod_link_follows:
  fixes sc :: "('l, 'c) States \<times> CommonState"
  assumes "GracePeriod_link_msg env s common link_id msg = Some sc"
  shows "follows (en_oc env) (gp_epoch s) (gp_msg_mgr s) (FromLink link_id msg) (cs_to_ctrl common) sc"
  using assms
  by (cases msg) (auto simp: follows_def receive_slice_def transition_defs keeps_session_def split: if_splits bind_splits)

text \<open>Inside a session.\<close>

lemma core_session:
  fixes core :: "('l, 'c) core"
  assumes "core_handle env core ev = Some core'" "session_epoch (co_state core) = Some e"
    "state_msg_mgr (co_state core) = Some mm"
  shows "follows (en_oc env) e mm ev (cs_to_ctrl (co_common core)) (co_state core', co_common core')"
proof -
  obtain st common where core: "core = \<lparr>co_state = st, co_common = common\<rparr>" by (cases core)
  obtain st' common' where core': "core' = \<lparr>co_state = st', co_common = common'\<rparr>" by (cases core')
  have same: "keeps_session e mm [] (cs_to_ctrl common) (st', common') \<Longrightarrow>
      session_exec (en_oc env) e mm ev = Some ([], [], mm) \<Longrightarrow> ?thesis"
    by (auto simp: follows_def core core')
  show ?thesis
  proof (cases ev)
    case (FromCtrl msg)
    show ?thesis
    proof (cases msg)
      case (Command cmd)
      with FromCtrl assms core core' show ?thesis
        by (cases st) (auto simp: core_handle_def Connected_ctrl_follows Reconnecting_ctrl_follows GracePeriod_ctrl_follows)
    next
      case (Config conf)
      with FromCtrl assms core core' show ?thesis
        by (intro same) (cases st; cases conf; auto simp: core_handle_def keeps_session_def)+
    qed
  next
    case (FromLink link_id msg)
    with assms core core' show ?thesis
      by (cases st) (auto simp: core_handle_def Connected_link_follows Reconnecting_link_follows GracePeriod_link_follows)
  next
    case TimerReady
    have "keeps_session e mm [] (cs_to_ctrl common) (st', common')"
    proof (cases st)
      case (S_Connected s)
      with TimerReady assms core core' Connected_timer_follows [of env s "on_timer (\<lambda>timer. snd (Deadline_poll (en_now env) timer)) common" "(st', common')"]
      show ?thesis by (auto simp: core_handle_def)
    qed (use TimerReady assms core core' in \<open>auto simp: core_handle_def Reconnecting_timer_def GracePeriod_timer_def
          keeps_session_def transition_defs split: if_splits\<close>)
    from same [OF this] TimerReady show ?thesis by simp
  next
    case (FromDebug cmd)
    with assms core core' show ?thesis
      by (intro same) (cases st; cases cmd; auto simp: core_handle_def handle_debug_def keeps_session_def Let_def case_prod_unfold)+
  qed
qed

text \<open>Outside a session, an event leaves the user's messages alone and adds at most its own to the queue.\<close>

fun event_msg :: "('l, 'c) core_event \<Rightarrow> bytes list" where
  "event_msg (FromCtrl (Command (CmdMessage data epoch))) = [data]"
| "event_msg _ = []"

definition stays_out ::
  "bytes list \<Rightarrow> bytes list \<Rightarrow> LinkSetMessageInner list \<Rightarrow> ('l, 'c) States \<times> CommonState \<Rightarrow> bool" where
  "stays_out queue new log sc =
     (session_epoch (fst sc) = None \<and> (queued_msgs (fst sc) \<in> {[], queue, queue @ new}) \<and>
      (\<forall>e. messages_in e (cs_to_ctrl (snd sc)) = messages_in e log) \<and>
      connected_epochs (cs_to_ctrl (snd sc)) = connected_epochs log)"

definition opens ::
  "bool \<Rightarrow> bytes list \<Rightarrow> LinkSetMessageInner list \<Rightarrow> ('l, 'c) States \<times> CommonState \<Rightarrow> bool" where
  "opens oc queue log sc =
     (\<exists>e mm. session_epoch (fst sc) = Some e \<and> insert_all oc queue (MessageManager_new e) = Some mm \<and>
      state_msg_mgr (fst sc) = Some mm \<and> queued_msgs (fst sc) = [] \<and>
      cs_to_ctrl (snd sc) = log @ [InnerConnected e])"

lemma send_queued_insert_all:
  "send_queued oc L msgs mm links = Some (mm', links') \<Longrightarrow> insert_all oc msgs mm = Some mm'"
  by (induction oc L msgs mm links rule: send_queued.induct) (auto split: bind_splits)

lemma EpochMismatch_opens:
  assumes "Connected_from_EpochMismatch env s common epoch = Some sc"
  shows "opens (en_oc env) (em_queued_msgs s) (cs_to_ctrl common) sc"
  using assms send_queued_insert_all
  by (fastforce simp: Connected_from_EpochMismatch_def opens_def Let_def split: bind_splits)

lemma EpochMismatch_link_outside:
  assumes "EpochMismatch_link_msg env s common link_id msg = Some sc"
  shows "stays_out (em_queued_msgs s) [] (cs_to_ctrl common) sc \<or>
    opens (en_oc env) (em_queued_msgs s) (cs_to_ctrl common) sc"
proof (cases msg)
  case (Reset epoch request)
  then have "EpochMismatch_reset env s common epoch request = Some sc" using assms by simp
  then show ?thesis
    unfolding EpochMismatch_reset_def Let_def
    by (auto simp: stays_out_def split: Ordering.splits bind_splits if_splits dest!: EpochMismatch_opens)
qed (use assms in \<open>auto simp: stays_out_def\<close>)

lemma core_outside:
  fixes core :: "('l, 'c) core"
  assumes "core_handle env core ev = Some core'" "session_epoch (co_state core) = None"
  shows "stays_out (queued_msgs (co_state core)) (event_msg ev) (cs_to_ctrl (co_common core)) (co_state core', co_common core') \<or>
    opens (en_oc env) (queued_msgs (co_state core)) (cs_to_ctrl (co_common core)) (co_state core', co_common core')"
proof -
  obtain st common where core: "core = \<lparr>co_state = st, co_common = common\<rparr>" by (cases core)
  obtain st' common' where core': "core' = \<lparr>co_state = st', co_common = common'\<rparr>" by (cases core')
  have out: "stays_out (queued_msgs st) (event_msg ev) (cs_to_ctrl common) (st', common') \<Longrightarrow> ?thesis"
    by (simp add: core core')
  show ?thesis
  proof (cases ev)
    case (FromCtrl msg)
    show ?thesis
    proof (cases msg)
      case (Command cmd)
      then have "States_ctrl_msg env st common cmd = Some (st', common')" "session_epoch st = None"
        using FromCtrl assms core core' by (auto simp: core_handle_def)
      then show ?thesis
        unfolding FromCtrl Command
        by (intro out [unfolded FromCtrl Command], cases st; cases cmd)
           (auto simp: stays_out_def transition_defs split: bind_splits sum.splits if_splits dest!: wrap_link_common)
    next
      case (Config conf)
      with FromCtrl assms core core' show ?thesis
        by (intro out) (cases conf; auto simp: core_handle_def stays_out_def)
    qed
  next
    case (FromLink link_id msg)
    show ?thesis
    proof (cases st)
      case (S_EpochMismatch s)
      with FromLink assms core core' EpochMismatch_link_outside [of env s common link_id msg "(st', common')"]
      show ?thesis by (auto simp: core_handle_def)
    qed (use FromLink assms core core' in \<open>auto simp: core_handle_def Disconnected_link_msg_def
          Connecting_link_msg_def stays_out_def\<close>)
  next
    case TimerReady
    with assms core core' show ?thesis
      by (intro out) (cases st; auto simp: core_handle_def Disconnected_timer_def Connecting_timer_def
          EpochMismatch_timer_def stays_out_def transition_defs split: if_splits)
  next
    case (FromDebug cmd)
    with assms core core' show ?thesis
      by (intro out) (cases st; cases cmd; auto simp: core_handle_def handle_debug_def stays_out_def Let_def case_prod_unfold)
  qed
qed

section \<open>Two link sets\<close>

datatype endpoint = West | East

fun other :: "endpoint \<Rightarrow> endpoint" where
  "other West = East"
| "other East = West"

lemma other_simps [simp]: "other (other s) = s" "other s \<noteq> s" "s \<noteq> other s"
  by (cases s; simp)+

text \<open>
  A link set with its history: the messages its user has sent in each session, and the
  acknowledgements it has owed.
\<close>

record ('l, 'c) peer =
  pe_core :: "('l, 'c) core"
  pe_sent :: "(Epoch \<times> bytes) list"
  pe_acks :: "LinkProtocol list"

definition peer_new :: "('l, 'c) peer" where
  "peer_new = \<lparr>pe_core = core_new, pe_sent = [], pe_acks = []\<rparr>"

abbreviation pe_state :: "('l, 'c) peer \<Rightarrow> ('l, 'c) States" where
  "pe_state p \<equiv> co_state (pe_core p)"

abbreviation pe_log :: "('l, 'c) peer \<Rightarrow> LinkSetMessageInner list" where
  "pe_log p \<equiv> cs_to_ctrl (co_common (pe_core p))"

definition sent_in :: "Epoch \<Rightarrow> ('l, 'c) peer \<Rightarrow> bytes list" where
  "sent_in e p = map snd (filter (\<lambda>(e', m). e' = e) (pe_sent p))"

definition received_in :: "Epoch \<Rightarrow> ('l, 'c) peer \<Rightarrow> bytes list" where
  "received_in e p = messages_in e (pe_log p)"

fun acks_epoch :: "Epoch \<Rightarrow> LinkProtocol \<Rightarrow> bool" where
  "acks_epoch e (Ack epoch seq last_index) = (epoch = to_int e)"
| "acks_epoch e _ = False"

text \<open>
  The messages that an event makes part of a session: the one that the user sends in it, and those
  that have waited for it to begin.
\<close>

fun sends_in :: "Epoch \<Rightarrow> ('l, 'c) core_event \<Rightarrow> bytes list" where
  "sends_in e (FromCtrl (Command (CmdMessage data epoch))) = (if epoch = None \<or> epoch = Some e then [data] else [])"
| "sends_in e _ = []"

fun accepted :: "('l, 'c) States \<Rightarrow> ('l, 'c) core_event \<Rightarrow> ('l, 'c) States \<Rightarrow> (Epoch \<times> bytes) list" where
  "accepted st ev st' =
     (case session_epoch st of
        Some e \<Rightarrow> map (Pair e) (sends_in e ev)
      | None \<Rightarrow>
          (case session_epoch st' of Some e \<Rightarrow> map (Pair e) (queued_msgs st) | None \<Rightarrow> []))"

fun owed :: "bool \<Rightarrow> ('l, 'c) States \<Rightarrow> ('l, 'c) core_event \<Rightarrow> LinkProtocol list" where
  "owed oc st ev =
     (case (session_epoch st, state_msg_mgr st) of
        (Some e, Some mm) \<Rightarrow> (case session_exec oc e mm ev of Some (acks, _, _) \<Rightarrow> acks | None \<Rightarrow> [])
      | _ \<Rightarrow> [])"

definition peer_after :: "bool \<Rightarrow> ('l, 'c) peer \<Rightarrow> ('l, 'c) core_event \<Rightarrow> ('l, 'c) core \<Rightarrow> ('l, 'c) peer" where
  "peer_after oc p ev core' =
     \<lparr>pe_core = core', pe_sent = pe_sent p @ accepted (pe_state p) ev (co_state core'),
      pe_acks = pe_acks p @ owed oc (pe_state p) ev\<rparr>"

text \<open>What the network may deliver of what a link set has sent.\<close>

fun honest :: "('l, 'c) peer \<Rightarrow> LinkProtocol \<Rightarrow> bool" where
  "honest p (MsgSlice epoch seq seq_len first_index data) =
     (let ms = sent_in (Epoch epoch) p
      in seq < length ms \<and> seq_len = length (ms ! seq) \<and> is_slice (ms ! seq) first_index data)"
| "honest p (Ack epoch seq last_index) = (Ack epoch seq last_index \<in> set (pe_acks p))"
| "honest p _ = True"

text \<open>
  When an event may happen to a link set \<open>me\<close> whose other side is \<open>you\<close>: users send no empty messages
  and fewer than \<open>2 ^ 64\<close> of them, and a slice of the current session leaves no gap behind it.
\<close>

fun offered :: "('l, 'c) peer \<Rightarrow> ('l, 'c) peer \<Rightarrow> ('l, 'c) core_event \<Rightarrow> bool" where
  "offered me you (FromCtrl (Command (CmdMessage data epoch))) =
     (data \<noteq> [] \<and> length (pe_sent me) + length (queued_msgs (pe_state me)) + 2 < u64_bound)"
| "offered me you (FromLink link_id msg) =
     (honest you msg \<and>
      (case state_msg_mgr (pe_state me) of Some mm \<Rightarrow> leaves_no_gap mm msg | None \<Rightarrow> True))"
| "offered me you _ = True"

text \<open>No counter of a link set is at its limit: neither the ids of its links nor its epoch.\<close>

definition spare :: "('l, 'c) core \<Rightarrow> bool" where
  "spare core = (cs_next_link_id (co_common core) + 1 < u64_bound \<and> session_epoch (co_state core) \<noteq> Some Epoch_MAX)"

type_synonym ('l, 'c) duo = "endpoint \<Rightarrow> ('l, 'c) peer"

definition duo_new :: "('l, 'c) duo" where
  "duo_new = (\<lambda>_. peer_new)"

inductive duo_step ::
  "(endpoint \<Rightarrow> bool) \<Rightarrow> (endpoint \<Rightarrow> 'c \<Rightarrow> rust_string) \<Rightarrow> ('l, 'c) duo \<Rightarrow> ('l, 'c) duo \<Rightarrow> bool" for oc scheme where
  duo_event:
    "en_oc env = oc s \<Longrightarrow> en_scheme env = scheme s \<Longrightarrow> valid_link (en_link env) \<Longrightarrow> spare (pe_core (d s)) \<Longrightarrow>
     core_enabled env (pe_core (d s)) ev \<Longrightarrow> offered (d s) (d (other s)) ev \<Longrightarrow>
     core_handle env (pe_core (d s)) ev = Some core' \<Longrightarrow>
     duo_step oc scheme d (d(s := peer_after (oc s) (d s) ev core'))"
| duo_links:
    "duo_step oc scheme d (d(s := (d s)\<lparr>pe_core := (pe_core (d s))\<lparr>co_state := links_change f (pe_state (d s))\<rparr>\<rparr>))"
| duo_tasks:
    "duo_step oc scheme d (d(s := (d s)\<lparr>pe_core := (pe_core (d s))\<lparr>co_state := tasks_turn n r (pe_state (d s))\<rparr>\<rparr>))"
| duo_reader:
    "duo_step oc scheme d (d(s := (d s)\<lparr>pe_core := (pe_core (d s))\<lparr>co_common := (co_common (pe_core (d s)))
       \<lparr>cs_readers := removeAll link_id (cs_readers (co_common (pe_core (d s))))\<rparr>\<rparr>\<rparr>))"

section \<open>The invariant\<close>

text \<open>
  The messages of an epoch in one direction: sent are \<open>ms\<close>, by a side whose manager is \<open>a\<close>; the other
  has the manager \<open>b\<close>, has owed \<open>acks\<close>, and its user has received \<open>del\<close>.
\<close>

definition stream ::
  "Epoch \<Rightarrow> bytes list \<Rightarrow> MessageManager \<Rightarrow> MessageManager \<Rightarrow> LinkProtocol list \<Rightarrow> bytes list \<Rightarrow> bool" where
  "stream e ms a b acks del =
     (\<exists>pfx. transfer_rel e pfx
        \<lparr>tr_sent = ms, tr_sender = a, tr_receiver = b, tr_slices = [], tr_acks = acks, tr_delivered = del\<rparr>)"

text \<open>
  \<open>mgr\<close> remembers the manager of every session, over or not; a session that has not begun has a new
  one. At the largest epoch sessions are not told apart, and nothing is said of them.
\<close>

definition peer_ok :: "(Epoch \<Rightarrow> MessageManager) \<Rightarrow> ('l, 'c) peer \<Rightarrow> bool" where
  "peer_ok mgr p =
     (core_ok (pe_core p) \<and> view_ok (core_view (pe_core p)) \<and>
      (\<forall>m \<in> set (queued_msgs (pe_state p)). m \<noteq> [] \<and> length m \<le> isize_max) \<and>
      length (pe_sent p) + length (queued_msgs (pe_state p)) + 1 < u64_bound \<and>
      (\<forall>e mm. session_epoch (pe_state p) = Some e \<longrightarrow> state_msg_mgr (pe_state p) = Some mm \<longrightarrow>
         mm_epoch mm = e \<and> (e \<noteq> Epoch_MAX \<longrightarrow> mm = mgr e)) \<and>
      (\<forall>e. e \<notin> set (connected_epochs (pe_log p)) \<longrightarrow> mgr e = MessageManager_new e \<and> sent_in e p = []))"

definition streams ::
  "Epoch \<Rightarrow> ('l, 'c) peer \<Rightarrow> ('l, 'c) peer \<Rightarrow> MessageManager \<Rightarrow> MessageManager \<Rightarrow> bool" where
  "streams e p q a b = stream e (sent_in e p) a b (filter (acks_epoch e) (pe_acks q)) (received_in e q)"

definition duo_inv :: "('l, 'c) duo \<Rightarrow> bool" where
  "duo_inv d =
     (\<exists>mgr. (\<forall>s. peer_ok (mgr s) (d s)) \<and>
        (\<forall>s e. e \<noteq> Epoch_MAX \<longrightarrow> streams e (d s) (d (other s)) (mgr s e) (mgr (other s) e)))"

subsection \<open>Inside a session\<close>

lemma stream_sender:
  assumes "stream e ms a b acks del" "mm_epoch a' = mm_epoch a" "mm_next_seq a' = mm_next_seq a"
    "mm_outgoing_slices a' = mm_outgoing_slices a"
  shows "stream e ms a' b acks del"
  using assms by (auto simp: stream_def transfer_rel_def send_inv_def)

lemma stream_receiver:
  assumes "stream e ms a b acks del" "mm_epoch b' = mm_epoch b" "mm_last_ack b' = mm_last_ack b"
    "mm_incoming_slices b' = mm_incoming_slices b"
  shows "stream e ms a b' acks del"
  using assms by (auto simp: stream_def transfer_rel_def recv_inv_def)

lemma stream_epoch: "stream e ms a b acks del \<Longrightarrow> mm_epoch a = e \<and> mm_epoch b = e"
  by (auto simp: stream_def transfer_rel_def recv_inv_def send_inv_def)

lemma insert_keeps:
  "insert_msg oc mm data = Some (seq, mm') \<Longrightarrow>
   mm_epoch mm' = mm_epoch mm \<and> mm_last_ack mm' = mm_last_ack mm \<and> mm_incoming_slices mm' = mm_incoming_slices mm"
  by (auto simp: insert_msg_def Let_def split: bind_splits)

lemma recv_ack_keeps:
  "recv_ack oc mm ack = Some mm' \<Longrightarrow>
   mm_epoch mm' = mm_epoch mm \<and> mm_last_ack mm' = mm_last_ack mm \<and> mm_incoming_slices mm' = mm_incoming_slices mm"
  by (cases ack) (auto simp: recv_ack_def Let_def split: bind_splits option.splits if_splits)

lemma stream_insert:
  assumes "stream e ms a b acks del" "insert_msg oc a m = Some (seq, a')" "m \<noteq> []" "length m \<le> isize_max"
    "length ms + 1 < u64_bound"
  shows "stream e (ms @ [m]) a' b acks del"
proof -
  let ?t = "\<lparr>tr_sent = ms, tr_sender = a, tr_receiver = b, tr_slices = [], tr_acks = acks, tr_delivered = del\<rparr>"
  obtain pfx where "transfer_rel e pfx ?t" using assms(1) by (auto simp: stream_def)
  moreover have "transfer_allowed ?t (Queue m)" using assms(3-) by simp
  ultimately obtain t' where "transfer_exec oc ?t (Queue m) = Some t'" "transfer_rel e pfx t'"
    using queue_rel by blast
  then show ?thesis using assms(2) by (auto simp: stream_def)
qed

lemma stream_insert_all:
  assumes "stream e ms a b acks del" "insert_all oc qs a = Some a'" "\<forall>m \<in> set qs. m \<noteq> [] \<and> length m \<le> isize_max"
    "length ms + length qs < u64_bound"
  shows "stream e (ms @ qs) a' b acks del"
  using assms
proof (induction qs arbitrary: ms a)
  case (Cons q qs)
  then obtain seq a1 where a1: "insert_msg oc a q = Some (seq, a1)" "insert_all oc qs a1 = Some a'"
    by (auto split: bind_splits)
  have "stream e (ms @ [q]) a1 b acks del"
    by (rule stream_insert [OF Cons.prems(1) a1(1)]) (use Cons.prems in auto)
  from Cons.IH [OF this a1(2)] Cons.prems show ?case by simp
qed simp

lemma insert_all_keeps:
  "insert_all oc qs mm = Some mm' \<Longrightarrow>
   mm_epoch mm' = mm_epoch mm \<and> mm_last_ack mm' = mm_last_ack mm \<and> mm_incoming_slices mm' = mm_incoming_slices mm"
  by (induction oc qs mm rule: insert_all.induct) (auto split: bind_splits dest!: insert_keeps)

lemma stream_ack:
  assumes "stream e ms a b acks del" "recv_ack oc a (seq, i) = Some a'" "Ack (to_int e) seq i \<in> set acks"
  shows "stream e ms a' b acks del"
proof -
  let ?t = "\<lparr>tr_sent = ms, tr_sender = a, tr_receiver = b, tr_slices = [], tr_acks = acks, tr_delivered = del\<rparr>"
  let ?p = "Ack (to_int e) seq i"
  obtain pfx where rel: "transfer_rel e pfx ?t" using assms(1) by (auto simp: stream_def)
  then have "ack_of_received e (tr_sent ?t) pfx ?p" using assms(3) by (auto simp: transfer_rel_def)
  then obtain t' where "transfer_exec oc ?t (Acknowledge ?p) = Some t'" "transfer_rel e pfx t'"
    by (rule acknowledge_rel [OF rel])
  then show ?thesis using assms(2) stream_epoch [OF assms(1)] by (auto simp: stream_def)
qed

lemma stream_slice:
  assumes "stream e ms a b acks del" "receive_slice oc b q f n d = Some (new, msgs, b')" "q < length ms"
    "n = length (ms ! q)" "is_slice (ms ! q) f d" "leaves_no_gap b (MsgSlice (to_int e) q n f d)"
  shows "stream e ms a b' (acks @ new) (del @ msgs)"
proof -
  let ?t = "\<lparr>tr_sent = ms, tr_sender = a, tr_receiver = b, tr_slices = [], tr_acks = acks, tr_delivered = del\<rparr>"
  obtain pfx where rel: "transfer_rel e pfx ?t" using assms(1) by (auto simp: stream_def)
  then have "recv_inv e ms pfx b" by (simp add: transfer_rel_def)
  then have "f \<le> pfx q" using leaves_no_gap_prefix assms(5,6) by blast
  then obtain t' where "transfer_exec oc ?t (Receive (MsgSlice (to_int e) q (length (ms ! q)) f d)) = Some t'"
    "transfer_rel e (grow pfx q f d) t'"
    using receive_rel [OF rel, of q f d oc] assms(3,5) by auto
  then show ?thesis using assms(2,4) stream_epoch [OF assms(1)] by (auto simp: stream_def)
qed

lemma receive_keeps:
  "receive_slice oc mm q f n d = Some (new, msgs, mm') \<Longrightarrow>
   mm_epoch mm' = mm_epoch mm \<and> mm_next_seq mm' = mm_next_seq mm \<and> mm_outgoing_slices mm' = mm_outgoing_slices mm \<and>
   (\<forall>p \<in> set new. acks_epoch (mm_epoch mm) p)"
  by (auto simp: receive_slice_def Let_def split: bind_splits if_splits dest!: recv_keeps take_recvd_keeps)

text \<open>What is asked of an event inside a session, in terms of the two streams.\<close>

fun fits ::
  "Epoch \<Rightarrow> bytes list \<Rightarrow> bytes list \<Rightarrow> LinkProtocol list \<Rightarrow> MessageManager \<Rightarrow> ('l, 'c) core_event \<Rightarrow> bool" where
  "fits e mine yours acks mm (FromCtrl (Command (CmdMessage data epoch))) =
     (data \<noteq> [] \<and> length data \<le> isize_max \<and> length mine + 1 < u64_bound)"
| "fits e mine yours acks mm (FromLink _ (MsgSlice epoch seq seq_len first_index data)) =
     (epoch = to_int e \<longrightarrow> seq < length yours \<and> seq_len = length (yours ! seq) \<and>
        is_slice (yours ! seq) first_index data \<and>
        leaves_no_gap mm (MsgSlice epoch seq seq_len first_index data))"
| "fits e mine yours acks mm (FromLink _ (Ack epoch seq last_index)) =
     (epoch = to_int e \<longrightarrow> Ack epoch seq last_index \<in> set acks)"
| "fits e mine yours acks mm _ = True"

lemma session_exec_flow:
  assumes "stream e mine a b acks del" "stream e yours b a acks' del'" "session_exec oc e a ev = Some (new, msgs, a')"
    "fits e mine yours acks a ev"
  shows "stream e (mine @ sends_in e ev) a' b acks del" "stream e yours b a' (acks' @ new) (del' @ msgs)"
    "\<forall>p \<in> set new. acks_epoch e p"
  using assms
proof (atomize (full), induction oc e a ev rule: session_exec.induct)
  case (1 oc e mm data epoch)
  then show ?case
    by (auto split: if_splits bind_splits intro: stream_insert stream_receiver dest: insert_keeps)
next
  case (2 oc e mm link_id epoch seq last_index)
  then show ?case
    by (auto split: if_splits bind_splits intro: stream_ack stream_receiver dest: recv_ack_keeps)
next
  case (3 oc e mm link_id epoch seq seq_len first_index data)
  then show ?case
    using stream_epoch [of e mine mm b acks del]
    by (auto split: if_splits intro: stream_slice stream_sender dest: receive_keeps)
qed auto

lemma session_exec_epoch:
  "session_exec oc e mm ev = Some (new, msgs, mm') \<Longrightarrow>
   mm_epoch mm' = mm_epoch mm \<and> (\<forall>p \<in> set new. acks_epoch (mm_epoch mm) p)"
  by (induction oc e mm ev rule: session_exec.induct)
     (auto split: if_splits bind_splits dest: insert_keeps recv_ack_keeps receive_keeps)

subsection \<open>Steps\<close>

lemma endpoint_split: "(\<forall>t. P t) \<longleftrightarrow> P s \<and> P (other s)"
  by (cases s) (auto, metis endpoint.exhaust, metis endpoint.exhaust)

lemma duo_inv_split:
  "duo_inv d \<longleftrightarrow>
   (\<exists>m n. peer_ok m (d s) \<and> peer_ok n (d (other s)) \<and>
      (\<forall>e. e \<noteq> Epoch_MAX \<longrightarrow>
         streams e (d s) (d (other s)) (m e) (n e) \<and> streams e (d (other s)) (d s) (n e) (m e)))"
proof
  assume "duo_inv d"
  then obtain mgr where "peer_ok (mgr t) (d t)"
    "e \<noteq> Epoch_MAX \<Longrightarrow> streams e (d t) (d (other t)) (mgr t e) (mgr (other t) e)" for t e
    by (auto simp: duo_inv_def)
  from this(1) this(2) [of _ s] this(2) [of _ "other s"]
  show "\<exists>m n. peer_ok m (d s) \<and> peer_ok n (d (other s)) \<and>
      (\<forall>e. e \<noteq> Epoch_MAX \<longrightarrow>
         streams e (d s) (d (other s)) (m e) (n e) \<and> streams e (d (other s)) (d s) (n e) (m e))"
    by (intro exI [of _ "mgr s"] exI [of _ "mgr (other s)"]) auto
next
  assume "\<exists>m n. peer_ok m (d s) \<and> peer_ok n (d (other s)) \<and>
      (\<forall>e. e \<noteq> Epoch_MAX \<longrightarrow>
         streams e (d s) (d (other s)) (m e) (n e) \<and> streams e (d (other s)) (d s) (n e) (m e))"
  then obtain m n where mn: "peer_ok m (d s)" "peer_ok n (d (other s))"
    "\<forall>e. e \<noteq> Epoch_MAX \<longrightarrow>
       streams e (d s) (d (other s)) (m e) (n e) \<and> streams e (d (other s)) (d s) (n e) (m e)"
    by blast
  show "duo_inv d"
    unfolding duo_inv_def endpoint_split [where s = s]
    by (rule exI [of _ "\<lambda>t. if t = s then m else n"]) (use mn in auto)
qed

lemma duo_inv_update:
  assumes "peer_ok m p'" "peer_ok n (d (other s))"
    "\<And>e. e \<noteq> Epoch_MAX \<Longrightarrow> streams e p' (d (other s)) (m e) (n e) \<and> streams e (d (other s)) p' (n e) (m e)"
  shows "duo_inv (d(s := p'))"
  using assms by (auto simp: duo_inv_split [of _ s])

lemma handle_view_ok:
  assumes "view_ok (core_view core)" "core_handle env core ev = Some core'" "core_enabled env core ev"
  shows "view_ok (core_view core')"
  using views.inv_reaches [OF core_handle_refines [OF assms(2,3)] assms(1)] .

lemma sent_in_after:
  "sent_in e (peer_after oc p ev core') = sent_in e p @ map snd (filter (\<lambda>(e', m). e' = e) (accepted (pe_state p) ev (co_state core')))"
  "sent_in e (p\<lparr>pe_core := core'\<rparr>) = sent_in e p"
  by (simp_all add: sent_in_def peer_after_def)

lemma sent_in_length: "length (sent_in e p) \<le> length (pe_sent p)"
  by (simp add: sent_in_def)

lemma filter_map_Pair:
  "map snd (filter (\<lambda>(e', m). e' = e) (map (Pair e1) ms)) = (if e = e1 then ms else [])"
  by (induction ms) (simp_all add: comp_def)

lemma session_has_mgr: "session_epoch st = Some e \<Longrightarrow> \<exists>mm. state_msg_mgr st = Some mm"
  by (cases st) simp_all

lemma session_connected:
  assumes "view_ok (core_view core)" "session_epoch (co_state core) = Some e"
  shows "e \<in> set (connected_epochs (cs_to_ctrl (co_common core)))"
  using assms
  by (auto simp: view_ok_def core_view_def sees_def session_epoch_def session_log_def split: if_splits)

lemma Epoch_to_int [simp]: "Epoch (to_int e) = e"
  by (cases e) simp

lemma honest_fits:
  assumes "offered p q ev" "core_enabled env (pe_core p) ev" "state_msg_mgr (pe_state p) = Some mm"
  shows "fits e (sent_in e p) (sent_in e q) (filter (acks_epoch e) (pe_acks q)) mm ev"
  using assms sent_in_length [of e p]
  by (induction e "sent_in e p" "sent_in e q" "filter (acks_epoch e) (pe_acks q)" mm ev rule: fits.induct)
     (auto simp: core_enabled_def Let_def split: if_splits)

lemma step_in_session:
  assumes inv: "peer_ok m (d s)" "peer_ok n (d (other s))"
    "\<And>e. e \<noteq> Epoch_MAX \<Longrightarrow> streams e (d s) (d (other s)) (m e) (n e) \<and> streams e (d (other s)) (d s) (n e) (m e)"
    and ok: "core_ok core'"
    and step: "core_handle env (pe_core (d s)) ev = Some core'" "core_enabled env (pe_core (d s)) ev"
      "offered (d s) (d (other s)) ev"
    and e1: "session_epoch (pe_state (d s)) = Some e1"
  shows "duo_inv (d(s := peer_after (en_oc env) (d s) ev core'))"
proof -
  let ?p = "d s" and ?q = "d (other s)" and ?p' = "peer_after (en_oc env) (d s) ev core'"
  obtain mm where mm: "state_msg_mgr (pe_state ?p) = Some mm" using session_has_mgr [OF e1] by blast
  then have mm_e: "mm_epoch mm = e1" "e1 \<noteq> Epoch_MAX \<Longrightarrow> mm = m e1" using inv(1) e1 by (auto simp: peer_ok_def)
  obtain new msgs mm' where ex: "session_exec (en_oc env) e1 mm ev = Some (new, msgs, mm')"
    and keep: "keeps_session e1 mm' msgs (pe_log ?p) (co_state core', co_common core')"
    using core_session [OF step(1) e1 mm] by (auto simp: follows_def)
  have new: "mm_epoch mm' = e1" "\<forall>a \<in> set new. acks_epoch e1 a" using session_exec_epoch [OF ex] mm_e(1) by auto
  have ow: "owed (en_oc env) (pe_state ?p) ev = new" using e1 mm ex by simp
  have sent: "sent_in e ?p' = sent_in e ?p @ (if e = e1 then sends_in e1 ev else [])" for e
    unfolding sent_in_after using e1 filter_map_Pair [of e e1 "sends_in e1 ev"] by simp
  have acks: "filter (acks_epoch e) (pe_acks ?p') = filter (acks_epoch e) (pe_acks ?p) @ (if e = e1 then new else [])" for e
  proof -
    have "filter (acks_epoch e) new = (if e = e1 then new else [])"
      using new(2) by (auto simp: filter_empty_conv acks_epoch.simps intro!: filter_True elim!: acks_epoch.elims)
    then show ?thesis using ow by (simp add: peer_after_def)
  qed
  have received: "received_in e ?p' = received_in e ?p @ (if e = e1 then msgs else [])" for e
    using keep by (auto simp: keeps_session_def received_in_def peer_after_def)
  let ?m = "if e1 = Epoch_MAX then m else m(e1 := mm')"
  have "streams e ?p' ?q (?m e) (n e) \<and> streams e ?q ?p' (n e) (?m e)" if e: "e \<noteq> Epoch_MAX" for e
  proof (cases "e = e1")
    case True
    then have "streams e1 ?p ?q mm (n e1)" "streams e1 ?q ?p (n e1) mm" using inv(3) [OF e] mm_e(2) e by auto
    from session_exec_flow [OF this [unfolded streams_def] ex honest_fits [OF step(3,2) mm]]
    show ?thesis using True e by (simp add: streams_def sent acks received)
  qed (use inv(3) [OF e] in \<open>auto simp: streams_def sent acks received\<close>)
  moreover have "peer_ok ?m ?p'"
  proof -
    have "length (accepted (pe_state ?p) ev (co_state core')) \<le> length (sends_in e1 ev)" using e1 by simp
    moreover have "sends_in e1 ev \<noteq> [] \<Longrightarrow> length (sends_in e1 ev) = 1 \<and> length (pe_sent ?p) + 2 < u64_bound"
      using step(3) by (induction e1 ev rule: sends_in.induct) (auto split: if_splits)
    moreover have "length (pe_sent ?p) + 1 < u64_bound" using inv(1) by (simp add: peer_ok_def)
    ultimately have "length (pe_sent ?p') + 1 < u64_bound"
      by (cases "sends_in e1 ev = []") (auto simp: peer_after_def)
    moreover have "e1 \<in> set (connected_epochs (pe_log ?p))"
      using session_connected [OF _ e1] inv(1) by (simp add: peer_ok_def)
    ultimately show ?thesis
      using inv(1) ok keep new(1) sent handle_view_ok [OF _ step(1,2)]
      by (auto simp: peer_ok_def keeps_session_def peer_after_def)
  qed
  ultimately show ?thesis using inv(2) by (intro duo_inv_update) auto
qed

lemma fresh_epoch:
  assumes "view_ok (core_view core')" "cs_to_ctrl (co_common core') = log @ [InnerConnected e]" "e \<noteq> Epoch_MAX"
  shows "e \<notin> set (connected_epochs log)"
  using assms by (auto simp: view_ok_def core_view_def sees_def sorted_wrt_append epoch_before_def)

lemma step_outside:
  assumes inv: "peer_ok m (d s)" "peer_ok n (d (other s))"
    "\<And>e. e \<noteq> Epoch_MAX \<Longrightarrow> streams e (d s) (d (other s)) (m e) (n e) \<and> streams e (d (other s)) (d s) (n e) (m e)"
    and ok: "core_ok core'"
    and step: "core_handle env (pe_core (d s)) ev = Some core'" "core_enabled env (pe_core (d s)) ev"
      "offered (d s) (d (other s)) ev"
    and out: "session_epoch (pe_state (d s)) = None"
    and stays: "stays_out (queued_msgs (pe_state (d s))) (event_msg ev) (pe_log (d s)) (co_state core', co_common core')"
  shows "duo_inv (d(s := peer_after (en_oc env) (d s) ev core'))"
proof -
  let ?p = "d s" and ?q = "d (other s)" and ?p' = "peer_after (en_oc env) (d s) ev core'"
  have p': "?p' = ?p\<lparr>pe_core := core'\<rparr>"
    using out stays by (cases ?p) (simp add: peer_after_def stays_out_def)
  have received: "received_in e ?p' = received_in e ?p" for e
    using stays by (simp add: stays_out_def received_in_def p')
  have "streams e ?p' ?q (m e) (n e) \<and> streams e ?q ?p' (n e) (m e)" if "e \<noteq> Epoch_MAX" for e
    using inv(3) [OF that] by (simp add: streams_def received) (simp add: p' sent_in_after)
  moreover have "peer_ok m ?p'"
  proof -
    have "event_msg ev \<noteq> [] \<Longrightarrow> (\<exists>x. event_msg ev = [x] \<and> x \<noteq> [] \<and> length x \<le> isize_max) \<and>
        length (pe_sent ?p) + length (queued_msgs (pe_state ?p)) + 2 < u64_bound"
      using step(2,3) by (induction ev rule: event_msg.induct) (auto simp: core_enabled_def)
    then show ?thesis
      using inv(1) ok stays handle_view_ok [OF _ step(1,2)]
      by (cases "event_msg ev = []") (auto simp: peer_ok_def stays_out_def p' sent_in_after)
  qed
  ultimately show ?thesis using inv(2) by (intro duo_inv_update) auto
qed

lemma step_opens:
  assumes inv: "peer_ok m (d s)" "peer_ok n (d (other s))"
    "\<And>e. e \<noteq> Epoch_MAX \<Longrightarrow> streams e (d s) (d (other s)) (m e) (n e) \<and> streams e (d (other s)) (d s) (n e) (m e)"
    and ok: "core_ok core'"
    and step: "core_handle env (pe_core (d s)) ev = Some core'" "core_enabled env (pe_core (d s)) ev"
    and out: "session_epoch (pe_state (d s)) = None"
    and opens: "opens (en_oc env) (queued_msgs (pe_state (d s))) (pe_log (d s)) (co_state core', co_common core')"
  shows "duo_inv (d(s := peer_after (en_oc env) (d s) ev core'))"
proof -
  let ?p = "d s" and ?q = "d (other s)" and ?p' = "peer_after (en_oc env) (d s) ev core'"
  let ?queue = "queued_msgs (pe_state ?p)"
  obtain e1 mm where e1: "session_epoch (co_state core') = Some e1"
    "insert_all (en_oc env) ?queue (MessageManager_new e1) = Some mm" "state_msg_mgr (co_state core') = Some mm"
    "queued_msgs (co_state core') = []" "cs_to_ctrl (co_common core') = pe_log ?p @ [InnerConnected e1]"
    using opens by (auto simp: opens_def)
  have view: "view_ok (core_view core')" using handle_view_ok [OF _ step] inv(1) by (simp add: peer_ok_def)
  have ep: "mm_epoch mm = e1" using insert_all_keeps [OF e1(2)] by (simp add: MessageManager_new_def)
  have sent: "sent_in e ?p' = sent_in e ?p @ (if e = e1 then ?queue else [])" for e
    unfolding sent_in_after using out e1(1) filter_map_Pair [of e e1 ?queue] by simp
  have rest: "pe_acks ?p' = pe_acks ?p" "received_in e ?p' = received_in e ?p" for e
    using out e1(5) by (simp_all add: peer_after_def received_in_def)
  have fresh: "m e1 = MessageManager_new e1 \<and> sent_in e1 ?p = []" if "e1 \<noteq> Epoch_MAX"
    using fresh_epoch [OF view e1(5) that] inv(1) by (simp add: peer_ok_def)
  have queue: "\<forall>x \<in> set ?queue. x \<noteq> [] \<and> length x \<le> isize_max" "length ?queue < u64_bound"
    using inv(1) by (auto simp: peer_ok_def)
  let ?m = "if e1 = Epoch_MAX then m else m(e1 := mm)"
  have "streams e ?p' ?q (?m e) (n e) \<and> streams e ?q ?p' (n e) (?m e)" if e: "e \<noteq> Epoch_MAX" for e
  proof (cases "e = e1")
    case True
    with fresh e have new: "m e1 = MessageManager_new e1" "sent_in e1 ?p = []" by auto
    have old: "streams e1 ?p ?q (m e1) (n e1)" "streams e1 ?q ?p (n e1) (m e1)" using inv(3) [OF e] True by auto
    from stream_insert_all [OF old(1) [unfolded streams_def new] e1(2) queue(1)] queue(2)
    have "streams e1 ?p' ?q mm (n e1)" by (simp add: streams_def sent new)
    moreover from stream_receiver [OF old(2) [unfolded streams_def new], of mm] insert_all_keeps [OF e1(2)]
    have "streams e1 ?q ?p' (n e1) mm" by (simp add: streams_def rest)
    ultimately show ?thesis using True e by simp
  qed (use inv(3) [OF e] in \<open>auto simp: streams_def sent rest\<close>)
  moreover have "peer_ok ?m ?p'"
    using inv(1) ok view e1 ep sent out by (auto simp: peer_ok_def peer_after_def)
  ultimately show ?thesis using inv(2) by (intro duo_inv_update) auto
qed

lemma around_task [simp]:
  "session_epoch (links_change f st) = session_epoch st" "state_msg_mgr (links_change f st) = state_msg_mgr st"
  "queued_msgs (links_change f st) = queued_msgs st"
  "session_epoch (tasks_turn k r st) = session_epoch st" "state_msg_mgr (tasks_turn k r st) = state_msg_mgr st"
  "queued_msgs (tasks_turn k r st) = queued_msgs st"
  by (cases st; simp)+

lemma step_around:
  assumes inv: "duo_inv d"
    and same: "core_ok core'" "core_view core' = core_view (pe_core (d s))" "session_epoch (co_state core') = session_epoch (pe_state (d s))"
      "state_msg_mgr (co_state core') = state_msg_mgr (pe_state (d s))"
      "queued_msgs (co_state core') = queued_msgs (pe_state (d s))"
  shows "duo_inv (d(s := (d s)\<lparr>pe_core := core'\<rparr>))"
proof -
  obtain m n where mn: "peer_ok m (d s)" "peer_ok n (d (other s))"
    "\<And>e. e \<noteq> Epoch_MAX \<Longrightarrow> streams e (d s) (d (other s)) (m e) (n e) \<and> streams e (d (other s)) (d s) (n e) (m e)"
    using inv by (auto simp: duo_inv_split [of _ s])
  have log: "cs_to_ctrl (co_common core') = pe_log (d s)" using same(2) by (simp add: core_view_def sees_def)
  show ?thesis
    by (rule duo_inv_update [of m _ n])
       (use mn same log in \<open>auto simp: peer_ok_def streams_def received_in_def sent_in_after\<close>)
qed

lemma core_ok_around:
  assumes "core_ok core"
  shows "core_ok (core\<lparr>co_state := links_change f (co_state core)\<rparr>)"
    "core_ok (core\<lparr>co_state := tasks_turn k r (co_state core)\<rparr>)"
    "core_ok (core\<lparr>co_common := (co_common core)\<lparr>cs_readers := ids\<rparr>\<rparr>)"
  using assms by (cases "co_state core"; simp add: core_ok_def outcome_ok_def tasks_current_turn)+

text \<open>The managers have room for every event, and they survive it.\<close>

lemma stream_room:
  assumes "stream e ms a b acks del"
  shows "fst (mm_last_ack b) + length (mm_incoming_slices b) \<le> length ms" "mm_next_seq a = length ms"
proof -
  obtain pfx where inv: "recv_inv e ms pfx b" "send_inv e ms pfx a"
    using assms by (auto simp: stream_def transfer_rel_def)
  let ?k = "fst (mm_last_ack b)" and ?inc = "mm_incoming_slices b"
  have st: "stored_ok e ms pfx ?k ?inc" using inv(1) by (simp add: recv_inv_def)
  then have "set (map fst ?inc) \<subseteq> {?k..<length ms}" "distinct (map fst ?inc)"
    by (auto simp: stored_ok_def bt_wf_distinct)
  then have "length (map fst ?inc) \<le> card {?k..<length ms}"
    by (metis card_mono distinct_card finite_atLeastLessThan)
  then show "?k + length ?inc \<le> length ms" using last_ack_le_sent [OF inv(1)] by simp
  show "mm_next_seq a = length ms" using inv(2) by (simp add: send_inv_def)
qed

lemma stream_survives:
  assumes "stream e yours b a acks del" "fits e mine yours acks' a (FromLink link_id msg :: ('l, 'c) core_event)"
  shows "recv_returns oc (Some a) msg"
proof (cases msg)
  case (MsgSlice epoch q n f dd)
  obtain pfx where inv: "recv_inv e yours pfx a" "small_messages yours"
    using assms(1) by (auto simp: stream_def transfer_rel_def)
  have "MessageManager_recv oc a q f n dd \<noteq> None" if "epoch = to_int e"
  proof -
    have p: "q < length yours" "n = length (yours ! q)" "is_slice (yours ! q) f dd"
      "leaves_no_gap a (MsgSlice epoch q n f dd)"
      using assms(2) MsgSlice that by simp_all
    then have "f \<le> pfx q" using leaves_no_gap_prefix [OF inv(1)] by blast
    then show ?thesis using recv_honest [OF inv p(1,3), of oc] p(2) by (metis option.distinct(1))
  qed
  then show ?thesis using MsgSlice stream_epoch [OF assms(1)] by simp
qed simp_all

lemma peer_handles:
  fixes d :: "('l, 'c) duo"
  assumes inv: "peer_ok m (d s)" "peer_ok n (d (other s))"
    "\<And>e. e \<noteq> Epoch_MAX \<Longrightarrow> streams e (d s) (d (other s)) (m e) (n e) \<and> streams e (d (other s)) (d s) (n e) (m e)"
    and ev: "valid_link (en_link env)" "spare (pe_core (d s))" "core_enabled env (pe_core (d s)) ev"
      "offered (d s) (d (other s)) ev"
  obtains core' where "core_handle env (pe_core (d s)) ev = Some core'" "core_ok core'"
proof -
  let ?p = "d s" and ?q = "d (other s)"
  have mgr: "mgr_room mm \<and> survives (en_oc env) (pe_core ?p) ev" if "state_msg_mgr (pe_state ?p) = Some mm" for mm
  proof -
    have "\<exists>e. session_epoch (pe_state ?p) = Some e" using that by (cases "pe_state ?p") simp_all
    then obtain e where e: "session_epoch (pe_state ?p) = Some e" by blast
    then have "e \<noteq> Epoch_MAX" using ev(2) by (simp add: spare_def)
    moreover from this have mm: "mm = m e" using inv(1) e that by (simp add: peer_ok_def)
    ultimately have fl: "streams e ?p ?q mm (n e)" "streams e ?q ?p (n e) mm" using inv(3) by auto
    have "length (sent_in e ?p) + 1 < u64_bound" "length (sent_in e ?q) + 1 < u64_bound"
      using inv(1,2) sent_in_length [of e ?p] sent_in_length [of e ?q] by (simp_all add: peer_ok_def)
    then have "mgr_room mm"
      using stream_room [OF fl(1) [unfolded streams_def]] stream_room [OF fl(2) [unfolded streams_def]] by (simp add: mgr_room_def)
    moreover have "survives (en_oc env) (pe_core ?p) ev"
    proof (cases ev)
      case (FromLink link_id msg)
      then show ?thesis
        using stream_survives [OF fl(2) [unfolded streams_def] honest_fits [OF ev(4,3) that, unfolded FromLink]] that
        by (simp add: survives_def)
    qed (simp_all add: survives_def)
    ultimately show ?thesis by simp
  qed
  have "has_room (pe_core ?p)"
    using mgr ev(2) inv(1) by (cases "pe_state ?p") (auto simp: has_room_def spare_def peer_ok_def)
  moreover have "survives (en_oc env) (pe_core ?p) ev"
    using mgr by (cases "state_msg_mgr (pe_state ?p)") (auto simp: survives_def split: core_event.split)
  moreover have "core_ok (pe_core ?p)" using inv(1) by (simp add: peer_ok_def)
  ultimately show thesis using core_handle_succeeds ev(1,3) that by blast
qed

lemma duo_inv_step:
  assumes "duo_inv d" "duo_step oc scheme d d'"
  shows "duo_inv d'"
  using assms(2,1)
proof (cases rule: duo_step.cases)
  case (duo_event env s ev core')
  obtain m n where mn: "peer_ok m (d s)" "peer_ok n (d (other s))"
    "\<And>e. e \<noteq> Epoch_MAX \<Longrightarrow> streams e (d s) (d (other s)) (m e) (n e) \<and> streams e (d (other s)) (d s) (n e) (m e)"
    using assms(1) by (auto simp: duo_inv_split [of _ s])
  obtain c where "core_handle env (pe_core (d s)) ev = Some c" "core_ok c"
    by (rule peer_handles [OF mn duo_event(4-7)])
  then have ok: "core_ok core'" using duo_event(8) by simp
  have "duo_inv (d(s := peer_after (en_oc env) (d s) ev core'))"
  proof (cases "session_epoch (pe_state (d s))")
    case (Some e1)
    then show ?thesis using step_in_session [OF mn ok duo_event(8,6,7)] by blast
  next
    case None
    with core_outside [OF duo_event(8)] show ?thesis
      using step_outside [OF mn ok duo_event(8,6,7)] step_opens [OF mn ok duo_event(8,6)] by blast
  qed
  with duo_event show ?thesis by simp
next
  case (duo_reader s link_id)
  moreover have "core_ok (pe_core (d s))" using assms(1) by (simp add: duo_inv_def peer_ok_def) metis
  ultimately show ?thesis using step_around [OF assms(1)] by (simp add: core_view_def sees_def core_ok_around)
next
  case (duo_links s f)
  moreover have "core_ok (pe_core (d s))" using assms(1) by (simp add: duo_inv_def peer_ok_def) metis
  ultimately show ?thesis using step_around [OF assms(1)] by (simp add: core_view_def links_change_sees core_ok_around)
next
  case (duo_tasks s k r)
  moreover have "core_ok (pe_core (d s))" using assms(1) by (simp add: duo_inv_def peer_ok_def) metis
  ultimately show ?thesis using step_around [OF assms(1)] by (simp add: core_view_def tasks_turn_sees core_ok_around)
qed

lemma stream_new: "stream e [] (MessageManager_new e) (MessageManager_new e) [] []"
  unfolding stream_def using transfer_rel_start [of e] by (auto simp: transfer_start_def)

lemma core_new_session [simp]:
  "queued_msgs (co_state core_new) = []" "session_epoch (co_state core_new) = None"
  "state_msg_mgr (co_state core_new) = None" "cs_to_ctrl (co_common core_new) = []"
  by (simp_all add: core_new_def States_new_def CommonState_new_def)

lemma duo_inv_new: "duo_inv duo_new"
  by (auto simp: duo_inv_def duo_new_def peer_new_def peer_ok_def core_ok_new core_new_view view_ok_new sent_in_def
      streams_def received_in_def stream_new intro!: exI [of _ "\<lambda>_. MessageManager_new"])

interpretation duo: machine_invariant "\<lambda>d. d = duo_new" "duo_step oc scheme" duo_inv
  by unfold_locales (auto simp: duo_inv_new intro: duo_inv_step)

section \<open>Runs\<close>

text \<open>A run of two link sets as a function, for examples.\<close>

fun duo_run ::
  "('l, 'c) env \<Rightarrow> ('l, 'c) duo \<Rightarrow> (endpoint \<times> Instant \<times> ('l, 'c) core_event) list \<Rightarrow> ('l, 'c) duo option" where
  "duo_run env d [] = Some d"
| "duo_run env d ((s, now, ev) # evs) =
     (if spare (pe_core (d s)) \<and> core_enabled (env\<lparr>en_now := now\<rparr>) (pe_core (d s)) ev \<and> offered (d s) (d (other s)) ev
      then do { core \<leftarrow> core_handle (env\<lparr>en_now := now\<rparr>) (pe_core (d s)) ev;
                duo_run env (d(s := peer_after (en_oc env) (d s) ev core)) evs }
      else None)"

lemma duo_run_reaches:
  assumes "valid_link (en_link env)"
  shows "duo_run env d evs = Some d' \<Longrightarrow> reaches (duo_step (\<lambda>_. en_oc env) (\<lambda>_. en_scheme env)) d d'"
proof (induction evs arbitrary: d)
  case (Cons x evs)
  obtain s now ev where x: "x = (s, now, ev)" by (cases x)
  with Cons.prems obtain core where core: "spare (pe_core (d s))" "core_enabled (env\<lparr>en_now := now\<rparr>) (pe_core (d s)) ev"
    "offered (d s) (d (other s)) ev" "core_handle (env\<lparr>en_now := now\<rparr>) (pe_core (d s)) ev = Some core"
    "duo_run env (d(s := peer_after (en_oc env) (d s) ev core)) evs = Some d'"
    by (auto split: if_splits bind_splits)
  have "duo_step (\<lambda>_. en_oc env) (\<lambda>_. en_scheme env) d (d(s := peer_after (en_oc env) (d s) ev core))"
    using duo_event [of "env\<lparr>en_now := now\<rparr>" "\<lambda>_. en_oc env" s "\<lambda>_. en_scheme env" d ev core] core assms by simp
  then show ?case by (rule reaches_trans [OF Cons.IH [OF core(5)] reaches_one])
qed (simp add: reaches_refl)

lemmas duo_eval = spare_def peer_after_def sent_in_def received_in_def session_epoch_def in_session_def Epoch_MAX_def
  insert_msg_def get_outgoing_slice_def SliceManager_from_vec_def send_slices_def LinkEntry_max_size_def get_slices_def
  get_slices_of.simps make_slices_def make_slices_loop.simps sub_u64_def is_slice_def valid_epoch_def

text \<open>Two link sets connect, and one of the users sends a message.\<close>

definition example_meeting :: "(endpoint \<times> Instant \<times> (unit, unit) core_event) list" where
  "example_meeting =
     [(West, 1, FromCtrl (Command (CmdAddLink ()))), (East, 1, FromCtrl (Command (CmdAddLink ()))),
      (West, 2, FromLink 0 (Reset None True)), (East, 3, FromLink 0 (Reset (Some Epoch_ONE) False)),
      (West, 4, FromCtrl (Command (CmdMessage [7, 8] None))), (East, 5, FromLink 0 (MsgSlice 1 0 2 0 [7, 8]))]"

lemma example_meeting_run:
  obtains d where "duo_run example_env duo_new example_meeting = Some d"
    "spare (pe_core (d East))" "session_epoch (pe_state (d East)) = Some Epoch_ONE" "state_msg_mgr (pe_state (d East)) \<noteq> None"
    "core_enabled example_env (pe_core (d East)) (FromLink 0 (MsgSlice 1 0 2 0 [7, 8]))"
    "offered (d East) (d West) (FromLink 0 (MsgSlice 1 0 2 0 [7, 8]))"
    "core_handle example_env (pe_core (d East)) (FromLink 0 (MsgSlice 1 0 2 0 [7, 8])) \<noteq> None"
    "received_in Epoch_ONE (d East) = [[7, 8]]" "sent_in Epoch_ONE (d West) = [[7, 8]]"
proof -
  have "\<exists>d. duo_run example_env duo_new example_meeting = Some d \<and> spare (pe_core (d East)) \<and>
    session_epoch (pe_state (d East)) = Some Epoch_ONE \<and> state_msg_mgr (pe_state (d East)) \<noteq> None \<and>
    core_enabled example_env (pe_core (d East)) (FromLink 0 (MsgSlice 1 0 2 0 [7, 8])) \<and>
    offered (d East) (d West) (FromLink 0 (MsgSlice 1 0 2 0 [7, 8])) \<and>
    core_handle example_env (pe_core (d East)) (FromLink 0 (MsgSlice 1 0 2 0 [7, 8])) \<noteq> None \<and>
    received_in Epoch_ONE (d East) = [[7, 8]] \<and> sent_in Epoch_ONE (d West) = [[7, 8]]"
    by (simp add: example_meeting_def duo_new_def peer_new_def duo_eval core_eval)
  then show thesis using that by blast
qed

lemma example_meeting_reaches:
  "duo_run example_env d evs = Some d' \<Longrightarrow> reaches (duo_step (\<lambda>_. True) (\<lambda>_ _. [])) d d'"
  using duo_run_reaches [of example_env d evs d'] by (simp add: example_env_def example_link_def valid_link_def)

section \<open>Properties\<close>





text \<open>
  C7: the three states of a session implement one message manager. Whatever event a connected,
  reconnecting or waiting link set handles, the session is over afterwards, or it has the same epoch
  and its manager has changed as \<open>session_exec\<close> says, by the operations of the message manager alone;
  and in both cases its user has been handed exactly the messages that this made complete.
\<close>

theorem session_refines_manager:
  fixes core :: "('l, 'c) core"
  assumes "core_handle env core ev = Some core'" "session_epoch (co_state core) = Some e"
    "state_msg_mgr (co_state core) = Some mm"
  shows "\<exists>acks msgs mm'. session_exec (en_oc env) e mm ev = Some (acks, msgs, mm') \<and>
    (session_epoch (co_state core') = None \<or>
     session_epoch (co_state core') = Some e \<and> state_msg_mgr (co_state core') = Some mm') \<and>
    messages_in e (cs_to_ctrl (co_common core')) = messages_in e (cs_to_ctrl (co_common core)) @ msgs"
  using core_session [OF assms] by (fastforce simp: follows_def keeps_session_def)

lemma session_refines_manager_witness:
  "\<exists>d mm core'. duo_run example_env duo_new example_meeting = Some d \<and> state_msg_mgr (pe_state (d East)) = Some mm \<and>
    core_handle example_env (pe_core (d East)) (FromLink 0 (MsgSlice 1 0 2 0 [7, 8])) = Some core' \<and>
    (\<exists>acks msgs mm'. session_exec (en_oc example_env) Epoch_ONE mm
        (FromLink 0 (MsgSlice 1 0 2 0 [7, 8]) :: (unit, unit) core_event) = Some (acks, msgs, mm') \<and>
      (session_epoch (co_state core') = None \<or>
       session_epoch (co_state core') = Some Epoch_ONE \<and> state_msg_mgr (co_state core') = Some mm') \<and>
      messages_in Epoch_ONE (cs_to_ctrl (co_common core')) = messages_in Epoch_ONE (pe_log (d East)) @ msgs)"
proof -
  obtain d where d: "duo_run example_env duo_new example_meeting = Some d"
    "session_epoch (pe_state (d East)) = Some Epoch_ONE" "state_msg_mgr (pe_state (d East)) \<noteq> None"
    "core_handle example_env (pe_core (d East)) (FromLink 0 (MsgSlice 1 0 2 0 [7, 8])) \<noteq> None"
    by (rule example_meeting_run)
  then obtain mm core' where h: "state_msg_mgr (pe_state (d East)) = Some mm"
    "core_handle example_env (pe_core (d East)) (FromLink 0 (MsgSlice 1 0 2 0 [7, 8])) = Some core'"
    by auto
  with d(1) session_refines_manager [OF h(2) d(2) h(1)] show ?thesis by blast
qed

end
