(* ===== verification/Pipe_Link.thy ===== *)
theory Pipe_Link
  imports Links "HOL-Library.Word"
begin

text \<open>
  \<^verbatim>\<open>src/src/link_impls/pipe_link.rs\<close>: the in-memory link, its reader, the builder and the hub of
  listeners, and what the link manager promises to every link.

  One end of a pipe sees what it has written to the channel towards the other end, and whether that
  end has closed it; a reader sees what has arrived in its channel. \<open>flow\<close> moves what one end has
  written to the reader of the other. The capacity of a channel delays a send; what that
  leads to is in \<open>Backpressure\<close>. The samples that
  the random number generator will give are part of the state of a link, all of them true after the
  end of the list.
\<close>

section \<open>Readers\<close>

datatype PipeLinkError = PipeReceiverTaken | PipeClosed

fun pipe_error :: "PipeLinkError \<Rightarrow> boxed_error" where
  "pipe_error PipeReceiverTaken = ''The receiver hs already been taken''"
| "pipe_error PipeClosed = ''The link has closed''"

text \<open>\<open>pr_cancelled\<close> is that a signal waits in \<open>cancel_rx\<close>, or that all its senders are gone.\<close>

record PipeLinkReader =
  pr_id :: u32
  pr_rx :: "(bytes \<times> Instant) list"
  pr_rx_closed :: bool
  pr_peeked :: "(bytes \<times> Instant) option"
  pr_expiration :: Deadline
  pr_latency :: "Duration option"
  pr_cancelled :: bool

text \<open>
  A read in two parts, for it may be dropped while it sleeps: up to the sleep, and after it. A read
  that sleeps has a message and the instant at which the sleep ends, and knows whether the message
  was peeked before.
\<close>

datatype read_phase =
    ReadDone "PipeLinkError + bytes"
  | ReadPending
  | ReadSleeping bytes Instant bool

definition wake_at :: "PipeLinkReader \<Rightarrow> Instant \<Rightarrow> Instant" where
  "wake_at r timestamp = (case pr_latency r of Some latency \<Rightarrow> timestamp + latency | None \<Rightarrow> 0)"

definition pipe_read_start :: "Instant \<Rightarrow> PipeLinkReader \<Rightarrow> read_phase \<times> PipeLinkReader" where
  "pipe_read_start now r =
     (case pr_peeked r of
        Some (msg, timestamp) \<Rightarrow> (ReadSleeping msg (wake_at r timestamp) True, r\<lparr>pr_peeked := None\<rparr>)
      | None \<Rightarrow>
          if pr_cancelled r then (ReadDone (Inl PipeClosed), r\<lparr>pr_cancelled := False, pr_rx_closed := True\<rparr>)
          else
            let (expired, dl) = (if has_deadline (pr_expiration r) then Deadline_poll now (pr_expiration r)
                                 else (False, pr_expiration r));
                r = r\<lparr>pr_expiration := dl\<rparr>
            in if expired then (ReadDone (Inl PipeClosed), r\<lparr>pr_rx_closed := True\<rparr>)
               else case pr_rx r of
                      (msg, timestamp) # rx \<Rightarrow>
                        (ReadSleeping msg (wake_at r timestamp) False,
                         r\<lparr>pr_rx := rx, pr_peeked := Some (msg, timestamp)\<rparr>)
                    | [] \<Rightarrow> (if pr_rx_closed r then ReadDone (Inl PipeClosed) else ReadPending, r))"

definition pipe_read_finish :: "Instant \<Rightarrow> bytes \<Rightarrow> bool \<Rightarrow> PipeLinkReader \<Rightarrow> (PipeLinkError + bytes) \<times> PipeLinkReader" where
  "pipe_read_finish now msg was_peeked r =
     (let r = r\<lparr>pr_peeked := None\<rparr>
      in if was_peeked \<and> is_elapsed now (pr_expiration r) then (Inl PipeClosed, r\<lparr>pr_rx_closed := True\<rparr>)
         else (Inr msg, r))"

text \<open>A read that is not dropped, and the instant at which it returns; \<open>None\<close> is one that waits.\<close>

definition PipeLinkReader_read ::
  "Instant \<Rightarrow> PipeLinkReader \<Rightarrow> ((PipeLinkError + bytes) \<times> Instant) option \<times> PipeLinkReader" where
  "PipeLinkReader_read now r =
     (case pipe_read_start now r of
        (ReadDone res, r) \<Rightarrow> (Some (res, now), r)
      | (ReadPending, r) \<Rightarrow> (None, r)
      | (ReadSleeping msg wake was_peeked, r) \<Rightarrow>
          (let t = max now wake; (res, r) = pipe_read_finish t msg was_peeked r in (Some (res, t), r)))"

section \<open>The link\<close>

record PipeLink =
  pl_id :: u32
  pl_tx :: "(bytes \<times> Instant) list"
  pl_tx_closed :: bool
  pl_reader :: "PipeLinkReader option"
  pl_max_size :: "32 word"
  pl_samples :: "bool list"

definition PIPE_SCHEME :: rust_string where
  "PIPE_SCHEME = [109, 101, 109, 95, 112, 105, 112, 101]"

text \<open>The channel sender.\<close>

definition tx_send :: "bytes \<times> Instant \<Rightarrow> PipeLink \<Rightarrow> (PipeLinkError + unit) \<times> PipeLink" where
  "tx_send item l =
     (if pl_tx_closed l then (Inl PipeClosed, l) else (Inr (), l\<lparr>pl_tx := pl_tx l @ [item]\<rparr>))"

definition PipeLink_send :: "Instant \<Rightarrow> PipeLink \<Rightarrow> bytes \<Rightarrow> (PipeLinkError + unit) \<times> PipeLink" where
  "PipeLink_send now l msg =
     (let reliability_success = (case pl_samples l of [] \<Rightarrow> True | b # _ \<Rightarrow> b);
          l = l\<lparr>pl_samples := tl (pl_samples l)\<rparr>
      in if reliability_success then tx_send (msg, now) l else (Inr (), l))"

text \<open>\<open>recv\<close> reads through the reader; \<open>later\<close> is what a read that waits returns in the end.\<close>

definition PipeLink_recv :: "Instant \<Rightarrow> (PipeLinkError + bytes) \<Rightarrow> PipeLink \<Rightarrow> (PipeLinkError + bytes) \<times> PipeLink" where
  "PipeLink_recv now later l =
     (case pl_reader l of
        None \<Rightarrow> (Inl PipeReceiverTaken, l)
      | Some reader \<Rightarrow>
          (let (res, reader) = PipeLinkReader_read now reader
           in (case res of Some (r, _) \<Rightarrow> r | None \<Rightarrow> later, l\<lparr>pl_reader := Some reader\<rparr>)))"

definition PipeLink_take_reader :: "PipeLink \<Rightarrow> (PipeLinkError + PipeLinkReader) \<times> PipeLink" where
  "PipeLink_take_reader l = (ok_or (pl_reader l) PipeClosed, l\<lparr>pl_reader := None\<rparr>)"

definition PipeLink_is_closed :: "PipeLink \<Rightarrow> bool" where
  "PipeLink_is_closed l = pl_tx_closed l"

definition PipeLink_ops :: "Instant \<Rightarrow> (PipeLinkError + bytes) \<Rightarrow> PipeLink Link" where
  "PipeLink_ops now later =
     \<lparr>li_scheme = (\<lambda>_. PIPE_SCHEME),
      li_send = (\<lambda>l msg. let (r, l) = PipeLink_send now l msg in (map_err pipe_error r, l)),
      li_recv = (\<lambda>l. let (r, l) = PipeLink_recv now later l in (map_err pipe_error r, l)),
      li_take_reader = (\<lambda>l. let (r, l) = PipeLink_take_reader l
                            in (map_err pipe_error (and_then r (\<lambda>_. Inr ())), l)),
      li_max_size = (\<lambda>l. unat (pl_max_size l)),
      li_is_closed = (\<lambda>l. (PipeLink_is_closed l, l))\<rparr>"

section \<open>Pairs, the builder and the hub\<close>

text \<open>
  A probability is a value of any type; \<open>bernoulli\<close> is what \<open>Bernoulli::new\<close> makes of it, the samples
  to come or an error, on which \<open>unwrap\<close> panics.
\<close>

record 'p PipeLinkBuilder =
  pb_max_size :: "32 word"
  pb_reliability :: 'p
  pb_expiration :: "Duration option"
  pb_latency :: "Duration option"

definition PipeLinkBuilder_new :: "'p \<Rightarrow> 'p PipeLinkBuilder" where
  "PipeLinkBuilder_new one =
     \<lparr>pb_max_size = - 1, pb_reliability = one, pb_expiration = None, pb_latency = None\<rparr>"

definition builder_max_size :: "32 word \<Rightarrow> 'p PipeLinkBuilder \<Rightarrow> 'p PipeLinkBuilder" where
  "builder_max_size n b = b\<lparr>pb_max_size := n\<rparr>"

definition builder_reliability :: "'p \<Rightarrow> 'p PipeLinkBuilder \<Rightarrow> 'p PipeLinkBuilder" where
  "builder_reliability p b = b\<lparr>pb_reliability := p\<rparr>"

definition builder_expiration :: "Duration option \<Rightarrow> 'p PipeLinkBuilder \<Rightarrow> 'p PipeLinkBuilder" where
  "builder_expiration d b = b\<lparr>pb_expiration := d\<rparr>"

definition builder_latency :: "Duration option \<Rightarrow> 'p PipeLinkBuilder \<Rightarrow> 'p PipeLinkBuilder" where
  "builder_latency d b = b\<lparr>pb_latency := d\<rparr>"

definition expires_at :: "Instant \<Rightarrow> 'p PipeLinkBuilder \<Rightarrow> Deadline" where
  "expires_at now b =
     (case pb_expiration b of Some expiration \<Rightarrow> new_deadline (now + expiration) | None \<Rightarrow> Deadline_new)"

definition builder_end :: "Instant \<Rightarrow> 'p PipeLinkBuilder \<Rightarrow> bool list \<Rightarrow> u32 \<Rightarrow> PipeLink" where
  "builder_end now b samples link_id =
     \<lparr>pl_id = link_id, pl_tx = [], pl_tx_closed = False,
      pl_reader = Some \<lparr>pr_id = link_id, pr_rx = [], pr_rx_closed = False, pr_peeked = None,
        pr_expiration = expires_at now b, pr_latency = pb_latency b, pr_cancelled = False\<rparr>,
      pl_max_size = pb_max_size b, pl_samples = samples\<rparr>"

definition builder_create_pair ::
  "('p \<Rightarrow> (bool list \<times> bool list) option) \<Rightarrow> Instant \<Rightarrow> u32 \<times> u32 \<Rightarrow> 'p PipeLinkBuilder \<Rightarrow> (PipeLink \<times> PipeLink) option" where
  "builder_create_pair bernoulli now ids b =
     do { (samples1, samples2) \<leftarrow> bernoulli (pb_reliability b);
          Some (builder_end now b samples1 (fst ids), builder_end now b samples2 (snd ids)) }"

text \<open>\<open>PipeLink::create_pair\<close>, without a builder.\<close>

definition pair_end :: "bool list \<Rightarrow> u32 \<Rightarrow> PipeLink" where
  "pair_end samples link_id =
     \<lparr>pl_id = link_id, pl_tx = [], pl_tx_closed = False,
      pl_reader = Some \<lparr>pr_id = link_id, pr_rx = [], pr_rx_closed = False, pr_peeked = None,
        pr_expiration = Deadline_new, pr_latency = None, pr_cancelled = False\<rparr>,
      pl_max_size = - 1, pl_samples = samples\<rparr>"

definition PipeLink_create_pair ::
  "('p \<Rightarrow> (bool list \<times> bool list) option) \<Rightarrow> 'p \<Rightarrow> u32 \<times> u32 \<Rightarrow> (PipeLink \<times> PipeLink) option" where
  "PipeLink_create_pair bernoulli one ids =
     do { (samples1, samples2) \<leftarrow> bernoulli one;
          Some (pair_end samples1 (fst ids), pair_end samples2 (snd ids)) }"

text \<open>Cancelling signals both readers.\<close>

definition PipeLinkCanceler_cancel :: "PipeLinkReader \<times> PipeLinkReader \<Rightarrow> PipeLinkReader \<times> PipeLinkReader" where
  "PipeLinkCanceler_cancel rs =
     ((fst rs)\<lparr>pr_cancelled := True\<rparr>, (snd rs)\<lparr>pr_cancelled := True\<rparr>)"

text \<open>What one end has written arrives at the reader of the other, and the one learns of its closing.\<close>

definition flow :: "PipeLink \<times> PipeLinkReader \<Rightarrow> PipeLink \<times> PipeLinkReader" where
  "flow lr =
     (let (l, r) = lr
      in (l\<lparr>pl_tx := [], pl_tx_closed := pr_rx_closed r\<rparr>, r\<lparr>pr_rx := pr_rx r @ pl_tx l\<rparr>))"

text \<open>A listener: the links that wait for it, and whether its receiver has been dropped.\<close>

record pipe_listener =
  ls_size :: nat
  ls_links :: "PipeLink list"
  ls_closed :: bool

record 'p PipeLinkHub =
  ph_builder :: "'p PipeLinkBuilder"
  ph_size :: nat
  ph_listeners :: "rust_string \<rightharpoonup> pipe_listener"

definition PipeLinkHub_new_with_size :: "'p PipeLinkBuilder \<Rightarrow> nat \<Rightarrow> 'p PipeLinkHub" where
  "PipeLinkHub_new_with_size b n = \<lparr>ph_builder = b, ph_size = n, ph_listeners = Map.empty\<rparr>"

definition PipeLinkHub_new :: "'p PipeLinkBuilder \<Rightarrow> 'p PipeLinkHub" where
  "PipeLinkHub_new b = \<lparr>ph_builder = b, ph_size = 25, ph_listeners = Map.empty\<rparr>"

definition modify_builder :: "('p PipeLinkBuilder \<Rightarrow> 'p PipeLinkBuilder) \<Rightarrow> 'p PipeLinkHub \<Rightarrow> 'p PipeLinkHub" where
  "modify_builder f hub = hub\<lparr>ph_builder := f (ph_builder hub)\<rparr>"

definition PipeLinkHub_listen :: "rust_string \<Rightarrow> 'p PipeLinkHub \<Rightarrow> 'p PipeLinkHub" where
  "PipeLinkHub_listen addr hub =
     hub\<lparr>ph_listeners := (ph_listeners hub)(addr \<mapsto> \<lparr>ls_size = ph_size hub, ls_links = [], ls_closed = False\<rparr>)\<rparr>"

definition PipeLinkHub_connect ::
  "('p \<Rightarrow> (bool list \<times> bool list) option) \<Rightarrow> Instant \<Rightarrow> u32 \<times> u32 \<Rightarrow> rust_string \<Rightarrow> 'p PipeLinkHub \<Rightarrow>
   (PipeLink option \<times> 'p PipeLinkHub) option" where
  "PipeLinkHub_connect bernoulli now ids dest_addr hub =
     (case ph_listeners hub dest_addr of
        None \<Rightarrow> Some (None, hub)
      | Some listener \<Rightarrow>
          if ls_closed listener
          then Some (None, hub\<lparr>ph_listeners := (ph_listeners hub)(dest_addr := None)\<rparr>)
          else if ls_size listener \<le> length (ls_links listener) then Some (None, hub)
          else do {
            (link1, link2) \<leftarrow> builder_create_pair bernoulli now ids (ph_builder hub);
            Some (Some link1, hub\<lparr>ph_listeners :=
              (ph_listeners hub)(dest_addr \<mapsto> listener\<lparr>ls_links := ls_links listener @ [link2]\<rparr>)\<rparr>) })"

section \<open>The contract\<close>

definition tx_fits :: "PipeLink \<Rightarrow> bool" where
  "tx_fits l = (\<forall>(msg, _) \<in> set (pl_tx l). length msg \<le> unat (pl_max_size l))"

lemma unat_u32: "unat (n :: 32 word) < u32_bound"
  using unsigned_less [of n, where 'a = nat] by simp

lemma PipeLink_send_fits:
  "tx_fits l \<Longrightarrow> length msg \<le> unat (pl_max_size l) \<Longrightarrow> tx_fits (snd (PipeLink_send now l msg))"
  by (auto simp: PipeLink_send_def tx_send_def tx_fits_def Let_def)

lemma PipeLink_send_size: "pl_max_size (snd (PipeLink_send now l msg)) = pl_max_size l"
  by (simp add: PipeLink_send_def tx_send_def Let_def)

interpretation pipe: sized_link "PipeLink_ops now next_read" tx_fits
  by unfold_locales
     (simp_all add: PipeLink_ops_def case_prod_unfold Let_def PipeLink_send_fits PipeLink_send_size unat_u32)

lemma PipeLink_ops_max_size: "li_max_size (PipeLink_ops now next_read) l = unat (pl_max_size l)"
  by (simp add: PipeLink_ops_def)

text \<open>Every link of the manager has room for a header and has been sent nothing too long.\<close>

definition pipes_fit :: "PipeLink LinkManager \<Rightarrow> bool" where
  "pipes_fit lm = (\<forall>e \<in> set (lm_links lm). OVERHEAD < unat (pl_max_size (le_link e)) \<and> tx_fits (le_link e))"

lemma pipes_fit_links_ok: "pipes_fit lm = pipe.links_ok now next_read lm"
  by (auto simp: pipes_fit_def pipe.links_ok_def pipe.entry_ok_def PipeLink_ops_max_size)

section \<open>From one end to the other\<close>

text \<open>Messages with the instants at which they are sent, and the reads of a task that reads on and on.\<close>

fun send_all :: "(bytes \<times> Instant) list \<Rightarrow> PipeLink \<Rightarrow> PipeLink" where
  "send_all [] l = l"
| "send_all ((msg, now) # items) l = send_all items (snd (PipeLink_send now l msg))"

fun pipe_reads :: "nat \<Rightarrow> Instant \<Rightarrow> PipeLinkReader \<Rightarrow> (bytes \<times> Instant) list" where
  "pipe_reads 0 now r = []"
| "pipe_reads (Suc n) now r =
     (case PipeLinkReader_read now r of
        (Some (Inr msg, t), r) \<Rightarrow> (msg, t) # pipe_reads n t r
      | _ \<Rightarrow> [])"

lemma send_all_reliable:
  "pl_samples l = [] \<Longrightarrow> \<not> pl_tx_closed l \<Longrightarrow> send_all items l = l\<lparr>pl_tx := pl_tx l @ items\<rparr>"
  by (induction items arbitrary: l) (auto simp: PipeLink_send_def tx_send_def Let_def)

definition quiet :: "PipeLinkReader \<Rightarrow> bool" where
  "quiet r = (pr_peeked r = None \<and> \<not> pr_cancelled r \<and> \<not> has_deadline (pr_expiration r))"

lemma read_quiet:
  assumes "quiet r" "pr_rx r = (msg, sent) # rx"
  shows "PipeLinkReader_read now r = (Some (Inr msg, max now (wake_at r sent)), r\<lparr>pr_rx := rx\<rparr>)"
  using assms
  by (simp add: quiet_def PipeLinkReader_read_def pipe_read_start_def pipe_read_finish_def wake_at_def Let_def)

lemma pipe_reads_quiet:
  assumes "quiet r" "pr_rx r = items @ rx"
  shows "map fst (pipe_reads (length items) now r) = map fst items \<and>
    list_all2 (\<lambda>item got. max now (wake_at r (snd item)) \<le> snd got) items (pipe_reads (length items) now r)"
  using assms
proof (induction items arbitrary: now r)
  case (Cons item items)
  obtain msg sent where item: "item = (msg, sent)" by (cases item)
  let ?t = "max now (wake_at r sent)" and ?r = "r\<lparr>pr_rx := items @ rx\<rparr>"
  have "quiet ?r" using Cons.prems(1) by (simp add: quiet_def)
  moreover have "wake_at ?r = wake_at r" by (simp add: fun_eq_iff wake_at_def)
  ultimately have "map fst (pipe_reads (length items) ?t ?r) = map fst items \<and>
      list_all2 (\<lambda>item got. max ?t (wake_at r (snd item)) \<le> snd got) items (pipe_reads (length items) ?t ?r)"
    using Cons.IH [of ?r ?t] by simp
  then show ?case
    using read_quiet [OF Cons.prems(1), of msg sent "items @ rx" now] Cons.prems(2) item
    by (auto elim!: list_all2_mono)
qed simp

section \<open>A listener\<close>

text \<open>
  Several connect to one address, one after the other: they are served while the listener has room,
  and it gets the other ends in the same order.
\<close>

fun connect_each ::
  "('p \<Rightarrow> (bool list \<times> bool list) option) \<Rightarrow> Instant \<Rightarrow> rust_string \<Rightarrow> (u32 \<times> u32) list \<Rightarrow> 'p PipeLinkHub \<Rightarrow>
   (PipeLink option list \<times> 'p PipeLinkHub) option" where
  "connect_each bernoulli now addr [] hub = Some ([], hub)"
| "connect_each bernoulli now addr (ids # idss) hub =
     do { (res, hub) \<leftarrow> PipeLinkHub_connect bernoulli now ids addr hub;
          (rs, hub) \<leftarrow> connect_each bernoulli now addr idss hub;
          Some (res # rs, hub) }"

lemma hub_serves_in_order:
  assumes "bernoulli (pb_reliability (ph_builder hub)) = Some samples" "ph_listeners hub addr = Some listener"
    "\<not> ls_closed listener" "length (ls_links listener) \<le> ls_size listener"
  defines "room \<equiv> ls_size listener - length (ls_links listener)"
  shows "\<exists>hub'. connect_each bernoulli now addr idss hub =
      Some (map (\<lambda>ids. Some (builder_end now (ph_builder hub) (fst samples) (fst ids))) (take room idss) @
            replicate (length idss - room) None, hub') \<and>
    ph_listeners hub' addr = Some (listener\<lparr>ls_links := ls_links listener @
      map (\<lambda>ids. builder_end now (ph_builder hub) (snd samples) (snd ids)) (take room idss)\<rparr>)"
  using assms(1-4) unfolding room_def
proof (induction idss arbitrary: hub listener)
  case (Cons ids idss)
  show ?case
  proof (cases "length (ls_links listener) < ls_size listener")
    case True
    let ?listener = "listener\<lparr>ls_links := ls_links listener @ [builder_end now (ph_builder hub) (snd samples) (snd ids)]\<rparr>"
    let ?hub = "hub\<lparr>ph_listeners := (ph_listeners hub)(addr \<mapsto> ?listener)\<rparr>"
    have "PipeLinkHub_connect bernoulli now ids addr hub =
        Some (Some (builder_end now (ph_builder hub) (fst samples) (fst ids)), ?hub)"
      using True Cons.prems by (cases samples) (simp add: PipeLinkHub_connect_def builder_create_pair_def)
    moreover have "ls_size listener - length (ls_links listener) = Suc (ls_size listener - Suc (length (ls_links listener)))"
      using True by simp
    ultimately show ?thesis
      using Cons.IH [of ?hub ?listener] Cons.prems True by auto
  next
    case False
    then have "PipeLinkHub_connect bernoulli now ids addr hub = Some (None, hub)"
      using Cons.prems by (simp add: PipeLinkHub_connect_def)
    then show ?thesis using Cons.IH [of hub listener] Cons.prems False by auto
  qed
qed simp

text \<open>A pair made without a builder is the pair that the default builder makes, at whatever instant.\<close>

lemma default_pair_equivalent:
  "PipeLink_create_pair bernoulli one ids = builder_create_pair bernoulli now ids (PipeLinkBuilder_new one)"
  by (simp add: PipeLink_create_pair_def builder_create_pair_def PipeLinkBuilder_new_def pair_end_def builder_end_def
      expires_at_def fun_eq_iff)

section \<open>Properties\<close>

text \<open>
  C28: the slices of a message are written to a link in pieces that fit the link's maximum size,
  their headers included.
\<close>

theorem slices_fit_link:
  assumes "pipes_fit lm" "queued epoch q m k sm" "length m \<le> isize_max"
    "send_slices oc (PipeLink_ops now next_read) sm lm = Some (r, lm')"
  shows "pipes_fit lm'"
  using assms(1) pipe.send_slices_ok [OF _ assms(4)] slice_serialized [OF assms(2,3)]
  by (simp add: pipes_fit_links_ok [of _ now next_read])

definition example_pipe :: "32 word \<Rightarrow> PipeLink" where
  "example_pipe n =
     \<lparr>pl_id = 1, pl_tx = [], pl_tx_closed = False, pl_reader = None, pl_max_size = n, pl_samples = []\<rparr>"

lemmas link_eval = with_link_def LinkEntry_new_def send_slices_def unusable_def LinkEntry_is_closed_def
  LinkEntry_latency_def MAX_LATENCY_def DEFAULT_LATENCY_def HISTORY_LEN_def LinkEntry_max_size_def OVERHEAD_def
  get_slices_def get_slices_of.simps make_slices_def make_slices_loop.simps SliceManager_from_vec_def
  add_u64_def sub_u64_def LinkEntry_send_def pinned_send_def map_err_def Let_def

lemma slices_fit_link_witness:
  "\<exists>r lm. send_slices True (PipeLink_ops 5 (Inl PipeClosed)) (SliceManager_from_vec (Epoch 1) 0 [7, 8, 9])
     (with_link (LinkEntry_new (example_pipe 58) 0)) = Some (r, lm) \<and> pipes_fit lm"
proof -
  have "send_slices True (PipeLink_ops 5 (Inl PipeClosed)) (SliceManager_from_vec (Epoch 1) 0 [7, 8, 9])
     (with_link (LinkEntry_new (example_pipe 58) 0)) \<noteq> None"
    by (simp add: link_eval PipeLink_ops_def PipeLink_send_def tx_send_def PipeLink_is_closed_def
        example_pipe_def sum_list_replicate)
  then obtain r lm where
    "send_slices True (PipeLink_ops 5 (Inl PipeClosed)) (SliceManager_from_vec (Epoch 1) 0 [7, 8, 9])
       (with_link (LinkEntry_new (example_pipe 58) 0)) = Some (r, lm)"
    by auto
  moreover have "pipes_fit (with_link (LinkEntry_new (example_pipe 58) 0))"
    by (simp add: pipes_fit_def with_link_def LinkEntry_new_def example_pipe_def tx_fits_def OVERHEAD_def)
  moreover have "queued (Epoch 1) 0 [7, 8, 9] 0 (SliceManager_from_vec (Epoch 1) 0 [7, 8, 9])"
    using sends_from_vec [of "Epoch 1" 0 "[7, 8, 9]"] by (simp add: queued_def SliceManager_from_vec_def)
  ultimately show ?thesis
    using slices_fit_link by fastforce
qed

text \<open>
  Everything else the manager sends fits too, and asking links whether they are closed, pinging
  them or discarding them changes nothing about that.
\<close>

lemma control_messages_fit_link:
  assumes "pipes_fit lm"
  shows "pipes_fit (snd (links_reset (PipeLink_ops now next_read) epoch request lm)) \<and>
    pipes_fit (snd (links_ack (PipeLink_ops now next_read) ep ack lm)) \<and>
    pipes_fit (ping_all (PipeLink_ops now next_read) now lm) \<and>
    pipes_fit (links_pong (PipeLink_ops now next_read) link_id lm) \<and>
    pipes_fit (links_end_ping now link_id lm) \<and> pipes_fit (upkeep (PipeLink_ops now next_read) lm) \<and>
    pipes_fit (snd (evict_link link_id lm))"
  using assms pipe.manager_ok by (simp add: pipes_fit_links_ok [of _ now next_read])

text \<open>
  What is written to a reliable pipe is read at the other end, all of it, in the order in which
  it was written, and not before the latency of the pipe has passed.
\<close>

theorem pipe_delivers_in_order:
  assumes "pl_samples l = []" "\<not> pl_tx_closed l" "pl_tx l = []" "quiet r" "pr_rx r = []" "\<not> pr_rx_closed r"
    "flow (send_all items l, r) = (l', r')"
  shows "map fst (pipe_reads (length items) now r') = map fst items \<and>
    list_all2 (\<lambda>item got. max now (wake_at r' (snd item)) \<le> snd got) items (pipe_reads (length items) now r') \<and>
    pl_tx_closed l' = False"
proof -
  have "r' = r\<lparr>pr_rx := items\<rparr>" "pl_tx_closed l' = False"
    using assms by (auto simp: flow_def send_all_reliable)
  moreover have "quiet (r\<lparr>pr_rx := items\<rparr>)" using assms(4) by (simp add: quiet_def)
  ultimately show ?thesis
    using pipe_reads_quiet [of r' items "[]" now] by simp
qed

lemma pipe_delivers_in_order_witness:
  "\<exists>l' r'. flow (send_all [([1], 10), ([2], 11)] (pair_end [] 1), the (pl_reader (pair_end [] 2))) = (l', r') \<and>
     map fst (pipe_reads (length [([1 :: u8], 10 :: nat), ([2], 11)]) 12 r') = map fst [([1], 10 :: nat), ([2], 11)] \<and>
     list_all2 (\<lambda>item got. max 12 (wake_at r' (snd item)) \<le> snd got) [([1 :: u8], 10), ([2], 11)]
       (pipe_reads (length [([1 :: u8], 10 :: nat), ([2], 11)]) 12 r') \<and> pl_tx_closed l' = False"
proof -
  obtain l' r' where f: "flow (send_all [([1], 10), ([2], 11)] (pair_end [] 1), the (pl_reader (pair_end [] 2))) = (l', r')"
    by (cases "flow (send_all [([1], 10), ([2], 11)] (pair_end [] 1), the (pl_reader (pair_end [] 2)))")
  show ?thesis
    by (intro exI conjI; (rule f)?; rule pipe_delivers_in_order [OF _ _ _ _ _ _ f, THEN conjunct1]
        pipe_delivers_in_order [OF _ _ _ _ _ _ f, THEN conjunct2, THEN conjunct1]
        pipe_delivers_in_order [OF _ _ _ _ _ _ f, THEN conjunct2, THEN conjunct2];
        simp add: pair_end_def quiet_def has_deadline_def Deadline_new_def)
qed

text \<open>
  C34: a read may be dropped while it sleeps: the next one returns the message. But when that one is
  dropped as well the message is lost, since it has been taken out of \<open>peeked\<close> already.
\<close>

theorem dropped_reads:
  assumes "quiet r" "pr_latency r = Some latency" "pr_rx r = (msg, sent) # rx"
  shows "PipeLinkReader_read now' (snd (pipe_read_start now r)) =
      (Some (Inr msg, max now' (sent + latency)), r\<lparr>pr_rx := rx\<rparr>) \<and>
    snd (pipe_read_start now' (snd (pipe_read_start now r))) = r\<lparr>pr_rx := rx\<rparr>"
  using assms
  by (simp add: quiet_def PipeLinkReader_read_def pipe_read_start_def pipe_read_finish_def wake_at_def is_elapsed_def
      has_deadline_def Let_def)

lemma dropped_reads_witness:
  "\<exists>r. r = (the (pl_reader (pair_end [] 2)))\<lparr>pr_rx := [([7], 5)], pr_latency := Some 10\<rparr> \<and>
    PipeLinkReader_read 9 (snd (pipe_read_start 8 r)) = (Some (Inr [7], max 9 (5 + 10)), r\<lparr>pr_rx := []\<rparr>) \<and>
    snd (pipe_read_start 9 (snd (pipe_read_start 8 r))) = r\<lparr>pr_rx := []\<rparr>"
  by (intro exI conjI, rule refl;
      rule dropped_reads [THEN conjunct1] dropped_reads [THEN conjunct2];
      simp add: pair_end_def quiet_def has_deadline_def Deadline_new_def)

end
