(* ===== verification/Two_Link_Sets.thy ===== *)
theory Two_Link_Sets
  imports Lifecycle Pipe_Link Message_Transfer
begin

text \<open>
  Two link sets joined by a pipe: the whole stack, from the handlers of the states down to the bytes
  on the pipe and up again. Each side is a core; what one has written to its link the other reads
  through its reader task. The sides proceed in rounds, in each of which both read what the other
  has written before.
\<close>

section \<open>A link to the other side\<close>

text \<open>
  Where a side is at home: its overflow checks, its connectors, its clock, what a read that waits
  returns in the end, and the id and the size of its link.
\<close>

record 'c port =
  po_oc :: bool
  po_scheme :: "'c \<Rightarrow> rust_string"
  po_now :: Instant
  po_later :: "PipeLinkError + bytes"
  po_id :: u64
  po_size :: u32

definition port_link :: "'c port \<Rightarrow> PipeLink Link" where
  "port_link pt = PipeLink_ops (po_now pt) (po_later pt)"

definition port_env :: "'c port \<Rightarrow> (PipeLink, 'c) env" where
  "port_env pt = \<lparr>en_oc = po_oc pt, en_link = port_link pt, en_scheme = po_scheme pt, en_now = po_now pt\<rparr>"

lemma port_env_simps [simp]:
  "en_oc (port_env pt) = po_oc pt" "en_link (port_env pt) = port_link pt"
  "en_scheme (port_env pt) = po_scheme pt" "en_now (port_env pt) = po_now pt"
  by (simp_all add: port_env_def)

text \<open>
  \<open>wire pt ps lm\<close>: the manager has one link, an open and reliable pipe that has answered in time, and
  the messages \<open>ps\<close> have been written to it.
\<close>

definition wire_entry :: "'c port \<Rightarrow> LinkProtocol list \<Rightarrow> PipeLink LinkEntry \<Rightarrow> bool" where
  "wire_entry pt ps e =
     (le_id e = po_id pt \<and> \<not> pl_tx_closed (le_link e) \<and> pl_samples (le_link e) = [] \<and>
      map fst (pl_tx (le_link e)) = map serialize ps \<and> unat (pl_max_size (le_link e)) = po_size pt \<and>
      (\<forall>d \<in> set (le_recent e). d \<le> DEFAULT_LATENCY) \<and> le_ping e \<in> {None, Some (po_now pt)})"

definition wire :: "'c port \<Rightarrow> LinkProtocol list \<Rightarrow> PipeLink LinkManager \<Rightarrow> bool" where
  "wire pt ps lm = (\<exists>e. lm_links lm = [e] \<and> wire_entry pt ps e)"

lemma sum_list_bound: "\<forall>x \<in> set xs. x \<le> (k :: nat) \<Longrightarrow> sum_list xs \<le> length xs * k"
  by (induction xs) auto

lemma latency_le:
  assumes "\<forall>d \<in> set (le_recent e). d \<le> DEFAULT_LATENCY"
  shows "LinkEntry_latency e < MAX_LATENCY"
proof (cases "le_recent e = []")
  case False
  have "sum_list (le_recent e) div length (le_recent e) \<le> (length (le_recent e) * DEFAULT_LATENCY) div length (le_recent e)"
    using sum_list_bound [OF assms] by (rule div_le_mono)
  then show ?thesis using False by (simp add: LinkEntry_latency_def DEFAULT_LATENCY_def MAX_LATENCY_def)
qed (simp add: LinkEntry_latency_def DEFAULT_LATENCY_def MAX_LATENCY_def)

lemma wire_entry_send:
  assumes "wire_entry pt ps e"
  shows "wire_entry pt (ps @ [p]) (snd (LinkEntry_send (port_link pt) e p))"
    "fst (LinkEntry_send (port_link pt) e p) = Inr ()"
  using assms
  by (auto simp: wire_entry_def LinkEntry_send_def pinned_send_def port_link_def PipeLink_ops_def PipeLink_send_def
      tx_send_def map_err_def Let_def)

lemma wire_entry_end_ping:
  assumes "wire_entry pt ps e"
  shows "wire_entry pt ps (LinkEntry_end_ping (po_now pt) e)"
  using assms set_take_subset [of 5 "le_recent e"]
  by (auto simp: wire_entry_def LinkEntry_end_ping_def add_latency_def HISTORY_LEN_def)

lemma wire_entry_ping:
  assumes "wire_entry pt ps e"
  shows "wire_entry pt (ps @ [Ping]) (snd (send_ping (port_link pt) (po_now pt) e))"
proof -
  have "wire_entry pt ps ((LinkEntry_end_ping (po_now pt) e)\<lparr>le_ping := Some (po_now pt)\<rparr>)"
    using wire_entry_end_ping [OF assms] by (simp add: wire_entry_def)
  then show ?thesis unfolding send_ping_def by (rule wire_entry_send)
qed

lemma wire_usable:
  assumes "wire_entry pt ps e"
  shows "unusable (port_link pt) e = (False, e)"
  using assms latency_le [of e]
  by (simp add: wire_entry_def unusable_def LinkEntry_is_closed_def port_link_def PipeLink_ops_def
      PipeLink_is_closed_def not_less)

lemma wire_send_proto: "wire pt ps lm \<Longrightarrow> wire pt (ps @ [p]) (snd (send_proto (port_link pt) p lm))"
  by (auto simp: wire_def send_proto_def wire_usable case_prod_unfold Let_def intro: wire_entry_send)

lemma wire_ping_all: "wire pt ps lm \<Longrightarrow> wire pt (ps @ [Ping]) (ping_all (port_link pt) (po_now pt) lm)"
  by (auto simp: wire_def ping_all_def intro: wire_entry_ping)

lemma wire_id: "wire_entry pt ps e \<Longrightarrow> le_id e = po_id pt"
  by (simp add: wire_entry_def)

lemma wire_pong: "wire pt ps lm \<Longrightarrow> wire pt (ps @ [Pong]) (links_pong (port_link pt) (po_id pt) lm)"
  by (auto simp: wire_def links_pong_def send_pong_def wire_id intro: wire_entry_send)

lemma wire_end_ping: "wire pt ps lm \<Longrightarrow> wire pt ps (links_end_ping (po_now pt) (po_id pt) lm)"
  by (auto simp: wire_def links_end_ping_def wire_id intro: wire_entry_end_ping)

lemma wire_not_empty: "wire pt ps lm \<Longrightarrow> \<not> LinkManager_is_empty lm"
  by (auto simp: wire_def LinkManager_is_empty_def)

lemma wire_send_each:
  "wire_entry pt ps e \<Longrightarrow> \<exists>e'. send_each (port_link pt) qs e = (Inr (), e') \<and> wire_entry pt (ps @ qs) e'"
proof (induction qs arbitrary: ps e)
  case (Cons q qs)
  show ?case
    using Cons.IH [OF wire_entry_send(1) [OF Cons.prems]] wire_entry_send(2) [OF Cons.prems]
    by (simp add: case_prod_unfold Let_def)
qed simp

lemma wire_send_slices:
  assumes "wire pt ps lm" "get_slices oc sm (po_size pt - OVERHEAD) = Some qs"
  shows "\<exists>lm'. send_slices oc (port_link pt) sm lm = Some (Inr (), lm') \<and> wire pt (ps @ qs) lm'"
proof -
  obtain e where e: "lm_links lm = [e]" "wire_entry pt ps e" using assms(1) by (auto simp: wire_def)
  obtain e' where "send_each (port_link pt) qs e = (Inr (), e')" "wire_entry pt (ps @ qs) e'"
    using wire_send_each [OF e(2)] by blast
  moreover have "LinkEntry_max_size (port_link pt) e = po_size pt - OVERHEAD"
    using e(2) by (simp add: LinkEntry_max_size_def port_link_def PipeLink_ops_def wire_entry_def)
  ultimately show ?thesis
    using e assms(2) by (simp add: send_slices_def wire_usable wire_def)
qed

section \<open>The two states of a side\<close>

type_synonym 'c side = "(PipeLink, 'c) core"

text \<open>
  A side that has a link and no session yet, and one that has a session, with its message manager;
  \<open>log\<close> is what its user has been told, and \<open>ps\<close> is what waits on the link.
\<close>

definition port_open :: "'c port \<Rightarrow> LinkSetMessageInner list \<Rightarrow> 'c side \<Rightarrow> bool" where
  "port_open pt log side =
     (po_id pt \<in> set (cs_readers (co_common side)) \<and> cs_to_ctrl (co_common side) = log \<and>
      OVERHEAD < po_size pt \<and> po_size pt < u32_bound)"

definition mismatched :: "'c port \<Rightarrow> Epoch option \<Rightarrow> LinkSetMessageInner list \<Rightarrow> LinkProtocol list \<Rightarrow> 'c side \<Rightarrow> bool" where
  "mismatched pt epoch log ps side =
     (port_open pt log side \<and>
      (\<exists>s. co_state side = S_EpochMismatch s \<and> em_epoch s = epoch \<and> em_queued_msgs s = [] \<and> wire pt ps (em_links s)))"

definition joined ::
  "'c port \<Rightarrow> Epoch \<Rightarrow> MessageManager \<Rightarrow> LinkSetMessageInner list \<Rightarrow> LinkProtocol list \<Rightarrow> 'c side \<Rightarrow> bool" where
  "joined pt epoch mm log ps side =
     (port_open pt log side \<and>
      (\<exists>s. co_state side = S_Connected s \<and> cd_epoch s = epoch \<and> cd_msg_mgr s = mm \<and> wire pt ps (cd_links s)))"

lemmas side_defs = core_handle_def Let_def links_reset_def

text \<open>A link is added to a link set that is disconnected.\<close>

definition fresh_pipe :: "'c port \<Rightarrow> PipeLink \<Rightarrow> bool" where
  "fresh_pipe pt l =
     (\<not> pl_tx_closed l \<and> pl_samples l = [] \<and> pl_tx l = [] \<and> pl_reader l \<noteq> None \<and> unat (pl_max_size l) = po_size pt \<and>
      OVERHEAD < po_size pt \<and> po_size pt < u32_bound)"

definition disconnected_side :: "'c port \<Rightarrow> Epoch option \<Rightarrow> LinkSetMessageInner list \<Rightarrow> 'c side \<Rightarrow> bool" where
  "disconnected_side pt epoch log side =
     (\<exists>d. co_state side = S_Disconnected d \<and> dc_epoch d = epoch \<and> cs_to_ctrl (co_common side) = log \<and>
       cs_next_link_id (co_common side) = po_id pt \<and> po_id pt + 1 < u64_bound)"

lemma side_add_link:
  assumes "disconnected_side pt epoch log side" "fresh_pipe pt l"
  shows "\<exists>side'. core_handle (port_env pt) side (FromCtrl (Command (CmdAddLink l))) = Some side' \<and>
    mismatched pt epoch log [Ping, Reset epoch True] side'"
proof -
  obtain d where d: "co_state side = S_Disconnected d" "dc_epoch d = epoch" "cs_to_ctrl (co_common side) = log"
    "cs_next_link_id (co_common side) = po_id pt" "po_id pt + 1 < u64_bound"
    using assms(1) by (auto simp: disconnected_side_def)
  let ?L = "port_link pt"
  let ?e = "LinkEntry_new (l\<lparr>pl_reader := None\<rparr>) (po_id pt)"
  let ?lm = "snd (send_proto ?L (Reset epoch True) (ping_all ?L (po_now pt) (add_link ?e LinkManager_new)))"
  have "wire pt [] (add_link ?e LinkManager_new)"
    using assms(2)
    by (auto simp: wire_def wire_entry_def add_link_def LinkManager_new_def LinkEntry_new_def fresh_pipe_def
        DEFAULT_LATENCY_def MAX_LATENCY_def)
  from wire_send_proto [OF wire_ping_all [OF this]]
  have w: "wire pt [Ping, Reset epoch True] ?lm" by simp
  obtain r where r: "pl_reader l = Some r" using assms(2) by (auto simp: fresh_pipe_def)
  have "add_u64 (po_oc pt) (po_id pt) 1 = Some (po_id pt + 1)" using d(5) by (simp add: add_u64_def)
  moreover have "li_max_size ?L l = po_size pt" "\<not> po_size pt \<le> OVERHEAD" "po_size pt < u32_bound"
    using assms(2) by (simp_all add: port_link_def PipeLink_ops_def fresh_pipe_def)
  moreover have "LinkEntry_take_reader ?L (LinkEntry_new l (po_id pt)) = (Inr (), ?e)"
    using r by (simp add: LinkEntry_take_reader_def pinned_take_reader_def port_link_def PipeLink_ops_def
        PipeLink_take_reader_def LinkEntry_new_def map_err_def ok_or_def)
  ultimately show ?thesis
    using w d by (simp add: side_defs wrap_link_def EpochMismatch_from_Disconnected_def mismatched_def port_open_def on_timer_def)
qed

section \<open>The handshake\<close>

text \<open>The epoch on which two sides agree.\<close>

definition agreed :: "Epoch option \<Rightarrow> Epoch option \<Rightarrow> Epoch" where
  "agreed a b =
     (case (a, b) of
        (Some x, Some y) \<Rightarrow> max x y
      | (Some x, None) \<Rightarrow> x
      | (None, Some y) \<Rightarrow> y
      | (None, None) \<Rightarrow> Epoch_ONE)"

lemma valid_agreed:
  assumes "valid_opt_epoch a" "valid_opt_epoch b"
  shows "valid_epoch (agreed a b)"
  using assms
  by (auto simp: agreed_def valid_opt_epoch_def max_def valid_epoch_def Epoch_ONE_def split: option.splits)

lemma agreed_commute: "agreed a b = agreed b a"
  by (simp add: agreed_def max.commute split: option.split)

lemma agreed_Greater: "compare_epochs a b = Greater \<Longrightarrow> a = Some (agreed a b)"
  by (auto simp: compare_epochs_Greater agreed_def max_def split: option.splits)

lemma mismatched_ping:
  assumes "mismatched pt epoch log ps side"
  shows "\<exists>side'. core_handle (port_env pt) side (FromLink (po_id pt) Ping) = Some side' \<and>
      mismatched pt epoch log (ps @ [Pong]) side'"
    "\<exists>side'. core_handle (port_env pt) side (FromLink (po_id pt) Pong) = Some side' \<and>
      mismatched pt epoch log ps side'"
  using assms by (auto simp: mismatched_def port_open_def side_defs intro: wire_pong wire_end_ping)

lemma becomes_connected:
  assumes "em_queued_msgs s = []" "wire pt ps (em_links s)" "port_open pt log \<lparr>co_state = st0, co_common = common\<rparr>"
  shows "\<exists>st common'. Connected_from_EpochMismatch (port_env pt) s common epoch = Some (st, common') \<and>
    joined pt epoch (MessageManager_new epoch) (log @ [InnerConnected epoch]) ps \<lparr>co_state = st, co_common = common'\<rparr>"
  using assms
  by (simp add: Connected_from_EpochMismatch_def joined_def port_open_def to_ctrl_def connected_common_def on_timer_def
      set_active_def Let_def)

lemma mismatched_reset:
  assumes "mismatched pt epoch log ps side" and e_def: "e = agreed epoch epoch'"
  shows "\<exists>side'. core_handle (port_env pt) side (FromLink (po_id pt) (Reset epoch' request)) = Some side' \<and>
    (case compare_epochs epoch epoch' of
       Greater \<Rightarrow> mismatched pt epoch log (ps @ [Reset epoch False]) side'
     | Equal \<Rightarrow> joined pt e (MessageManager_new e) (log @ [InnerConnected e])
                 (ps @ (if request then [Reset epoch False] else [])) side'
     | Less \<Rightarrow> joined pt e (MessageManager_new e) (log @ [InnerConnected e]) (ps @ [Reset (Some e) False]) side')"
proof -
  let ?env = "port_env pt" and ?L = "port_link pt"
  obtain s where s: "co_state side = S_EpochMismatch s" "em_epoch s = epoch" "em_queued_msgs s = []"
    "wire pt ps (em_links s)"
    and op: "port_open pt log side"
    using assms(1) by (auto simp: mismatched_def)
  have op': "port_open pt log \<lparr>co_state = co_state side, co_common = co_common side\<rparr>" using op by (simp add: port_open_def)
  have sent: "wire pt (ps @ [Reset e r]) (snd (links_reset ?L e r (em_links s)))" for e r
    unfolding links_reset_def by (rule wire_send_proto [OF s(4)])
  have h: "core_handle ?env side (FromLink (po_id pt) (Reset epoch' request)) =
      map_option (\<lambda>(state, common). \<lparr>co_state = state, co_common = common\<rparr>)
        (EpochMismatch_reset ?env s (co_common side) epoch' request)"
    using s(1) by (simp add: core_handle_def)
  show ?thesis
  proof (cases "compare_epochs epoch epoch'")
    case Greater
    then show ?thesis
      unfolding h using s sent op by (auto simp: EpochMismatch_reset_def mismatched_def port_open_def)
  next
    case Equal
    then have e: "epoch = Some e" "epoch' = Some e" by (auto simp: compare_epochs_Equal e_def agreed_def)
    let ?s = "if request then s\<lparr>em_links := snd (links_reset ?L epoch False (em_links s))\<rparr> else s"
    have "em_queued_msgs ?s = []" "wire pt (ps @ (if request then [Reset epoch False] else [])) (em_links ?s)"
      using s sent by simp_all
    from becomes_connected [OF this op'] obtain st common' where
      "Connected_from_EpochMismatch ?env ?s (co_common side) e = Some (st, common')"
      "joined pt e (MessageManager_new e) (log @ [InnerConnected e])
        (ps @ (if request then [Reset epoch False] else [])) \<lparr>co_state = st, co_common = common'\<rparr>"
      by blast
    then show ?thesis
      unfolding h using Equal e s(2) by (cases request) (auto simp: EpochMismatch_reset_def)
  next
    case Less
    let ?e = "case epoch' of Some e \<Rightarrow> e | None \<Rightarrow> Epoch_ONE"
    let ?s = "s\<lparr>em_epoch := epoch', em_links := snd (links_reset ?L (Some ?e) False (em_links s))\<rparr>"
    have a: "e = ?e"
      using Less by (auto simp: e_def agreed_def compare_epochs_Less max_def split: option.splits)
    have "em_queued_msgs ?s = []" "wire pt (ps @ [Reset (Some e) False]) (em_links ?s)"
      using s sent a by simp_all
    from becomes_connected [OF this op'] obtain st common' where
      "Connected_from_EpochMismatch ?env ?s (co_common side) e = Some (st, common')"
      "joined pt e (MessageManager_new e) (log @ [InnerConnected e]) (ps @ [Reset (Some e) False])
         \<lparr>co_state = st, co_common = common'\<rparr>"
      by blast
    then show ?thesis
      unfolding h using Less s(2) by (auto simp: EpochMismatch_reset_def Let_def simp flip: a)
  qed
qed

text \<open>What a side with a session does with the rest of the handshake.\<close>

lemma joined_handles:
  assumes "joined pt epoch mm log ps side"
  shows "\<exists>side'. core_handle (port_env pt) side (FromLink (po_id pt) Pong) = Some side' \<and>
      joined pt epoch mm log ps side'"
    "\<exists>side'. core_handle (port_env pt) side (FromLink (po_id pt) (Reset epoch' False)) = Some side' \<and>
      joined pt epoch mm log ps side'"
  using assms by (auto simp: joined_def port_open_def side_defs intro: wire_end_ping)

section \<open>Rounds\<close>

fun side_links :: "(PipeLink, 'c) States \<Rightarrow> PipeLink LinkManager" where
  "side_links (S_EpochMismatch s) = em_links s"
| "side_links (S_Connected s) = cd_links s"
| "side_links _ = LinkManager_new"

text \<open>
  What a side has written to its links, what the reader task of the other side makes of it, and the
  side once it has been read.
\<close>

definition written :: "'c side \<Rightarrow> bytes list" where
  "written side = concat (map (\<lambda>e. map fst (pl_tx (le_link e))) (lm_links (side_links (co_state side))))"

definition inbox :: "'c port \<Rightarrow> 'c side \<Rightarrow> (Instant \<times> (PipeLink, 'c) core_event) list" where
  "inbox pt other = map (\<lambda>(link_id, p). (po_now pt, FromLink link_id p)) (reader_task (po_id pt) (map Inr (written other)))"

definition emptied :: "'c side \<Rightarrow> 'c side" where
  "emptied side = side\<lparr>co_state := links_change (\<lambda>l. l\<lparr>pl_tx := []\<rparr>) (co_state side)\<rparr>"

definition two_way_round :: "'c port \<times> 'c port \<Rightarrow> 'c side \<times> 'c side \<Rightarrow> ('c side \<times> 'c side) option" where
  "two_way_round pts sides =
     (let (pa, pb) = pts; (a, b) = sides
      in do { a' \<leftarrow> core_run (port_env pa) (emptied a) (inbox pa b);
              b' \<leftarrow> core_run (port_env pb) (emptied b) (inbox pb a);
              Some (a', b') })"

definition link_events :: "'c port \<Rightarrow> LinkProtocol list \<Rightarrow> (Instant \<times> (PipeLink, 'c) core_event) list" where
  "link_events pt ps = map (\<lambda>p. (po_now pt, FromLink (po_id pt) p)) ps"

lemma wire_inbox:
  assumes "wire pt' ps (side_links (co_state other))" "\<forall>p \<in> set ps. valid_proto p"
  shows "inbox pt other = link_events pt ps"
proof -
  have "written other = map serialize ps"
    using assms(1) by (auto simp: wire_def wire_entry_def written_def)
  then show ?thesis
    using reader_task_serialized [OF assms(2), of "po_id pt" "[]"]
    by (simp add: inbox_def link_events_def comp_def)
qed

lemma wire_emptied: "wire pt ps lm \<Longrightarrow> wire pt [] (change_links (\<lambda>l. l\<lparr>pl_tx := []\<rparr>) lm)"
  by (auto simp: wire_def wire_entry_def change_links_def)

lemma mismatched_round:
  assumes "mismatched pt epoch log ps side"
  shows "mismatched pt epoch log [] (emptied side)"
    "\<forall>p \<in> set ps. valid_proto p \<Longrightarrow> inbox other side = link_events other ps"
  using assms wire_inbox [of pt ps side other]
  by (auto simp: mismatched_def port_open_def emptied_def intro: wire_emptied)

lemma joined_round:
  assumes "joined pt epoch mm log ps side"
  shows "joined pt epoch mm log [] (emptied side)"
    "\<forall>p \<in> set ps. valid_proto p \<Longrightarrow> inbox other side = link_events other ps"
  using assms wire_inbox [of pt ps side other]
  by (auto simp: joined_def port_open_def emptied_def intro: wire_emptied)

lemma enabled_link:
  "mismatched pt epoch log ps side \<Longrightarrow> valid_proto p \<Longrightarrow> core_enabled (port_env pt) side (FromLink (po_id pt) p)"
  "joined pt e mm log ps side \<Longrightarrow> valid_proto p \<Longrightarrow> core_enabled (port_env pt) side (FromLink (po_id pt) p)"
  by (auto simp: mismatched_def joined_def port_open_def core_enabled_def)

lemma run_link_events:
  "core_run (port_env pt) side (link_events pt []) = Some side"
  "core_enabled (port_env pt) side (FromLink (po_id pt) p) \<Longrightarrow>
   core_run (port_env pt) side (link_events pt (p # ps)) =
     do { side \<leftarrow> core_handle (port_env pt) side (FromLink (po_id pt) p); core_run (port_env pt) side (link_events pt ps) }"
  by (simp_all add: link_events_def port_env_def)

text \<open>
  The first round: every side answers with the epoch agreed on, and only the one whose epoch it is
  may wait for the second.
\<close>

definition answered :: "'c port \<Rightarrow> Epoch \<Rightarrow> LinkSetMessageInner list \<Rightarrow> LinkProtocol list \<Rightarrow> 'c side \<Rightarrow> bool" where
  "answered pt e log ps side =
     (joined pt e (MessageManager_new e) (log @ [InnerConnected e]) ps side \<or> mismatched pt (Some e) log ps side)"

lemma first_round:
  assumes "mismatched pt epoch log [] side" "valid_opt_epoch epoch'" and e: "e = agreed epoch epoch'"
  shows "\<exists>side'. core_run (port_env pt) side (link_events pt [Ping, Reset epoch' True]) = Some side' \<and>
    answered pt e log [Pong, Reset (Some e) False] side'"
proof -
  obtain s1 where s1: "core_handle (port_env pt) side (FromLink (po_id pt) Ping) = Some s1"
    "mismatched pt epoch log [Pong] s1"
    using mismatched_ping(1) [OF assms(1)] by auto
  obtain s2 where s2: "core_handle (port_env pt) s1 (FromLink (po_id pt) (Reset epoch' True)) = Some s2"
    "case compare_epochs epoch epoch' of
       Greater \<Rightarrow> mismatched pt epoch log ([Pong] @ [Reset epoch False]) s2
     | Equal \<Rightarrow> joined pt e (MessageManager_new e) (log @ [InnerConnected e])
                 ([Pong] @ (if True then [Reset epoch False] else [])) s2
     | Less \<Rightarrow> joined pt e (MessageManager_new e) (log @ [InnerConnected e]) ([Pong] @ [Reset (Some e) False]) s2"
    using mismatched_reset [OF s1(2) e, of True] by blast
  have "answered pt e log [Pong, Reset (Some e) False] s2"
    using s2(2) agreed_Greater [of epoch epoch'] e
    by (cases "compare_epochs epoch epoch'") (auto simp: compare_epochs_Equal agreed_def answered_def)
  then show ?thesis
    using enabled_link(1) [OF assms(1)] enabled_link(1) [OF s1(2)] assms(2) s1(1) s2(1)
    by (simp add: run_link_events)
qed

lemma second_round:
  assumes "answered pt e log [] side" "valid_epoch e"
  shows "\<exists>side'. core_run (port_env pt) side (link_events pt [Pong, Reset (Some e) False]) = Some side' \<and>
    joined pt e (MessageManager_new e) (log @ [InnerConnected e]) [] side'"
proof -
  have v: "valid_opt_epoch (Some e)" using assms(2) by (simp add: valid_opt_epoch_def)
  from assms(1) consider
      (j) "joined pt e (MessageManager_new e) (log @ [InnerConnected e]) [] side"
    | (m) "mismatched pt (Some e) log [] side"
    by (auto simp: answered_def)
  then show ?thesis
  proof cases
    case j
    obtain s1 where s1: "core_handle (port_env pt) side (FromLink (po_id pt) Pong) = Some s1"
      "joined pt e (MessageManager_new e) (log @ [InnerConnected e]) [] s1"
      using joined_handles(1) [OF j] by blast
    obtain s2 where "core_handle (port_env pt) s1 (FromLink (po_id pt) (Reset (Some e) False)) = Some s2"
      "joined pt e (MessageManager_new e) (log @ [InnerConnected e]) [] s2"
      using joined_handles(2) [OF s1(2)] by blast
    then show ?thesis
      using enabled_link(2) [OF j] enabled_link(2) [OF s1(2)] v s1(1) by (simp add: run_link_events)
  next
    case m
    obtain s1 where s1: "core_handle (port_env pt) side (FromLink (po_id pt) Pong) = Some s1"
      "mismatched pt (Some e) log [] s1"
      using mismatched_ping(2) [OF m] by blast
    have "compare_epochs (Some e) (Some e) = Equal" "e = agreed (Some e) (Some e)"
      by (simp_all add: compare_epochs_Equal agreed_def)
    then obtain s2 where "core_handle (port_env pt) s1 (FromLink (po_id pt) (Reset (Some e) False)) = Some s2"
      "joined pt e (MessageManager_new e) (log @ [InnerConnected e]) [] s2"
      using mismatched_reset [OF s1(2), of e "Some e" False] by auto
    then show ?thesis
      using enabled_link(1) [OF m] enabled_link(1) [OF s1(2)] v s1(1) by (simp add: run_link_events)
  qed
qed

lemma answered_round:
  assumes "answered pt e log ps side"
  shows "answered pt e log [] (emptied side)" "\<forall>p \<in> set ps. valid_proto p \<Longrightarrow> inbox other side = link_events other ps"
  using assms by (auto simp: answered_def dest: joined_round mismatched_round)

text \<open>Both together.\<close>

definition start_sides ::
  "'c port \<times> 'c port \<Rightarrow> PipeLink \<times> PipeLink \<Rightarrow> 'c side \<times> 'c side \<Rightarrow> ('c side \<times> 'c side) option" where
  "start_sides pts links sides =
     do { a \<leftarrow> core_handle (port_env (fst pts)) (fst sides) (FromCtrl (Command (CmdAddLink (fst links))));
          b \<leftarrow> core_handle (port_env (snd pts)) (snd sides) (FromCtrl (Command (CmdAddLink (snd links))));
          Some (a, b) }"

fun two_way_rounds :: "nat \<Rightarrow> 'c port \<times> 'c port \<Rightarrow> 'c side \<times> 'c side \<Rightarrow> ('c side \<times> 'c side) option" where
  "two_way_rounds 0 pts sides = Some sides"
| "two_way_rounds (Suc n) pts sides = do { sides \<leftarrow> two_way_round pts sides; two_way_rounds n pts sides }"

lemma handshake:
  assumes a: "disconnected_side pa ea la a" "fresh_pipe pa x" "valid_opt_epoch ea"
    and b: "disconnected_side pb eb lb b" "fresh_pipe pb y" "valid_opt_epoch eb"
    and e: "e = agreed ea eb"
  shows "\<exists>sides a' b'. start_sides (pa, pb) (x, y) (a, b) = Some sides \<and>
    two_way_rounds 2 (pa, pb) sides = Some (a', b') \<and>
    joined pa e (MessageManager_new e) (la @ [InnerConnected e]) [] a' \<and>
    joined pb e (MessageManager_new e) (lb @ [InnerConnected e]) [] b'"
proof -
  have v: "valid_epoch e" and v': "valid_opt_epoch (Some e)"
    using valid_agreed [OF a(3) b(3)] e by (simp_all add: valid_opt_epoch_def)
  have e': "e = agreed eb ea" using e by (simp add: agreed_commute)
  obtain a1 where a1: "core_handle (port_env pa) a (FromCtrl (Command (CmdAddLink x))) = Some a1"
    "mismatched pa ea la [Ping, Reset ea True] a1"
    using side_add_link [OF a(1,2)] by blast
  obtain b1 where b1: "core_handle (port_env pb) b (FromCtrl (Command (CmdAddLink y))) = Some b1"
    "mismatched pb eb lb [Ping, Reset eb True] b1"
    using side_add_link [OF b(1,2)] by blast
  obtain a2 where a2: "core_run (port_env pa) (emptied a1) (link_events pa [Ping, Reset eb True]) = Some a2"
    "answered pa e la [Pong, Reset (Some e) False] a2"
    using first_round [OF mismatched_round(1) [OF a1(2)] b(3) e] by blast
  obtain b2 where b2: "core_run (port_env pb) (emptied b1) (link_events pb [Ping, Reset ea True]) = Some b2"
    "answered pb e lb [Pong, Reset (Some e) False] b2"
    using first_round [OF mismatched_round(1) [OF b1(2)] a(3) e'] by blast
  have r1: "two_way_round (pa, pb) (a1, b1) = Some (a2, b2)"
    using a2(1) b2(1) mismatched_round(2) [OF a1(2), of pb] mismatched_round(2) [OF b1(2), of pa] a(3) b(3)
    by (simp add: two_way_round_def)
  obtain a3 where a3: "core_run (port_env pa) (emptied a2) (link_events pa [Pong, Reset (Some e) False]) = Some a3"
    "joined pa e (MessageManager_new e) (la @ [InnerConnected e]) [] a3"
    using second_round [OF answered_round(1) [OF a2(2)] v] by blast
  obtain b3 where b3: "core_run (port_env pb) (emptied b2) (link_events pb [Pong, Reset (Some e) False]) = Some b3"
    "joined pb e (MessageManager_new e) (lb @ [InnerConnected e]) [] b3"
    using second_round [OF answered_round(1) [OF b2(2)] v] by blast
  have "two_way_round (pa, pb) (a2, b2) = Some (a3, b3)"
    using a3(1) b3(1) answered_round(2) [OF a2(2), of pb] answered_round(2) [OF b2(2), of pa] v'
    by (simp add: two_way_round_def)
  with r1 a1(1) b1(1) a3(2) b3(2) show ?thesis
    by (simp add: start_sides_def numeral_2_eq_2)
qed

section \<open>Messages\<close>

lemma joined_send:
  assumes "joined pt epoch mm log ps side" "insert_msg (po_oc pt) mm m = Some (seq, mm')"
    "get_outgoing_slice mm' seq = Some sm" "get_slices (po_oc pt) sm (po_size pt - OVERHEAD) = Some qs"
  shows "\<exists>side'. core_handle (port_env pt) side (FromCtrl (Command (CmdMessage m None))) = Some side' \<and>
    joined pt epoch mm' log (ps @ qs) side'"
proof -
  obtain s where s: "co_state side = S_Connected s" "cd_epoch s = epoch" "cd_msg_mgr s = mm" "wire pt ps (cd_links s)"
    and op: "port_open pt log side"
    using assms(1) by (auto simp: joined_def)
  obtain lm where "send_slices (po_oc pt) (port_link pt) sm (cd_links s) = Some (Inr (), lm)" "wire pt (ps @ qs) lm"
    using wire_send_slices [OF s(4) assms(4)] by blast
  then show ?thesis
    using s op assms(2,3) wire_not_empty
    by (auto simp: side_defs joined_def port_open_def determine_state_def)
qed

lemma emit_messages_log:
  "cs_to_ctrl (emit_messages epoch msgs common) = cs_to_ctrl common @ map (\<lambda>m. InnerMessage m epoch) msgs"
  "cs_readers (emit_messages epoch msgs common) = cs_readers common"
  by (induction msgs arbitrary: common) (simp_all add: emit_messages_def to_ctrl_def)

lemma joined_slice:
  assumes "joined pt epoch mm log ps side" "mm_epoch mm = epoch"
    "receive_slice (po_oc pt) mm q f n d = Some (acks, msgs, mm')"
  shows "\<exists>side'. core_handle (port_env pt) side (FromLink (po_id pt) (MsgSlice (to_int epoch) q n f d)) = Some side' \<and>
    joined pt epoch mm' (log @ map (\<lambda>m. InnerMessage m epoch) msgs) (ps @ acks) side'"
proof -
  obtain s where s: "co_state side = S_Connected s" "cd_epoch s = epoch" "cd_msg_mgr s = mm" "wire pt ps (cd_links s)"
    and op: "port_open pt log side"
    using assms(1) by (auto simp: joined_def)
  obtain should_ack mm1 where mm1: "MessageManager_recv (po_oc pt) mm q f n d = Some (should_ack, mm1)"
    "take_recvd (po_oc pt) mm1 = Some (msgs, mm')"
    "acks = (if should_ack then [Ack (to_int (mm_epoch mm1)) (fst (mm_last_ack mm1)) (snd (mm_last_ack mm1))] else [])"
    using assms(3) by (auto simp: receive_slice_def Let_def split: bind_splits)
  have ep: "mm_epoch mm1 = epoch" using recv_keeps [OF mm1(1)] assms(2) by simp
  let ?lm = "if should_ack then snd (links_ack (port_link pt) epoch (mm_last_ack mm1) (cd_links s)) else cd_links s"
  have w: "wire pt (ps @ acks) ?lm"
    using wire_send_proto [OF s(4)] s(4) mm1(3) ep by (simp add: links_ack_def)
  then have "\<not> LinkManager_is_empty ?lm" by (rule wire_not_empty)
  then show ?thesis
    using w s op mm1(1,2)
    by (cases should_ack) (simp_all add: core_handle_def joined_def port_open_def determine_state_def emit_messages_log Let_def)
qed

lemma joined_ack:
  assumes "joined pt epoch mm log ps side" "recv_ack (po_oc pt) mm (seq, i) = Some mm'"
  shows "\<exists>side'. core_handle (port_env pt) side (FromLink (po_id pt) (Ack (to_int epoch) seq i)) = Some side' \<and>
    joined pt epoch mm' log ps side'"
  using assms by (auto simp: side_defs joined_def port_open_def)

lemma receive_slice_epoch: "receive_slice oc mm q f n d = Some (acks, msgs, mm') \<Longrightarrow> mm_epoch mm' = mm_epoch mm"
  by (auto simp: receive_slice_def Let_def split: bind_splits dest!: recv_keeps take_recvd_keeps)

text \<open>A side that has a session follows the receiver of a transfer.\<close>

definition receiving :: "'c port \<Rightarrow> Epoch \<Rightarrow> LinkSetMessageInner list \<Rightarrow> transfer \<Rightarrow> 'c side \<Rightarrow> bool" where
  "receiving pt epoch log t side =
     (joined pt epoch (tr_receiver t) (log @ map (\<lambda>m. InnerMessage m epoch) (tr_delivered t)) (tr_acks t) side \<and>
      mm_epoch (tr_receiver t) = epoch)"

lemma run_slices_after:
  assumes "joined pt epoch (tr_receiver t) (log @ map (\<lambda>m. InnerMessage m epoch) (drop k (tr_delivered t))) (pre @ tr_acks t) side"
    "mm_epoch (tr_receiver t) = epoch" "k \<le> length (tr_delivered t)" "transfer_run (po_oc pt) t (map Receive ps) = Some t'"
    "\<forall>p \<in> set ps. valid_proto p \<and> (\<exists>q n f d. p = MsgSlice (to_int epoch) q n f d)"
  shows "\<exists>side'. core_run (port_env pt) side (link_events pt ps) = Some side' \<and>
    joined pt epoch (tr_receiver t') (log @ map (\<lambda>m. InnerMessage m epoch) (drop k (tr_delivered t'))) (pre @ tr_acks t') side' \<and>
    mm_epoch (tr_receiver t') = epoch"
  using assms
proof (induction ps arbitrary: t side)
  case (Cons p ps)
  obtain q n f d where p: "p = MsgSlice (to_int epoch) q n f d" "valid_proto p" using Cons.prems(5) by auto
  obtain acks msgs mm where r: "receive_slice (po_oc pt) (tr_receiver t) q f n d = Some (acks, msgs, mm)"
    and run: "transfer_run (po_oc pt) (t\<lparr>tr_receiver := mm, tr_acks := tr_acks t @ acks,
        tr_delivered := tr_delivered t @ msgs\<rparr>) (map Receive ps) = Some t'"
    using Cons.prems(2,4) p(1) by (auto split: bind_splits)
  obtain s1 where s1: "core_handle (port_env pt) side (FromLink (po_id pt) p) = Some s1"
    "joined pt epoch mm ((log @ map (\<lambda>m. InnerMessage m epoch) (drop k (tr_delivered t))) @ map (\<lambda>m. InnerMessage m epoch) msgs)
       ((pre @ tr_acks t) @ acks) s1"
    using joined_slice [OF Cons.prems(1,2) r] p(1) by blast
  obtain side' where "core_run (port_env pt) s1 (link_events pt ps) = Some side'"
    "joined pt epoch (tr_receiver t') (log @ map (\<lambda>m. InnerMessage m epoch) (drop k (tr_delivered t'))) (pre @ tr_acks t') side'"
    "mm_epoch (tr_receiver t') = epoch"
    using Cons.IH [OF _ _ _ run, of s1] s1(2) receive_slice_epoch [OF r] Cons.prems(2,3,5) by auto
  then show ?case
    using s1(1) enabled_link(2) [OF Cons.prems(1) p(2)] by (auto simp: run_link_events)
qed (simp add: run_link_events)

lemma run_slices:
  assumes "receiving pt epoch log t side" "transfer_run (po_oc pt) t (map Receive ps) = Some t'"
    "\<forall>p \<in> set ps. valid_proto p \<and> (\<exists>q n f d. p = MsgSlice (to_int epoch) q n f d)"
  shows "\<exists>side'. core_run (port_env pt) side (link_events pt ps) = Some side' \<and> receiving pt epoch log t' side'"
  using run_slices_after [of pt epoch t log 0 "[]" side ps t'] assms by (simp add: receiving_def)

abbreviation unacked :: "transfer \<Rightarrow> u64 set" where
  "unacked t \<equiv> fst ` set (mm_outgoing_slices (tr_sender t))"

definition same_incoming :: "MessageManager \<Rightarrow> MessageManager \<Rightarrow> bool" where
  "same_incoming a b =
     (mm_epoch a = mm_epoch b \<and> mm_last_ack a = mm_last_ack b \<and> mm_incoming_slices a = mm_incoming_slices b)"

lemma recv_ack_same_incoming: "recv_ack oc mm ack = Some mm' \<Longrightarrow> same_incoming mm' mm"
  by (cases ack)
     (auto simp: same_incoming_def recv_ack_def Let_def split: bind_splits option.splits if_splits)

lemma run_acks:
  assumes "joined pt epoch (tr_sender t) log ps side" "transfer_rel epoch pfx t"
    "\<forall>p \<in> set acks. valid_proto p \<and> ack_of_received epoch (tr_sent t) pfx p"
  shows "\<exists>side' t'. core_run (port_env pt) side (link_events pt acks) = Some side' \<and>
    joined pt epoch (tr_sender t') log ps side' \<and> transfer_rel epoch pfx t' \<and> tr_receiver t' = tr_receiver t \<and>
    tr_sent t' = tr_sent t \<and> tr_delivered t' = tr_delivered t \<and> unacked t' \<subseteq> unacked t \<and>
    (\<forall>e seq i. Ack e seq i \<in> set acks \<longrightarrow> unacked t' \<subseteq> {q. seq \<le> q}) \<and> same_incoming (tr_sender t') (tr_sender t)"
  using assms
proof (induction acks arbitrary: t side)
  case Nil
  then show ?case by (auto simp: run_link_events same_incoming_def)
next
  case (Cons p acks)
  have p: "valid_proto p" "ack_of_received epoch (tr_sent t) pfx p" using Cons.prems(3) by simp_all
  obtain seq i where a: "p = Ack (to_int epoch) seq i" using p(2) by (auto simp: ack_of_received_def)
  obtain t1 where t1: "transfer_exec (po_oc pt) t (Acknowledge p) = Some t1" "transfer_rel epoch pfx t1"
    "tr_sent t1 = tr_sent t" "tr_delivered t1 = tr_delivered t" "tr_receiver t1 = tr_receiver t"
    "unacked t1 \<subseteq> {q \<in> unacked t. seq \<le> q}"
    using p(2) a by (elim acknowledge_rel [OF Cons.prems(2), of _ "po_oc pt"]) blast
  have "mm_epoch (tr_sender t) = epoch"
    using Cons.prems(2) by (simp add: transfer_rel_def send_inv_def)
  then have ra: "recv_ack (po_oc pt) (tr_sender t) (seq, i) = Some (tr_sender t1)"
    using t1(1) a by (auto split: bind_splits)
  then obtain s1 where s1: "core_handle (port_env pt) side (FromLink (po_id pt) p) = Some s1"
    "joined pt epoch (tr_sender t1) log ps s1"
    using joined_ack [OF Cons.prems(1)] a by blast
  obtain side' t' where r: "core_run (port_env pt) s1 (link_events pt acks) = Some side'"
    "joined pt epoch (tr_sender t') log ps side'" "transfer_rel epoch pfx t'" "tr_receiver t' = tr_receiver t1"
    "tr_sent t' = tr_sent t1" "tr_delivered t' = tr_delivered t1" "unacked t' \<subseteq> unacked t1"
    "\<forall>e seq i. Ack e seq i \<in> set acks \<longrightarrow> unacked t' \<subseteq> {q. seq \<le> q}" "same_incoming (tr_sender t') (tr_sender t1)"
    using Cons.IH [OF s1(2) t1(2)] Cons.prems(3) t1(3) by auto
  have "core_run (port_env pt) side (link_events pt (p # acks)) = Some side'"
    using s1(1) r(1) enabled_link(2) [OF Cons.prems(1) p(1)] by (simp add: run_link_events)
  moreover have "unacked t' \<subseteq> unacked t" "unacked t' \<subseteq> {q. seq \<le> q}"
    using r(7) t1(6) by blast+
  ultimately show ?case
    using r t1(3-5) a recv_ack_same_incoming [OF ra]
    by (intro exI [of _ side'] exI [of _ t']) (auto simp: same_incoming_def)
qed

lemma valid_slices:
  assumes "slice_of_sent epoch ms p" "small_messages ms" "valid_epoch epoch"
  shows "valid_proto p \<and> (\<exists>q n f d. p = MsgSlice (to_int epoch) q n f d)"
proof -
  obtain q f d where p: "p = MsgSlice (to_int epoch) q (length (ms ! q)) f d" "q < length ms" "is_slice (ms ! q) f d"
    using assms(1) by (auto simp: slice_of_sent_def)
  have "length (ms ! q) \<le> isize_max" "length ms < u64_bound"
    using assms(2) p(2) by (simp_all add: small_messages_def)
  moreover have "(isize_max :: nat) < u64_bound" by simp
  ultimately show ?thesis
    using p assms(3) by (auto simp: is_slice_def valid_epoch_def)
qed

lemma valid_acks:
  assumes "ack_of_received epoch ms pfx p" "recv_inv epoch ms pfx mm" "small_messages ms" "valid_epoch epoch"
  shows "valid_proto p"
proof -
  obtain seq i where p: "p = Ack (to_int epoch) seq i" "valid_ack ms pfx (seq, i)"
    using assms(1) by (auto simp: ack_of_received_def)
  have small: "length ms < u64_bound" "\<And>q. q < length ms \<Longrightarrow> length (ms ! q) \<le> isize_max"
    using assms(3) by (simp_all add: small_messages_def)
  have "seq \<le> length ms"
    using p(2) by (rule_tac ccontr) (auto simp: valid_ack_def complete_def not_le)
  moreover have "i < u64_bound"
  proof (cases "i = 0")
    case False
    then have "i < pfx seq" using p(2) by (simp add: valid_ack_def)
    with recv_inv_bound [OF assms(2), of seq] small(2) [of seq] have "i < isize_max" by fastforce
    then show ?thesis by simp
  qed simp
  ultimately show ?thesis using p(1) small(1) assms(4) by (simp add: valid_epoch_def)
qed

text \<open>
  Two sides between messages: the one has nothing left to send, the other has handed everything to
  its user.
\<close>

definition settled ::
  "'c port \<times> 'c port \<Rightarrow> Epoch \<Rightarrow> LinkSetMessageInner list \<times> LinkSetMessageInner list \<Rightarrow> bytes list \<Rightarrow> 'c side \<times> 'c side \<Rightarrow> bool" where
  "settled pts epoch logs ms sides =
     (\<exists>t pfx. joined (fst pts) epoch (tr_sender t) (fst logs) [] (fst sides) \<and>
       receiving (snd pts) epoch (snd logs) t (snd sides) \<and> transfer_rel epoch pfx t \<and>
       tr_sent t = ms \<and> tr_delivered t = ms \<and> tr_acks t = [] \<and> mm_outgoing_slices (tr_sender t) = [])"

lemma settled_start:
  assumes "joined pa e (MessageManager_new e) la [] a" "joined pb e (MessageManager_new e) lb [] b"
  shows "settled (pa, pb) e (la, lb) [] (a, b)"
proof -
  have "mm_outgoing_slices (MessageManager_new e) = []" "mm_epoch (MessageManager_new e) = e"
    by (simp_all add: MessageManager_new_def)
  then show ?thesis
    unfolding settled_def using assms transfer_rel_start [of e]
    by (intro exI [of _ "transfer_start e"] exI [of _ "\<lambda>_. 0"]) (simp add: receiving_def transfer_start_def)
qed

text \<open>The user of one side sends a message; the slices arrive; the acknowledgements come back.\<close>

definition send_and_rounds ::
  "'c port \<times> 'c port \<Rightarrow> bytes \<Rightarrow> 'c side \<times> 'c side \<Rightarrow> ('c side \<times> 'c side) option" where
  "send_and_rounds pts m sides =
     do { a \<leftarrow> core_handle (port_env (fst pts)) (fst sides) (FromCtrl (Command (CmdMessage m None)));
          two_way_rounds 2 pts (a, snd sides) }"

lemma joined_empty_round:
  "joined pt e mm log [] side \<Longrightarrow> inbox other side = []"
  using joined_round(2) [of pt e mm log "[]" side other] by (simp add: link_events_def)

text \<open>
  The three parts of it: the slices are written, the other side takes them in the first round, and
  the acknowledgements come back in the second.
\<close>

lemma message_written:
  assumes "joined pa e (tr_sender t) la [] a" "transfer_rel e pfx t" "mm_outgoing_slices (tr_sender t) = []"
    "m \<noteq> []" "length m \<le> isize_max" "length (tr_sent t) + 1 < u64_bound"
  shows "\<exists>a' seq sm mm ps k. core_handle (port_env pa) a (FromCtrl (Command (CmdMessage m None))) = Some a' \<and>
    joined pa e mm la ps a' \<and> transfer_rel e pfx (t\<lparr>tr_sent := tr_sent t @ [m], tr_sender := mm\<rparr>) \<and>
    mm_outgoing_slices mm = [(seq, sm)] \<and> seq < length (tr_sent t @ [m]) \<and> k \<le> pfx seq \<and> ps \<noteq> [] \<and>
    slice_chain (to_int e) seq ((tr_sent t @ [m]) ! seq) k ps (length ((tr_sent t @ [m]) ! seq))"
proof -
  have size: "0 < po_size pa - OVERHEAD" "po_size pa - OVERHEAD < u32_bound"
    using assms(1) by (auto simp: joined_def port_open_def)
  have "transfer_allowed t (Queue m)" using assms(4-6) by simp
  then obtain t1 where t1: "transfer_exec (po_oc pa) t (Queue m) = Some t1" "transfer_rel e pfx t1"
    using queue_rel [OF assms(2)] by blast
  obtain seq mm where ins: "insert_msg (po_oc pa) (tr_sender t) m = Some (seq, mm)"
    "t1 = t\<lparr>tr_sent := tr_sent t @ [m], tr_sender := mm\<rparr>"
    using t1(1) by (auto split: bind_splits)
  let ?sm = "SliceManager_from_vec (mm_epoch (tr_sender t)) seq m"
  have out: "mm_outgoing_slices mm = [(seq, ?sm)]" "get_outgoing_slice mm seq = Some ?sm"
    using ins(1) assms(3) by (auto simp: insert_msg_def get_outgoing_slice_def bt_get_def Let_def split: bind_splits)
  have entry: "(seq, ?sm) \<in> set (mm_outgoing_slices (tr_sender t1))" using ins(2) out(1) by simp
  obtain ps k where ps: "get_slices (po_oc pa) ?sm (po_size pa - OVERHEAD) = Some ps" "seq < length (tr_sent t1)"
    "k \<le> pfx seq" "slice_chain (to_int e) seq (tr_sent t1 ! seq) k ps (length (tr_sent t1 ! seq))" "ps \<noteq> []"
    using transmit_slices [OF t1(2) entry size, of "po_oc pa"] by blast
  obtain a1 where "core_handle (port_env pa) a (FromCtrl (Command (CmdMessage m None))) = Some a1"
    "joined pa e mm la ps a1"
    using joined_send [OF assms(1) ins(1) out(2) ps(1)] by auto
  then show ?thesis
    using t1(2) ins(2) out(1) ps(2-)
    by (intro exI [of _ a1] exI [of _ seq] exI [of _ ?sm] exI [of _ mm] exI [of _ ps] exI [of _ k]) simp
qed

lemma slices_taken:
  assumes "joined pa e (tr_sender t) la ps a" "receiving pb e lb t b" "tr_acks t = []" "transfer_rel e pfx t" "valid_epoch e"
    "mm_outgoing_slices (tr_sender t) = [(seq, sm)]" "seq < length (tr_sent t)" "k \<le> pfx seq" "ps \<noteq> []"
    "slice_chain (to_int e) seq (tr_sent t ! seq) k ps (length (tr_sent t ! seq))"
  shows "\<exists>a' b' t' pfx'. two_way_round (pa, pb) (a, b) = Some (a', b') \<and> joined pa e (tr_sender t) la [] a' \<and>
    receiving pb e lb t' b' \<and> transfer_rel e pfx' t' \<and> tr_sent t' = tr_sent t \<and> tr_sender t' = tr_sender t \<and>
    (\<exists>i n. seq < n \<and> Ack (to_int e) n i \<in> set (tr_acks t'))"
proof -
  obtain t' pfx' where t': "transfer_run (po_oc pb) t (map Receive ps) = Some t'" "transfer_rel e pfx' t'"
    "tr_sent t' = tr_sent t" "tr_sender t' = tr_sender t" "tr_acks t' \<noteq> []"
    "seq < fst (mm_last_ack (tr_receiver t'))"
    "last (tr_acks t') = Ack (to_int e) (fst (mm_last_ack (tr_receiver t'))) (snd (mm_last_ack (tr_receiver t')))"
    using receive_chain [OF assms(4,7,8,9,10) earliest_outgoing [OF assms(4,6)], of "po_oc pb"] by blast
  have small: "small_messages (tr_sent t)" using assms(4) by (simp add: transfer_rel_def)
  have sent: "\<forall>p \<in> set ps. valid_proto p \<and> (\<exists>q n f d. p = MsgSlice (to_int e) q n f d)"
    using valid_slices [OF slice_chain_sent [OF assms(10,7)] small assms(5)] by blast
  have jb: "joined pb e (tr_receiver t) (lb @ map (\<lambda>m. InnerMessage m e) (tr_delivered t)) [] b"
    using assms(2,3) by (simp add: receiving_def)
  have "receiving pb e lb t (emptied b)"
    using joined_round(1) [OF jb] assms(2,3) by (simp add: receiving_def)
  from run_slices [OF this t'(1) sent] obtain b' where
    b': "core_run (port_env pb) (emptied b) (link_events pb ps) = Some b'" "receiving pb e lb t' b'"
    by blast
  have "two_way_round (pa, pb) (a, b) = Some (emptied a, b')"
    using b'(1) joined_empty_round [OF jb, of pa] joined_round(2) [OF assms(1), of pb] sent
    by (simp add: two_way_round_def)
  moreover have "Ack (to_int e) (fst (mm_last_ack (tr_receiver t'))) (snd (mm_last_ack (tr_receiver t'))) \<in> set (tr_acks t')"
    using last_in_set [OF t'(5)] t'(7) by simp
  ultimately show ?thesis
    using joined_round(1) [OF assms(1)] b'(2) t'(2-4,6) by blast
qed

lemma acks_return:
  assumes "joined pa e (tr_sender t) la [] a" "receiving pb e lb t b" "transfer_rel e pfx t" "valid_epoch e"
    "mm_outgoing_slices (tr_sender t) = [(seq, sm)]" "Ack (to_int e) n i \<in> set (tr_acks t)" "seq < n"
  shows "\<exists>a' b'. two_way_round (pa, pb) (a, b) = Some (a', b') \<and> settled (pa, pb) e (la, lb) (tr_sent t) (a', b')"
proof -
  have acks: "\<forall>p \<in> set (tr_acks t). valid_proto p \<and> ack_of_received e (tr_sent t) pfx p"
  proof
    fix p assume "p \<in> set (tr_acks t)"
    then have "ack_of_received e (tr_sent t) pfx p" "recv_inv e (tr_sent t) pfx (tr_receiver t)" "small_messages (tr_sent t)"
      using assms(3) by (simp_all add: transfer_rel_def)
    then show "valid_proto p \<and> ack_of_received e (tr_sent t) pfx p"
      using valid_acks [OF _ _ _ assms(4)] by blast
  qed
  from run_acks [OF joined_round(1) [OF assms(1)] assms(3) acks] obtain a' t' where
    a': "core_run (port_env pa) (emptied a) (link_events pa (tr_acks t)) = Some a'"
      "joined pa e (tr_sender t') la [] a'" and
    t': "transfer_rel e pfx t'" "tr_receiver t' = tr_receiver t" "tr_sent t' = tr_sent t"
      "tr_delivered t' = tr_delivered t" "unacked t' \<subseteq> unacked t"
      "\<forall>e seq i. Ack e seq i \<in> set (tr_acks t) \<longrightarrow> unacked t' \<subseteq> {q. seq \<le> q}"
    by (elim exE conjE)
  have jb: "joined pb e (tr_receiver t) (lb @ map (\<lambda>m. InnerMessage m e) (tr_delivered t)) (tr_acks t) b"
    using assms(2) by (simp add: receiving_def)
  have r: "two_way_round (pa, pb) (a, b) = Some (a', emptied b)"
    using a'(1) joined_empty_round [OF assms(1), of pb] joined_round(2) [OF jb, of pa] acks
    by (simp add: two_way_round_def)
  have "unacked t' \<subseteq> {q. n \<le> q}" using t'(6) assms(6) by blast
  moreover have "unacked t' \<subseteq> {seq}" using t'(5) assms(5) by simp
  ultimately have fin: "mm_outgoing_slices (tr_sender t') = []"
    using assms(7) by (cases "mm_outgoing_slices (tr_sender t')") auto
  have "settled (pa, pb) e (la, lb) (tr_sent t) (a', emptied b)"
    unfolding settled_def
    using a'(2) joined_round(1) [OF jb] assms(2) t' all_delivered [OF t'(1) fin] fin
    by (intro exI [of _ "t'\<lparr>tr_acks := []\<rparr>"] exI [of _ pfx]) (simp add: receiving_def transfer_rel_def)
  with r show ?thesis by blast
qed

lemma message_crosses:
  assumes "settled (pa, pb) e (la, lb) ms (a, b)" "valid_epoch e" "m \<noteq> []" "length m \<le> isize_max"
    "length ms + 1 < u64_bound"
  shows "\<exists>a' b'. send_and_rounds (pa, pb) m (a, b) = Some (a', b') \<and> settled (pa, pb) e (la, lb) (ms @ [m]) (a', b')"
proof -
  obtain t pfx where t: "joined pa e (tr_sender t) la [] a" "receiving pb e lb t b" "transfer_rel e pfx t"
    "tr_sent t = ms" "tr_acks t = []" "mm_outgoing_slices (tr_sender t) = []"
    using assms(1) by (auto simp: settled_def)
  have "length (tr_sent t) + 1 < u64_bound" using assms(5) t(4) by simp
  from message_written [OF t(1,3,6) assms(3,4) this] obtain a1 seq sm mm ps k where
    a1: "core_handle (port_env pa) a (FromCtrl (Command (CmdMessage m None))) = Some a1" "joined pa e mm la ps a1"
      "transfer_rel e pfx (t\<lparr>tr_sent := tr_sent t @ [m], tr_sender := mm\<rparr>)"
      "mm_outgoing_slices mm = [(seq, sm)]" "seq < length (tr_sent t @ [m])" "k \<le> pfx seq" "ps \<noteq> []"
      "slice_chain (to_int e) seq ((tr_sent t @ [m]) ! seq) k ps (length ((tr_sent t @ [m]) ! seq))"
    by blast
  let ?t = "t\<lparr>tr_sent := tr_sent t @ [m], tr_sender := mm\<rparr>"
  have "joined pa e (tr_sender ?t) la ps a1" "receiving pb e lb ?t b" "tr_acks ?t = []"
    "mm_outgoing_slices (tr_sender ?t) = [(seq, sm)]" "seq < length (tr_sent ?t)"
    "slice_chain (to_int e) seq (tr_sent ?t ! seq) k ps (length (tr_sent ?t ! seq))"
    using a1 t(2,5) by (simp_all add: receiving_def)
  from slices_taken [OF this(1-3) a1(3) assms(2) this(4,5) a1(6,7) this(6)] obtain a2 b2 t2 pfx2 i n where
    r: "two_way_round (pa, pb) (a1, b) = Some (a2, b2)" "joined pa e (tr_sender ?t) la [] a2"
      "receiving pb e lb t2 b2" "transfer_rel e pfx2 t2" "tr_sent t2 = tr_sent ?t" "tr_sender t2 = tr_sender ?t"
      "seq < n" "Ack (to_int e) n i \<in> set (tr_acks t2)"
    by blast
  have "joined pa e (tr_sender t2) la [] a2" "mm_outgoing_slices (tr_sender t2) = [(seq, sm)]"
    using r(2,6) a1(4) by simp_all
  from acks_return [OF this(1) r(3,4) assms(2) this(2) r(8,7)] show ?thesis
    using a1(1) r(1,5) t(4) by (auto simp: send_and_rounds_def numeral_2_eq_2)
qed

fun send_all_and_rounds ::
  "'c port \<times> 'c port \<Rightarrow> bytes list \<Rightarrow> 'c side \<times> 'c side \<Rightarrow> ('c side \<times> 'c side) option" where
  "send_all_and_rounds pts [] sides = Some sides"
| "send_all_and_rounds pts (m # ms) sides =
     do { sides \<leftarrow> send_and_rounds pts m sides; send_all_and_rounds pts ms sides }"

lemma messages_cross:
  assumes "settled (pa, pb) e (la, lb) sent (a, b)" "valid_epoch e" "\<forall>m \<in> set ms. m \<noteq> [] \<and> length m \<le> isize_max"
    "length sent + length ms < u64_bound"
  shows "\<exists>a' b'. send_all_and_rounds (pa, pb) ms (a, b) = Some (a', b') \<and>
    settled (pa, pb) e (la, lb) (sent @ ms) (a', b')"
  using assms(1,3,4)
proof (induction ms arbitrary: sent a b)
  case (Cons m ms)
  then have "m \<noteq> []" "length m \<le> isize_max" "length sent + 1 < u64_bound" by simp_all
  from message_crosses [OF Cons.prems(1) assms(2) this] obtain a1 b1 where
    "send_and_rounds (pa, pb) m (a, b) = Some (a1, b1)" "settled (pa, pb) e (la, lb) (sent @ [m]) (a1, b1)"
    by blast
  then show ?case using Cons.IH [of "sent @ [m]" a1 b1] Cons.prems(2,3) by auto
qed simp

section \<open>An example\<close>

definition example_port :: "unit port" where
  "example_port =
     \<lparr>po_oc = True, po_scheme = (\<lambda>_. []), po_now = 5, po_later = Inl PipeClosed, po_id = 0, po_size = u32_bound - 1\<rparr>"

lemma example_sides:
  "disconnected_side example_port None [] core_new" "fresh_pipe example_port (pair_end [] n)"
  by (simp_all add: disconnected_side_def fresh_pipe_def example_port_def core_new_def States_new_def Disconnected_new_def
      CommonState_new_def pair_end_def OVERHEAD_def unsigned_minus_1_eq_mask mask_eq_exp_minus_1)

section \<open>Properties\<close>

text \<open>
  C9: two link sets that are given the two ends of a pipe agree. Whatever epochs they come with, after
  two rounds both are connected with the same epoch, the larger of the two, or one if there is none,
  and both users have been told.
\<close>

theorem handshake_agrees:
  assumes "disconnected_side pa ea la a" "fresh_pipe pa x" "valid_opt_epoch ea"
    "disconnected_side pb eb lb b" "fresh_pipe pb y" "valid_opt_epoch eb"
  shows "\<exists>sides a' b'. start_sides (pa, pb) (x, y) (a, b) = Some sides \<and>
    two_way_rounds 2 (pa, pb) sides = Some (a', b') \<and>
    phase_of (co_state a') = Ph_Connected \<and> phase_of (co_state b') = Ph_Connected \<and>
    state_epoch (co_state a') = Some (agreed ea eb) \<and> state_epoch (co_state b') = Some (agreed ea eb) \<and>
    cs_to_ctrl (co_common a') = la @ [InnerConnected (agreed ea eb)] \<and>
    cs_to_ctrl (co_common b') = lb @ [InnerConnected (agreed ea eb)]"
  using handshake [OF assms refl] by (force simp: joined_def port_open_def)

lemma handshake_agrees_witness:
  "\<exists>sides a' b'. start_sides (example_port, example_port) (pair_end [] 1, pair_end [] 2) (core_new, core_new) = Some sides \<and>
    two_way_rounds 2 (example_port, example_port) sides = Some (a', b') \<and>
    phase_of (co_state a') = Ph_Connected \<and> phase_of (co_state b') = Ph_Connected \<and>
    state_epoch (co_state a') = Some (agreed None None) \<and> state_epoch (co_state b') = Some (agreed None None) \<and>
    cs_to_ctrl (co_common a') = [] @ [InnerConnected (agreed None None)] \<and>
    cs_to_ctrl (co_common b') = [] @ [InnerConnected (agreed None None)]"
  by (rule handshake_agrees) (simp_all add: example_sides valid_opt_epoch_def)

text \<open>
  C3: and then messages cross. Of a sequence of messages that one user sends, none of them empty, the
  other user receives every one, unchanged, in order and once, after the announcement of the
  session; and the sender keeps nothing, for everything is acknowledged. The messages are cut into as
  many slices as the link needs, written as bytes, read, reassembled and acknowledged on the way.
\<close>

theorem two_link_sets_deliver:
  assumes "disconnected_side pa ea la a" "fresh_pipe pa x" "valid_opt_epoch ea"
    "disconnected_side pb eb lb b" "fresh_pipe pb y" "valid_opt_epoch eb"
    "\<forall>m \<in> set ms. m \<noteq> [] \<and> length m \<le> isize_max" "length ms < u64_bound"
  shows "\<exists>sides sides' a' b' s. start_sides (pa, pb) (x, y) (a, b) = Some sides \<and>
    two_way_rounds 2 (pa, pb) sides = Some sides' \<and> send_all_and_rounds (pa, pb) ms sides' = Some (a', b') \<and>
    cs_to_ctrl (co_common b') =
      lb @ InnerConnected (agreed ea eb) # map (\<lambda>m. InnerMessage m (agreed ea eb)) ms \<and>
    co_state a' = S_Connected s \<and> get_outgoing_slices (cd_msg_mgr s) = []"
proof -
  let ?e = "agreed ea eb"
  obtain sides a1 b1 where h: "start_sides (pa, pb) (x, y) (a, b) = Some sides"
    "two_way_rounds 2 (pa, pb) sides = Some (a1, b1)"
    "joined pa ?e (MessageManager_new ?e) (la @ [InnerConnected ?e]) [] a1"
    "joined pb ?e (MessageManager_new ?e) (lb @ [InnerConnected ?e]) [] b1"
    using handshake [OF assms(1-6) refl] by blast
  have "length ([] :: bytes list) + length ms < u64_bound" using assms(8) by simp
  from messages_cross [OF settled_start [OF h(3,4)] valid_agreed [OF assms(3,6)] assms(7) this]
  obtain a' b' where m: "send_all_and_rounds (pa, pb) ms (a1, b1) = Some (a', b')"
    "settled (pa, pb) ?e (la @ [InnerConnected ?e], lb @ [InnerConnected ?e]) ms (a', b')"
    by auto
  then obtain s where "co_state a' = S_Connected s" "get_outgoing_slices (cd_msg_mgr s) = []"
    "cs_to_ctrl (co_common b') = lb @ InnerConnected ?e # map (\<lambda>m. InnerMessage m ?e) ms"
    by (auto simp: settled_def receiving_def joined_def port_open_def get_outgoing_slices_def)
  with h(1,2) m(1) show ?thesis by blast
qed

lemma two_link_sets_deliver_witness:
  "\<exists>sides sides' a' b' s. start_sides (example_port, example_port) (pair_end [] 1, pair_end [] 2) (core_new, core_new) = Some sides \<and>
    two_way_rounds 2 (example_port, example_port) sides = Some sides' \<and>
    send_all_and_rounds (example_port, example_port) [[7, 8, 9], [5]] sides' = Some (a', b') \<and>
    cs_to_ctrl (co_common b') =
      [] @ InnerConnected (agreed None None) # map (\<lambda>m. InnerMessage m (agreed None None)) [[7, 8, 9], [5]] \<and>
    co_state a' = S_Connected s \<and> get_outgoing_slices (cd_msg_mgr s) = []"
  by (rule two_link_sets_deliver [OF example_sides(1) _ _ example_sides(1)]) (simp_all add: example_sides valid_opt_epoch_def)

end
