(* ===== verification/Recovery.thy ===== *)
theory Recovery
  imports Sessions Two_Link_Sets
begin

text \<open>
  After the links are lost. Two link sets whose session is alive but which have no link left, whatever
  they have gone through before, are given the two ends of a pipe. They resume the session, and as the
  timer of the connected state fires every five seconds, each resends the earliest message that has
  not been acknowledged, until nothing is left.
\<close>

section \<open>Between two events of the timer\<close>

definition unpinged :: "'c side \<Rightarrow> bool" where
  "unpinged side = (\<forall>e \<in> set (lm_links (side_links (co_state side))). le_ping e = None)"

definition due :: "'c port \<Rightarrow> 'c side \<Rightarrow> bool" where
  "due pt side =
     (dl_repeat (cs_timer (co_common side)) = Some CONNECTED_TIMER_INTERVAL \<and>
      (\<exists>t \<le> po_now pt + CONNECTED_TIMER_INTERVAL. dl_deadline (cs_timer (co_common side)) = Some t))"

text \<open>
  Messages other than \<open>Reset\<close> leave the timer alone, and they leave no ping behind, as long as the side
  stays connected; and a side that is not cannot become so by them.
\<close>

fun plain :: "LinkProtocol \<Rightarrow> bool" where
  "plain (Reset _ _) = False"
| "plain _ = True"

definition settled_phase :: "phase \<Rightarrow> bool" where
  "settled_phase p = (p \<notin> {Ph_EpochMismatch, Ph_Connecting})"

lemma unusable_ping: "unusable L e = (bad, e') \<Longrightarrow> le_ping e' = le_ping e"
  by (auto simp: unusable_def LinkEntry_is_closed_def Let_def split: prod.splits)

lemma send_ping_kept: "le_ping (snd (LinkEntry_send L e p)) = le_ping e"
  by (simp add: LinkEntry_send_def pinned_send_def case_prod_unfold Let_def)

lemma send_proto_pings:
  assumes "\<forall>e \<in> set (lm_links lm). le_ping e = None"
  shows "\<forall>e \<in> set (lm_links (snd (send_proto L p lm))). le_ping e = None"
proof -
  have "\<forall>e \<in> set es. le_ping e = None \<Longrightarrow> \<forall>e \<in> set (snd (send_proto_loop L p es)). le_ping e = None" for es
  proof (induction es)
    case (Cons e es)
    obtain bad e' where u: "unusable L e = (bad, e')" by (cases "unusable L e")
    with Cons unusable_ping [OF u] send_ping_kept [of L e' p] show ?case
      by (auto simp: Let_def split: prod.splits)
  qed simp
  with assms show ?thesis by (simp add: send_proto_def case_prod_unfold Let_def)
qed

lemma update_first_pings:
  assumes "\<forall>e \<in> set es. le_ping e = None" "\<And>e. le_ping e = None \<Longrightarrow> le_ping (f e) = None"
  shows "\<forall>e \<in> set (update_first link_id f es). le_ping e = None"
  using assms by (induction es) auto

lemma end_ping_none: "le_ping (LinkEntry_end_ping now e) = None"
  by (simp add: LinkEntry_end_ping_def add_latency_def split: option.split)

lemma determine_state_connected:
  assumes "determine_state env s common = (S_Connected s', common')"
  shows "s' = s" "common' = common"
  using assms by (auto simp: determine_state_def transition_defs split: if_splits)

lemma settled_phases [simp]:
  "settled_phase Ph_Connected" "settled_phase Ph_Disconnected" "settled_phase Ph_Reconnecting" "settled_phase Ph_GracePeriod"
  by (simp_all add: settled_phase_def)

lemma determine_state_settled: "determine_state env s common = (st', common') \<Longrightarrow> settled_phase (phase_of st')"
  by (auto simp: determine_state_def transition_defs split: if_splits)

lemma connected_plain:
  assumes "Connected_link_msg env s common link_id p = Some (st', common')" "plain p"
  shows "settled_phase (phase_of st')"
    "st' = S_Connected s' \<Longrightarrow> cs_timer common' = cs_timer common \<and>
      ((\<forall>e \<in> set (lm_links (cd_links s)). le_ping e = None) \<longrightarrow> (\<forall>e \<in> set (lm_links (cd_links s')). le_ping e = None))"
proof -
  show "settled_phase (phase_of st')"
    using assms by (cases p) (auto simp: Let_def split: bind_splits if_splits dest: determine_state_settled)
  assume st': "st' = S_Connected s'"
  let ?unpinged = "\<lambda>s. \<forall>e \<in> set (lm_links (cd_links s)). le_ping e = None"
  show "cs_timer common' = cs_timer common \<and> (?unpinged s \<longrightarrow> ?unpinged s')"
  proof (cases p)
    case (MsgSlice epoch q n f d)
    show ?thesis
    proof (cases "epoch = to_int (cd_epoch s)")
      case True
      obtain ch and mm1 :: MessageManager and msgs mm2 where "determine_state env (s\<lparr>cd_msg_mgr := mm2,
            cd_links := if ch then snd (links_ack (en_link env) (cd_epoch s) (mm_last_ack mm1) (cd_links s)) else cd_links s\<rparr>)
          (emit_messages (cd_epoch s) msgs common) = (S_Connected s', common')"
        using assms(1) MsgSlice True st' by (auto simp: Let_def split: bind_splits)
      note s' = determine_state_connected [OF this]
      show ?thesis unfolding s' using send_proto_pings [of "cd_links s"] by (simp add: links_ack_def)
    qed (use assms(1) MsgSlice st' in auto)
  next
    case Ping
    then show ?thesis
      using assms(1) st' update_first_pings [of "lm_links (cd_links s)" "\<lambda>e. snd (send_pong (en_link env) e)" link_id]
      by (auto simp: links_pong_def send_pong_def send_ping_kept)
  next
    case Pong
    then show ?thesis
      using assms(1) st' update_first_pings [of "lm_links (cd_links s)" "LinkEntry_end_ping (en_now env)" link_id]
      by (auto simp: links_end_ping_def end_ping_none)
  qed (use assms st' in \<open>auto split: bind_splits\<close>)
qed

lemma plain_handle:
  assumes "core_handle env side (FromLink link_id p) = Some side'" "plain p" "settled_phase (phase_of (co_state side))"
  shows "settled_phase (phase_of (co_state side')) \<and>
    (phase_of (co_state side') = Ph_Connected \<longrightarrow>
       phase_of (co_state side) = Ph_Connected \<and> cs_timer (co_common side') = cs_timer (co_common side) \<and>
       (unpinged side \<longrightarrow> unpinged side'))"
proof (cases "co_state side")
  case (S_Connected s)
  then have h: "Connected_link_msg env s (co_common side) link_id p = Some (co_state side', co_common side')"
    using assms(1) by (auto simp: core_handle_def)
  show ?thesis
    using connected_plain(1) [OF h assms(2)] connected_plain(2) [OF h assms(2)] S_Connected
    by (cases "co_state side'") (auto simp: unpinged_def)
qed (use assms in \<open>cases p; auto simp: core_handle_def Disconnected_link_msg_def settled_phase_def Let_def
      split: if_splits bind_splits\<close>)+

lemma plain_run:
  assumes "core_run env side evs = Some side'" "\<forall>(now, ev) \<in> set evs. \<exists>link_id p. ev = FromLink link_id p \<and> plain p"
    "settled_phase (phase_of (co_state side))"
  shows "settled_phase (phase_of (co_state side')) \<and>
    (phase_of (co_state side') = Ph_Connected \<longrightarrow>
       phase_of (co_state side) = Ph_Connected \<and> cs_timer (co_common side') = cs_timer (co_common side) \<and>
       (unpinged side \<longrightarrow> unpinged side'))"
  using assms
proof (induction env side evs rule: core_run.induct)
  case (2 env side now ev evs)
  obtain link_id p where ev: "ev = FromLink link_id p" "plain p" using "2.prems"(2) by auto
  obtain s1 where s1: "core_enabled (env\<lparr>en_now := now\<rparr>) side ev" "core_handle (env\<lparr>en_now := now\<rparr>) side ev = Some s1"
    "core_run env s1 evs = Some side'"
    using "2.prems"(1) by (auto split: if_splits bind_splits)
  from plain_handle [OF s1(2) [unfolded ev(1)] ev(2) "2.prems"(3)] "2.IH" [OF s1(1,2,3)] "2.prems"(2) show ?case by auto
qed auto

lemma joined_plain_run:
  assumes "core_run (port_env pt) side (link_events pt ps) = Some side'" "\<forall>p \<in> set ps. plain p"
    "joined pt e mm log out side" "joined pt e' mm' log' out' side'"
  shows "due pt side \<Longrightarrow> due pt side'" "unpinged side \<Longrightarrow> unpinged side'"
proof -
  have "phase_of (co_state side) = Ph_Connected" "phase_of (co_state side') = Ph_Connected"
    using assms(3,4) by (auto simp: joined_def)
  then have "cs_timer (co_common side') = cs_timer (co_common side)" "unpinged side \<longrightarrow> unpinged side'"
    using plain_run [OF assms(1)] assms(2) by (auto simp: link_events_def)
  then show "due pt side \<Longrightarrow> due pt side'" "unpinged side \<Longrightarrow> unpinged side'" by (simp_all add: due_def)
qed

lemma emptied_keeps [simp]: "due pt (emptied side) = due pt side" "unpinged (emptied side) = unpinged side"
  by (cases "co_state side"; simp add: due_def unpinged_def emptied_def change_links_def)+

lemma core_run_append:
  "core_run env core (xs @ ys) = do { core \<leftarrow> core_run env core xs; core_run env core ys }"
  by (induction env core xs rule: core_run.induct) (auto split: bind_splits)

lemma link_events_append: "link_events pt (ps @ qs) = link_events pt ps @ link_events pt qs"
  by (simp add: link_events_def)

section \<open>Pings\<close>

lemma joined_ping:
  assumes "joined pt e mm log ps side"
  shows "\<exists>side'. core_handle (port_env pt) side (FromLink (po_id pt) Ping) = Some side' \<and>
      joined pt e mm log (ps @ [Pong]) side'"
    "\<exists>side'. core_handle (port_env pt) side (FromLink (po_id pt) Pong) = Some side' \<and>
      joined pt e mm log ps side' \<and> unpinged side'"
proof -
  show "\<exists>side'. core_handle (port_env pt) side (FromLink (po_id pt) Ping) = Some side' \<and>
      joined pt e mm log (ps @ [Pong]) side'"
    using assms by (auto simp: joined_def port_open_def side_defs intro: wire_pong)
  obtain s where s: "co_state side = S_Connected s" "cd_epoch s = e" "cd_msg_mgr s = mm" "wire pt ps (cd_links s)"
    and op: "port_open pt log side"
    using assms by (auto simp: joined_def)
  have "\<forall>x \<in> set (lm_links (links_end_ping (po_now pt) (po_id pt) (cd_links s))). le_ping x = None"
    using s(4) by (auto simp: wire_def links_end_ping_def wire_id end_ping_none)
  then show "\<exists>side'. core_handle (port_env pt) side (FromLink (po_id pt) Pong) = Some side' \<and>
      joined pt e mm log ps side' \<and> unpinged side'"
    using s op wire_end_ping [OF s(4)] by (auto simp: joined_def port_open_def side_defs unpinged_def)
qed

text \<open>A list of pings, if only of one, and the answers to it.\<close>

lemma run_pings:
  assumes "joined pt e mm log out side" "pings \<in> {[], [Ping]}"
  shows "\<exists>side'. core_run (port_env pt) side (link_events pt pings) = Some side' \<and>
    joined pt e mm log (out @ map (\<lambda>_. Pong) pings) side'"
proof (cases "pings = []")
  case False
  then have "pings = [Ping]" using assms(2) by simp
  then show ?thesis using joined_ping(1) [OF assms(1)] enabled_link(2) [OF assms(1)] by (simp add: run_link_events)
qed (use assms(1) in \<open>simp add: run_link_events\<close>)

lemma run_pongs:
  assumes "joined pt e mm log out side" "pongs \<in> {[], [Pong]}" "pongs = [] \<Longrightarrow> unpinged side"
  shows "\<exists>side'. core_run (port_env pt) side (link_events pt pongs) = Some side' \<and>
    joined pt e mm log out side' \<and> unpinged side'"
proof (cases "pongs = []")
  case False
  then have "pongs = [Pong]" using assms(2) by simp
  then show ?thesis using joined_ping(2) [OF assms(1)] enabled_link(2) [OF assms(1)] by (simp add: run_link_events)
qed (use assms(1,3) in \<open>simp add: run_link_events\<close>)

section \<open>Resuming\<close>

text \<open>A side whose session is alive and which has no link, and what its user is told when it gets one.\<close>

definition stranded :: "'c port \<Rightarrow> Epoch \<Rightarrow> 'c side \<Rightarrow> bool" where
  "stranded pt e side =
     (phase_of (co_state side) \<in> {Ph_Reconnecting, Ph_GracePeriod} \<and> session_epoch (co_state side) = Some e \<and>
      cs_next_link_id (co_common side) = po_id pt \<and> po_id pt + 1 < u64_bound)"

definition resting :: "'c port \<Rightarrow> Epoch \<Rightarrow> MessageManager \<Rightarrow> LinkSetMessageInner list \<Rightarrow> 'c side \<Rightarrow> bool" where
  "resting pt e mm log side =
     (stranded pt e side \<and> state_msg_mgr (co_state side) = Some mm \<and> cs_to_ctrl (co_common side) = log)"

fun resumes :: "('l, 'c) States \<Rightarrow> LinkSetMessageInner list" where
  "resumes (S_Reconnecting _) = [InnerAttemptingConnection False]"
| "resumes _ = []"

lemma connected_common_due:
  "dl_repeat (cs_timer (connected_common now common)) = Some CONNECTED_TIMER_INTERVAL"
  "dl_deadline (cs_timer (connected_common now common)) = Some (now + CONNECTED_TIMER_INTERVAL)"
  by (simp_all add: connected_common_def on_timer_def set_active_def deadline_defs Let_def)

lemma connected_common_keeps [simp]:
  "cs_readers (connected_common now common) = cs_readers common"
  by (simp add: connected_common_def on_timer_def set_active_def Let_def)

lemma side_resume:
  assumes "resting pt e mm log side" "fresh_pipe pt l"
  shows "\<exists>side'. core_handle (port_env pt) side (FromCtrl (Command (CmdAddLink l))) = Some side' \<and>
    joined pt e mm (log @ resumes (co_state side)) [Ping] side' \<and> due pt side'"
proof -
  let ?L = "port_link pt"
  let ?e = "LinkEntry_new (l\<lparr>pl_reader := None\<rparr>) (po_id pt)"
  have "wire pt [] (with_link ?e)"
    using assms(2)
    by (auto simp: wire_def wire_entry_def with_link_def LinkEntry_new_def fresh_pipe_def DEFAULT_LATENCY_def)
  from wire_ping_all [OF this] have w: "wire pt [Ping] (ping_all ?L (po_now pt) (with_link ?e))" by simp
  obtain r where r: "pl_reader l = Some r" using assms(2) by (auto simp: fresh_pipe_def)
  have "add_u64 (po_oc pt) (po_id pt) 1 = Some (po_id pt + 1)" using assms(1) by (simp add: resting_def stranded_def add_u64_def)
  moreover have "li_max_size ?L l = po_size pt" "\<not> po_size pt \<le> OVERHEAD" "po_size pt < u32_bound"
    using assms(2) by (simp_all add: port_link_def PipeLink_ops_def fresh_pipe_def)
  moreover have "LinkEntry_take_reader ?L (LinkEntry_new l (po_id pt)) = (Inr (), ?e)"
    using r by (simp add: LinkEntry_take_reader_def pinned_take_reader_def port_link_def PipeLink_ops_def
        PipeLink_take_reader_def LinkEntry_new_def map_err_def ok_or_def)
  moreover have "cs_next_link_id (co_common side) = po_id pt" using assms(1) by (simp add: resting_def stranded_def)
  ultimately have wrap: "wrap_link (port_env pt) l (co_common side) = Some (Inr ?e, (co_common side)
      \<lparr>cs_next_link_id := po_id pt + 1, cs_readers := cs_readers (co_common side) @ [po_id pt]\<rparr>)"
    by (simp add: wrap_link_def Let_def)
  show ?thesis
    using assms(1) wrap w \<open>\<not> po_size pt \<le> OVERHEAD\<close> \<open>po_size pt < u32_bound\<close>
    by (cases "co_state side")
       (auto simp: resting_def stranded_def core_handle_def Connected_from_Reconnecting_def Connected_from_GracePeriod_def
         joined_def port_open_def due_def connected_common_due to_ctrl_def Let_def case_prod_unfold)
qed

section \<open>The timer\<close>

definition tick :: "'c port \<Rightarrow> 'c port" where
  "tick pt = pt\<lparr>po_now := po_now pt + CONNECTED_TIMER_INTERVAL\<rparr>"

lemma tick_simps [simp]:
  "po_now (tick pt) = po_now pt + CONNECTED_TIMER_INTERVAL" "po_oc (tick pt) = po_oc pt" "po_id (tick pt) = po_id pt"
  "po_size (tick pt) = po_size pt" "po_scheme (tick pt) = po_scheme pt"
  by (simp_all add: tick_def)

lemma port_env_tick [simp]: "port_env (tick pt)\<lparr>en_now := po_now pt + CONNECTED_TIMER_INTERVAL\<rparr> = port_env (tick pt)"
  by (simp add: port_env_def)

lemma joined_tick:
  assumes "joined pt e mm log ps side" "unpinged side"
  shows "joined (tick pt) e mm log ps side"
  using assms by (auto simp: joined_def port_open_def wire_def wire_entry_def unpinged_def)

lemma wire_upkeep: "wire pt ps lm \<Longrightarrow> wire pt ps (upkeep (port_link pt) lm)"
  by (auto simp: wire_def wire_entry_def upkeep_def LinkEntry_is_closed_def port_link_def PipeLink_ops_def
      PipeLink_is_closed_def dest: latency_le)

lemma upkeep_pings:
  assumes "\<forall>e \<in> set (lm_links lm). le_ping e = None"
  shows "\<forall>e \<in> set (lm_links (upkeep L lm)). le_ping e = None"
proof -
  have "\<forall>e \<in> set es. le_ping e = None \<Longrightarrow> \<forall>e \<in> set (upkeep_loop L es). le_ping e = None" for es
    by (induction es) (auto simp: LinkEntry_is_closed_def Let_def case_prod_unfold)
  with assms show ?thesis by (simp add: upkeep_def)
qed

lemma send_slices_pings:
  assumes "\<forall>e \<in> set (lm_links lm). le_ping e = None" "send_slices oc L sm lm = Some (r, lm')"
  shows "\<forall>e \<in> set (lm_links lm'). le_ping e = None"
proof -
  have each: "le_ping (snd (send_each L ps e)) = le_ping e" for ps e
    by (induction ps arbitrary: e) (auto simp: Let_def send_ping_kept case_prod_unfold split: sum.split)
  have "\<forall>e \<in> set es. le_ping e = None \<Longrightarrow> send_slices_loop oc L sm es = Some (r, es') \<Longrightarrow> \<forall>e \<in> set es'. le_ping e = None" for es es'
  proof (induction es arbitrary: es')
    case (Cons e es)
    obtain bad e' where u: "unusable L e = (bad, e')" by (cases "unusable L e")
    with Cons unusable_ping [OF u] each [of _ e'] show ?case
      by (auto simp: Let_def case_prod_unfold split: if_splits bind_splits)
  qed simp
  with assms show ?thesis by (auto simp: send_slices_def split: bind_splits)
qed

definition first_slices :: "bool \<Rightarrow> MessageManager \<Rightarrow> u32 \<Rightarrow> LinkProtocol list option" where
  "first_slices oc mm n = (case get_outgoing_slices mm of [] \<Rightarrow> Some [] | sm # _ \<Rightarrow> get_slices oc sm n)"

lemma timer_fires:
  assumes "joined pt e mm log [] side" "unpinged side" "due pt side"
    "first_slices (po_oc pt) mm (po_size pt - OVERHEAD) = Some qs"
  shows "\<exists>side' pings. core_run (port_env (tick pt)) side [(po_now (tick pt), TimerReady)] = Some side' \<and>
    joined (tick pt) e mm log (pings @ qs) side' \<and> due (tick pt) side' \<and> pings \<in> {[], [Ping]} \<and>
    (pings = [] \<longrightarrow> unpinged side')"
proof -
  let ?pt = "tick pt" and ?now = "po_now (tick pt)"
  obtain s where s: "co_state side = S_Connected s" "cd_epoch s = e" "cd_msg_mgr s = mm" "wire ?pt [] (cd_links s)"
    and op: "port_open ?pt log side"
    using joined_tick [OF assms(1,2)] by (auto simp: joined_def)
  have q: "\<forall>e \<in> set (lm_links (cd_links s)). le_ping e = None" using assms(2) s(1) by (simp add: unpinged_def)
  define pings where "pings = (if PING_INTERVAL < ?now - cd_last_ping s then [Ping] else [])"
  define lm where "lm = upkeep (port_link ?pt)
    (if PING_INTERVAL < ?now - cd_last_ping s then ping_all (port_link ?pt) ?now (cd_links s) else cd_links s)"
  have w: "wire ?pt pings lm"
    unfolding pings_def lm_def using wire_upkeep [OF s(4)] wire_upkeep [OF wire_ping_all [OF s(4)]] by simp
  have ql: "pings = [] \<Longrightarrow> \<forall>e \<in> set (lm_links lm). le_ping e = None"
    unfolding pings_def lm_def using upkeep_pings [OF q] by (simp split: if_splits)
  obtain lm' where lm': "wire ?pt (pings @ qs) lm'" "pings = [] \<Longrightarrow> \<forall>e \<in> set (lm_links lm'). le_ping e = None"
    "(case get_outgoing_slices mm of
       slice_mgr # _ \<Rightarrow> if LinkManager_is_empty lm then Some lm
                         else map_option snd (send_slices (po_oc pt) (port_link ?pt) slice_mgr lm)
     | [] \<Rightarrow> Some lm) = Some lm'"
  proof (cases "get_outgoing_slices mm")
    case Nil
    then show ?thesis using that [of lm] w ql assms(4) by (simp add: first_slices_def)
  next
    case (Cons sm sms)
    then have "get_slices (po_oc pt) sm (po_size ?pt - OVERHEAD) = Some qs" using assms(4) by (simp add: first_slices_def)
    from wire_send_slices [OF w this] obtain lm' where
      "send_slices (po_oc pt) (port_link ?pt) sm lm = Some (Inr (), lm')" "wire ?pt (pings @ qs) lm'"
      by blast
    then show ?thesis
      using that [of lm'] Cons wire_not_empty [OF w] send_slices_pings [OF ql] by simp
  qed
  let ?common = "on_timer (\<lambda>timer. snd (Deadline_poll ?now timer)) (co_common side)"
  let ?side = "\<lparr>co_state = S_Connected (s\<lparr>cd_links := lm'\<rparr>), co_common = ?common\<rparr>"
  have "fst (Deadline_poll ?now (cs_timer (co_common side)))" "due ?pt ?side"
    using assms(3) by (auto simp: due_def Deadline_poll_def on_timer_def)
  moreover have "Connected_timer (port_env ?pt) s ?common = Some (determine_state (port_env ?pt) (s\<lparr>cd_links := lm'\<rparr>) ?common)"
    unfolding Connected_timer_def Let_def port_env_simps s(3) tick_simps(2)
    by (simp only: lm'(3) [unfolded lm_def] Option.bind.simps)
  then have "core_handle (port_env ?pt) side TimerReady = Some ?side"
    using s(1) wire_not_empty [OF lm'(1)] by (simp add: core_handle_def determine_state_def)
  ultimately show ?thesis
    using s op lm'(1,2)
    by (intro exI [of _ ?side] exI [of _ pings])
       (auto simp: core_enabled_def joined_def port_open_def unpinged_def pings_def on_timer_def)
qed

section \<open>Resending\<close>

text \<open>The slices of the earliest message, and what becomes of them at the other side.\<close>

definition arrives :: "Epoch \<Rightarrow> transfer \<Rightarrow> LinkProtocol list \<Rightarrow> bool" where
  "arrives e t qs =
     ((\<forall>p \<in> set qs. valid_proto p \<and> (\<exists>q n f d. p = MsgSlice (to_int e) q n f d)) \<and>
      (\<forall>oc. \<exists>t' pfx. transfer_run oc t (map Receive qs) = Some t' \<and> transfer_rel e pfx t' \<and> tr_sent t' = tr_sent t \<and>
         tr_sender t' = tr_sender t \<and>
         (unacked t \<noteq> {} \<longrightarrow> (\<exists>k i. Min (unacked t) < k \<and> Ack (to_int e) k i \<in> set (tr_acks t')))))"

lemma first_slices_arrive:
  assumes "transfer_rel e pfx t" "0 < n" "n < u32_bound" "valid_epoch e"
  obtains qs where "first_slices oc (tr_sender t) n = Some qs" "arrives e t qs"
proof (cases "mm_outgoing_slices (tr_sender t)")
  case Nil
  then show thesis using that [of "[]"] assms(1) by (auto simp: first_slices_def get_outgoing_slices_def arrives_def)
next
  case (Cons x rest)
  obtain q sm where x: "x = (q, sm)" by (cases x)
  then have entry: "(q, sm) \<in> set (mm_outgoing_slices (tr_sender t))" using Cons by simp
  obtain ps k where ps: "get_slices oc sm n = Some ps" "q < length (tr_sent t)" "k \<le> pfx q"
    "slice_chain (to_int e) q (tr_sent t ! q) k ps (length (tr_sent t ! q))" "ps \<noteq> []"
    by (rule transmit_slices [OF assms(1) entry assms(2,3)])
  have small: "small_messages (tr_sent t)" using assms(1) by (simp add: transfer_rel_def)
  have "bt_wf (mm_outgoing_slices (tr_sender t))" using assms(1) by (simp add: transfer_rel_def send_inv_def)
  then have min: "Min (unacked t) = q"
    using Cons x by (intro Min_eqI) (auto simp: less_imp_le)
  show thesis
  proof (rule that)
    show "first_slices oc (tr_sender t) n = Some ps"
      using Cons x ps(1) by (simp add: first_slices_def get_outgoing_slices_def)
    have "\<forall>p \<in> set ps. valid_proto p \<and> (\<exists>q n f d. p = MsgSlice (to_int e) q n f d)"
      using valid_slices [OF slice_chain_sent [OF ps(4,2)] small assms(4)] by blast
    moreover have "\<exists>t' pfx'. transfer_run oc' t (map Receive ps) = Some t' \<and> transfer_rel e pfx' t' \<and> tr_sent t' = tr_sent t \<and>
       tr_sender t' = tr_sender t \<and> (unacked t \<noteq> {} \<longrightarrow> (\<exists>k i. Min (unacked t) < k \<and> Ack (to_int e) k i \<in> set (tr_acks t')))" for oc'
      using receive_chain [OF assms(1) ps(2,3,5,4) earliest_outgoing [OF assms(1) Cons [unfolded x]], of oc'] min
      by (metis last_in_set)
    ultimately show "arrives e t ps" by (simp add: arrives_def)
  qed
qed

definition reported :: "Epoch \<Rightarrow> nat \<Rightarrow> LinkSetMessageInner list \<Rightarrow> bytes list \<Rightarrow> LinkSetMessageInner list" where
  "reported e k log msgs = log @ map (\<lambda>m. InnerMessage m e) (drop k msgs)"

text \<open>The first round: pings are answered and slices acknowledged.\<close>

lemma first_half:
  assumes "joined pt e (tr_receiver t) (reported e k log (tr_delivered t)) out side" "tr_acks t = []"
    "mm_epoch (tr_receiver t) = e" "k \<le> length (tr_delivered t)" "pings \<in> {[], [Ping]}"
    "transfer_run (po_oc pt) t (map Receive qs) = Some t'"
    "\<forall>p \<in> set qs. valid_proto p \<and> (\<exists>q n f d. p = MsgSlice (to_int e) q n f d)"
  shows "\<exists>side'. core_run (port_env pt) (emptied side) (link_events pt (pings @ qs)) = Some side' \<and>
    joined pt e (tr_receiver t') (reported e k log (tr_delivered t')) (map (\<lambda>_. Pong) pings @ tr_acks t') side' \<and>
    (due pt side \<longrightarrow> due pt side') \<and> (unpinged side \<longrightarrow> unpinged side')"
proof -
  have j: "joined pt e (tr_receiver t) (reported e k log (tr_delivered t)) [] (emptied side)"
    by (rule joined_round(1) [OF assms(1)])
  obtain s1 where s1: "core_run (port_env pt) (emptied side) (link_events pt pings) = Some s1"
    "joined pt e (tr_receiver t) (reported e k log (tr_delivered t)) (map (\<lambda>_. Pong) pings) s1"
    using run_pings [OF j assms(5)] by auto
  obtain side' where side': "core_run (port_env pt) s1 (link_events pt qs) = Some side'"
    "joined pt e (tr_receiver t') (reported e k log (tr_delivered t')) (map (\<lambda>_. Pong) pings @ tr_acks t') side'"
    using run_slices_after [OF _ assms(3,4,6,7), of log "map (\<lambda>_. Pong) pings" s1] s1(2) assms(2)
    by (auto simp: reported_def)
  have run: "core_run (port_env pt) (emptied side) (link_events pt (pings @ qs)) = Some side'"
    using s1(1) side'(1) by (simp add: link_events_append core_run_append)
  moreover have "\<forall>p \<in> set (pings @ qs). plain p" using assms(5,7) by auto
  ultimately show ?thesis using side'(2) joined_plain_run [OF run _ j side'(2)] by auto
qed

text \<open>The second round: pongs and acknowledgements return.\<close>

lemma second_half:
  assumes "joined pt e (tr_sender t) log out side" "transfer_rel e pfx t" "valid_epoch e" "pongs \<in> {[], [Pong]}"
    "pongs = [] \<Longrightarrow> unpinged side"
  shows "\<exists>side' t'. core_run (port_env pt) (emptied side) (link_events pt (pongs @ tr_acks t)) = Some side' \<and>
    joined pt e (tr_sender t') log [] side' \<and> unpinged side' \<and> (due pt side \<longrightarrow> due pt side') \<and>
    transfer_rel e pfx t' \<and> tr_receiver t' = tr_receiver t \<and> tr_sent t' = tr_sent t \<and>
    tr_delivered t' = tr_delivered t \<and> unacked t' \<subseteq> unacked t \<and>
    (\<forall>e k i. Ack e k i \<in> set (tr_acks t) \<longrightarrow> unacked t' \<subseteq> {q. k \<le> q}) \<and> same_incoming (tr_sender t') (tr_sender t)"
proof -
  have acks: "\<forall>p \<in> set (tr_acks t). valid_proto p \<and> ack_of_received e (tr_sent t) pfx p"
  proof
    fix p assume "p \<in> set (tr_acks t)"
    then have "ack_of_received e (tr_sent t) pfx p" "recv_inv e (tr_sent t) pfx (tr_receiver t)" "small_messages (tr_sent t)"
      using assms(2) by (simp_all add: transfer_rel_def)
    then show "valid_proto p \<and> ack_of_received e (tr_sent t) pfx p"
      using valid_acks [OF _ _ _ assms(3)] by blast
  qed
  have j: "joined pt e (tr_sender t) log [] (emptied side)" by (rule joined_round(1) [OF assms(1)])
  have "pongs = [] \<Longrightarrow> unpinged (emptied side)" using assms(5) by simp
  then obtain s1 where s1: "core_run (port_env pt) (emptied side) (link_events pt pongs) = Some s1"
    "joined pt e (tr_sender t) log [] s1" "unpinged s1"
    using run_pongs [OF j assms(4)] by auto
  from run_acks [OF s1(2) assms(2) acks] obtain side' t' where
    r: "core_run (port_env pt) s1 (link_events pt (tr_acks t)) = Some side'" "joined pt e (tr_sender t') log [] side'" and
    t': "transfer_rel e pfx t'" "tr_receiver t' = tr_receiver t" "tr_sent t' = tr_sent t"
      "tr_delivered t' = tr_delivered t" "unacked t' \<subseteq> unacked t"
      "\<forall>e k i. Ack e k i \<in> set (tr_acks t) \<longrightarrow> unacked t' \<subseteq> {q. k \<le> q}" "same_incoming (tr_sender t') (tr_sender t)"
    by (elim exE conjE)
  have pl: "\<forall>p \<in> set (tr_acks t). plain p" using acks by (auto simp: ack_of_received_def)
  have run: "core_run (port_env pt) (emptied side) (link_events pt (pongs @ tr_acks t)) = Some side'"
    using s1(1) r(1) by (simp add: link_events_append core_run_append)
  have "unpinged side'" using joined_plain_run(2) [OF r(1) pl s1(2) r(2)] s1(3) by simp
  moreover have "due pt side \<longrightarrow> due pt side'"
    using joined_plain_run(1) [OF run _ j r(2)] pl assms(4) by auto
  ultimately show ?thesis using run r(2) t' by blast
qed

section \<open>Both sides\<close>

definition same_outgoing :: "MessageManager \<Rightarrow> MessageManager \<Rightarrow> bool" where
  "same_outgoing a b =
     (mm_epoch a = mm_epoch b \<and> mm_next_seq a = mm_next_seq b \<and> mm_outgoing_slices a = mm_outgoing_slices b)"

lemma run_receives:
  assumes "transfer_run oc t (map Receive qs) = Some t'"
  shows "same_outgoing (tr_receiver t') (tr_receiver t) \<and> (\<exists>msgs. tr_delivered t' = tr_delivered t @ msgs)"
  using assms
proof (induction qs arbitrary: t)
  case (Cons q qs)
  then obtain t1 where t1: "transfer_exec oc t (Receive q) = Some t1" "transfer_run oc t1 (map Receive qs) = Some t'"
    by (auto split: bind_splits)
  have "same_outgoing (tr_receiver t1) (tr_receiver t) \<and> (\<exists>msgs. tr_delivered t1 = tr_delivered t @ msgs)"
    using t1(1) by (cases q) (auto simp: same_outgoing_def split: if_splits bind_splits dest!: receive_keeps)
  with Cons.IH [OF t1(2)] show ?case by (auto simp: same_outgoing_def)
qed (simp add: same_outgoing_def)

lemma transfer_rel_sender:
  assumes "transfer_rel e pfx t" "same_outgoing a (tr_sender t)"
  shows "transfer_rel e pfx (t\<lparr>tr_sender := a\<rparr>)"
  using assms by (auto simp: transfer_rel_def send_inv_def same_outgoing_def)

lemma transfer_rel_receiver:
  assumes "transfer_rel e pfx t" "same_incoming b (tr_receiver t)"
  shows "transfer_rel e pfx (t\<lparr>tr_receiver := b, tr_acks := []\<rparr>)"
  using assms by (auto simp: transfer_rel_def recv_inv_def same_incoming_def)

text \<open>
  Two sides of a session between two events of the timer: \<open>t\<close> is the transfer from the first to the
  second and \<open>u\<close> the transfer back; each user has been told \<open>logs\<close> and then what has been delivered
  beyond \<open>ks\<close> messages.
\<close>

definition exchange ::
  "'c port \<times> 'c port \<Rightarrow> Epoch \<Rightarrow> nat \<times> nat \<Rightarrow> LinkSetMessageInner list \<times> LinkSetMessageInner list \<Rightarrow>
   transfer \<Rightarrow> transfer \<Rightarrow> 'c side \<times> 'c side \<Rightarrow> bool" where
  "exchange pts e ks logs t u sides =
     ((\<exists>pfx. transfer_rel e pfx t) \<and> (\<exists>pfx. transfer_rel e pfx u) \<and>
      tr_receiver t = tr_sender u \<and> tr_receiver u = tr_sender t \<and> tr_acks t = [] \<and> tr_acks u = [] \<and>
      fst ks \<le> length (tr_delivered u) \<and> snd ks \<le> length (tr_delivered t) \<and>
      joined (fst pts) e (tr_sender t) (reported e (fst ks) (fst logs) (tr_delivered u)) [] (fst sides) \<and>
      joined (snd pts) e (tr_sender u) (reported e (snd ks) (snd logs) (tr_delivered t)) [] (snd sides) \<and>
      unpinged (fst sides) \<and> unpinged (snd sides) \<and> due (fst pts) (fst sides) \<and> due (snd pts) (snd sides))"

definition tick_round :: "'c port \<times> 'c port \<Rightarrow> 'c side \<times> 'c side \<Rightarrow> ('c side \<times> 'c side) option" where
  "tick_round pts sides =
     do { a \<leftarrow> core_run (port_env (fst pts)) (fst sides) [(po_now (fst pts), TimerReady)];
          b \<leftarrow> core_run (port_env (snd pts)) (snd sides) [(po_now (snd pts), TimerReady)];
          two_way_rounds 2 pts (a, b) }"

text \<open>What one side does in the three phases of a tick, and what the other has to do with it.\<close>

lemma joined_size: "joined pt e mm log ps side \<Longrightarrow> 0 < po_size pt - OVERHEAD \<and> po_size pt - OVERHEAD < u32_bound"
  by (auto simp: joined_def port_open_def)

lemma acks_valid:
  assumes "transfer_rel e pfx t" "valid_epoch e"
  shows "\<forall>p \<in> set (tr_acks t). valid_proto p"
  using assms valid_acks [OF _ _ _ assms(2), of "tr_sent t" pfx _ "tr_receiver t"] by (auto simp: transfer_rel_def)

lemma two_rounds:
  assumes "joined pa e mma la psa a" "joined pb e mmb lb psb b" "\<forall>p \<in> set (psa @ psb). valid_proto p"
    "core_run (port_env pa) (emptied a) (link_events pa psb) = Some a'"
    "core_run (port_env pb) (emptied b) (link_events pb psa) = Some b'"
  shows "two_way_round (pa, pb) (a, b) = Some (a', b')"
  using assms joined_round(2) [OF assms(1), of pb] joined_round(2) [OF assms(2), of pa]
  by (simp add: two_way_round_def)

lemma card_without_Min:
  fixes X Y :: "u64 set"
  assumes "finite X" "Y \<subseteq> X" "X \<noteq> {} \<Longrightarrow> \<exists>k. Min X < k \<and> Y \<subseteq> {q. k \<le> q}"
  shows "card Y \<le> card X - 1"
proof (cases "X = {}")
  case False
  then obtain k where "Min X < k" "Y \<subseteq> {q. k \<le> q}" using assms(3) by blast
  then have "Min X \<notin> Y" by auto
  then have "Y \<subseteq> X - {Min X}" using assms(2) by blast
  then have "card Y \<le> card (X - {Min X})" using assms(1) by (intro card_mono) auto
  then show ?thesis using Min_in [OF assms(1) False] assms(1) by simp
qed (use assms(2) in simp)

text \<open>The phases of a tick: the timers fire, slices cross, acknowledgements cross.\<close>

lemma timer_phase:
  assumes "joined pt e (tr_sender t) log [] side" "unpinged side" "due pt side" "transfer_rel e pfx t" "valid_epoch e"
  obtains side' pings qs where "core_run (port_env (tick pt)) side [(po_now (tick pt), TimerReady)] = Some side'"
    "joined (tick pt) e (tr_sender t) log (pings @ qs) side'" "due (tick pt) side'" "pings \<in> {[], [Ping]}"
    "pings = [] \<longrightarrow> unpinged side'" "arrives e t qs"
proof -
  have size: "0 < po_size pt - OVERHEAD" "po_size pt - OVERHEAD < u32_bound"
    using joined_size [OF assms(1)] by simp_all
  obtain qs where qs: "first_slices (po_oc pt) (tr_sender t) (po_size pt - OVERHEAD) = Some qs" "arrives e t qs"
    by (rule first_slices_arrive [OF assms(4) size assms(5)])
  show thesis using timer_fires [OF assms(1-3) qs(1)] that qs(2) by blast
qed

lemma slice_phase:
  assumes "joined pt e (tr_receiver t) (reported e k log (tr_delivered t)) out side" "tr_acks t = []" "transfer_rel e pfx t"
    "k \<le> length (tr_delivered t)" "pings \<in> {[], [Ping]}" "arrives e t qs" "due pt side"
  obtains side' t' pfx' where "core_run (port_env pt) (emptied side) (link_events pt (pings @ qs)) = Some side'"
    "joined pt e (tr_receiver t') (reported e k log (tr_delivered t')) (map (\<lambda>_. Pong) pings @ tr_acks t') side'"
    "due pt side'" "unpinged side \<longrightarrow> unpinged side'" "transfer_rel e pfx' t'" "tr_sent t' = tr_sent t" "tr_sender t' = tr_sender t"
    "unacked t \<noteq> {} \<longrightarrow> (\<exists>k i. Min (unacked t) < k \<and> Ack (to_int e) k i \<in> set (tr_acks t'))"
    "same_outgoing (tr_receiver t') (tr_receiver t)" "k \<le> length (tr_delivered t')"
proof -
  have qs: "\<forall>p \<in> set qs. valid_proto p \<and> (\<exists>q n f d. p = MsgSlice (to_int e) q n f d)"
    using assms(6) by (simp add: arrives_def)
  obtain t' pfx' where t': "transfer_run (po_oc pt) t (map Receive qs) = Some t'" "transfer_rel e pfx' t'"
    "tr_sent t' = tr_sent t" "tr_sender t' = tr_sender t"
    "unacked t \<noteq> {} \<longrightarrow> (\<exists>k i. Min (unacked t) < k \<and> Ack (to_int e) k i \<in> set (tr_acks t'))"
    using assms(6) unfolding arrives_def by blast
  have ep: "mm_epoch (tr_receiver t) = e" using assms(3) by (simp add: transfer_rel_def recv_inv_def)
  obtain side' where side': "core_run (port_env pt) (emptied side) (link_events pt (pings @ qs)) = Some side'"
    "joined pt e (tr_receiver t') (reported e k log (tr_delivered t')) (map (\<lambda>_. Pong) pings @ tr_acks t') side'"
    "due pt side'" "unpinged side \<longrightarrow> unpinged side'"
    using first_half [OF assms(1,2) ep assms(4,5) t'(1) qs] assms(7) by blast
  show thesis by (rule that [OF side' t'(2-)]) (use run_receives [OF t'(1)] assms(4) in auto)
qed

lemma ack_phase:
  assumes "joined pt e mm log out side" "transfer_rel e pfx t" "same_outgoing mm (tr_sender t)" "valid_epoch e"
    "pings \<in> {[], [Ping]}" "pings = [] \<longrightarrow> unpinged side" "due pt side"
    "X \<noteq> {} \<longrightarrow> (\<exists>k i. Min X < k \<and> Ack (to_int e) k i \<in> set (tr_acks t))" "X = unacked t"
  obtains side' t' where
    "core_run (port_env pt) (emptied side) (link_events pt (map (\<lambda>_. Pong) pings @ tr_acks t)) = Some side'"
    "joined pt e (tr_sender t') log [] side'" "unpinged side'" "due pt side'"
    "transfer_rel e pfx t'" "tr_receiver t' = tr_receiver t" "tr_sent t' = tr_sent t" "tr_delivered t' = tr_delivered t"
    "card (unacked t') \<le> card X - 1" "same_incoming (tr_sender t') mm"
proof -
  let ?t = "t\<lparr>tr_sender := mm\<rparr>"
  have rel: "transfer_rel e pfx ?t" by (rule transfer_rel_sender [OF assms(2,3)])
  have un: "unacked ?t = X" using assms(3,9) by (simp add: same_outgoing_def)
  have "\<exists>side' t'. core_run (port_env pt) (emptied side) (link_events pt (map (\<lambda>_. Pong) pings @ tr_acks ?t)) = Some side' \<and>
    joined pt e (tr_sender t') log [] side' \<and> unpinged side' \<and> (due pt side \<longrightarrow> due pt side') \<and>
    transfer_rel e pfx t' \<and> tr_receiver t' = tr_receiver ?t \<and> tr_sent t' = tr_sent ?t \<and>
    tr_delivered t' = tr_delivered ?t \<and> unacked t' \<subseteq> unacked ?t \<and>
    (\<forall>e k i. Ack e k i \<in> set (tr_acks ?t) \<longrightarrow> unacked t' \<subseteq> {q. k \<le> q}) \<and> same_incoming (tr_sender t') (tr_sender ?t)"
    by (rule second_half [OF _ rel assms(4)]) (use assms(1,5,6) in auto)
  then obtain side' t' where r: "core_run (port_env pt) (emptied side) (link_events pt (map (\<lambda>_. Pong) pings @ tr_acks t)) = Some side'"
    "joined pt e (tr_sender t') log [] side'" "unpinged side'" "due pt side'" and
    t': "transfer_rel e pfx t'" "tr_receiver t' = tr_receiver t" "tr_sent t' = tr_sent t" "tr_delivered t' = tr_delivered t" and
    un': "unacked t' \<subseteq> X" "\<forall>e k i. Ack e k i \<in> set (tr_acks t) \<longrightarrow> unacked t' \<subseteq> {q. k \<le> q}" and
    inc: "same_incoming (tr_sender t') mm"
    using assms(7) un by auto
  have "X \<noteq> {} \<Longrightarrow> \<exists>k. Min X < k \<and> unacked t' \<subseteq> {q. k \<le> q}" using assms(8) un'(2) by meson
  moreover have "finite X" unfolding assms(9) by simp
  ultimately have "card (unacked t') \<le> card X - 1" using un'(1) by (intro card_without_Min)
  from r t' this inc show thesis by (rule that)
qed

lemma acks_cross:
  assumes a: "joined pa e (tr_receiver u) (reported e ka la (tr_delivered u)) (map (\<lambda>_. Pong) pingb @ tr_acks u) a"
      "due pa a" "pinga \<in> {[], [Ping]}" "pinga = [] \<longrightarrow> unpinged a"
    and b: "joined pb e (tr_receiver t) (reported e kb lb (tr_delivered t)) (map (\<lambda>_. Pong) pinga @ tr_acks t) b"
      "due pb b" "pingb \<in> {[], [Ping]}" "pingb = [] \<longrightarrow> unpinged b"
    and t: "transfer_rel e pf t" "same_outgoing (tr_receiver u) (tr_sender t)"
      "X \<noteq> {} \<longrightarrow> (\<exists>k i. Min X < k \<and> Ack (to_int e) k i \<in> set (tr_acks t))" "X = unacked t" "kb \<le> length (tr_delivered t)"
    and u: "transfer_rel e pg u" "same_outgoing (tr_receiver t) (tr_sender u)"
      "Y \<noteq> {} \<longrightarrow> (\<exists>k i. Min Y < k \<and> Ack (to_int e) k i \<in> set (tr_acks u))" "Y = unacked u" "ka \<le> length (tr_delivered u)"
    and e: "valid_epoch e"
  shows "\<exists>a' b' t' u'. two_way_round (pa, pb) (a, b) = Some (a', b') \<and>
    exchange (pa, pb) e (ka, kb) (la, lb) t' u' (a', b') \<and> tr_sent t' = tr_sent t \<and> tr_sent u' = tr_sent u \<and>
    card (unacked t') \<le> card X - 1 \<and> card (unacked u') \<le> card Y - 1"
proof -
  obtain a' t3 where a3: "core_run (port_env pa) (emptied a) (link_events pa (map (\<lambda>_. Pong) pinga @ tr_acks t)) = Some a'"
    "joined pa e (tr_sender t3) (reported e ka la (tr_delivered u)) [] a'" "unpinged a'" "due pa a'"
    "transfer_rel e pf t3" "tr_receiver t3 = tr_receiver t" "tr_sent t3 = tr_sent t" "tr_delivered t3 = tr_delivered t"
    "card (unacked t3) \<le> card X - 1" "same_incoming (tr_sender t3) (tr_receiver u)"
    by (rule ack_phase [OF a(1) t(1,2) e a(3,4,2) t(3,4)])
  obtain b' u3 where b3: "core_run (port_env pb) (emptied b) (link_events pb (map (\<lambda>_. Pong) pingb @ tr_acks u)) = Some b'"
    "joined pb e (tr_sender u3) (reported e kb lb (tr_delivered t)) [] b'" "unpinged b'" "due pb b'"
    "transfer_rel e pg u3" "tr_receiver u3 = tr_receiver u" "tr_sent u3 = tr_sent u" "tr_delivered u3 = tr_delivered u"
    "card (unacked u3) \<le> card Y - 1" "same_incoming (tr_sender u3) (tr_receiver t)"
    by (rule ack_phase [OF b(1) u(1,2) e b(3,4,2) u(3,4)])
  let ?t = "t3\<lparr>tr_receiver := tr_sender u3, tr_acks := []\<rparr>" and ?u = "u3\<lparr>tr_receiver := tr_sender t3, tr_acks := []\<rparr>"
  have "\<forall>p \<in> set ((map (\<lambda>_. Pong) pingb @ tr_acks u) @ (map (\<lambda>_. Pong) pinga @ tr_acks t)). valid_proto p"
    using acks_valid [OF t(1) e] acks_valid [OF u(1) e] by auto
  then have "two_way_round (pa, pb) (a, b) = Some (a', b')" by (rule two_rounds [OF a(1) b(1) _ a3(1) b3(1)])
  moreover have "transfer_rel e pf ?t" "transfer_rel e pg ?u"
    using transfer_rel_receiver [OF a3(5)] transfer_rel_receiver [OF b3(5)] a3(6,10) b3(6,10) by simp_all
  then have "exchange (pa, pb) e (ka, kb) (la, lb) ?t ?u (a', b')"
    unfolding exchange_def using a3(2-4,8) b3(2-4,8) t(5) u(5) by auto
  moreover have "tr_sent ?t = tr_sent t" "tr_sent ?u = tr_sent u" "card (unacked ?t) \<le> card X - 1" "card (unacked ?u) \<le> card Y - 1"
    using a3(7,9) b3(7,9) by simp_all
  ultimately show ?thesis by blast
qed

lemma tick_exchange:
  assumes ex: "exchange (pa, pb) e (ka, kb) (la, lb) t u (a, b)" and e: "valid_epoch e"
  shows "\<exists>a' b' t' u'. tick_round (tick pa, tick pb) (a, b) = Some (a', b') \<and>
    exchange (tick pa, tick pb) e (ka, kb) (la, lb) t' u' (a', b') \<and> tr_sent t' = tr_sent t \<and> tr_sent u' = tr_sent u \<and>
    card (unacked t') \<le> card (unacked t) - 1 \<and> card (unacked u') \<le> card (unacked u) - 1"
proof -
  obtain pf pg where rel: "transfer_rel e pf t" "transfer_rel e pg u" using ex by (auto simp: exchange_def)
  have ends: "tr_receiver t = tr_sender u" "tr_receiver u = tr_sender t" "tr_acks t = []" "tr_acks u = []"
    "ka \<le> length (tr_delivered u)" "kb \<le> length (tr_delivered t)"
    and ja: "joined pa e (tr_sender t) (reported e ka la (tr_delivered u)) [] a" "unpinged a" "due pa a"
    and jb: "joined pb e (tr_sender u) (reported e kb lb (tr_delivered t)) [] b" "unpinged b" "due pb b"
    using ex by (simp_all add: exchange_def)
  obtain a1 pinga qa where a1: "core_run (port_env (tick pa)) a [(po_now (tick pa), TimerReady)] = Some a1"
    "joined (tick pa) e (tr_sender t) (reported e ka la (tr_delivered u)) (pinga @ qa) a1" "due (tick pa) a1"
    "pinga \<in> {[], [Ping]}" "pinga = [] \<longrightarrow> unpinged a1" "arrives e t qa"
    by (rule timer_phase [OF ja rel(1) e])
  obtain b1 pingb qb where b1: "core_run (port_env (tick pb)) b [(po_now (tick pb), TimerReady)] = Some b1"
    "joined (tick pb) e (tr_sender u) (reported e kb lb (tr_delivered t)) (pingb @ qb) b1" "due (tick pb) b1"
    "pingb \<in> {[], [Ping]}" "pingb = [] \<longrightarrow> unpinged b1" "arrives e u qb"
    by (rule timer_phase [OF jb rel(2) e])
  obtain b2 t2 pf2 where b2: "core_run (port_env (tick pb)) (emptied b1) (link_events (tick pb) (pinga @ qa)) = Some b2"
    "joined (tick pb) e (tr_receiver t2) (reported e kb lb (tr_delivered t2)) (map (\<lambda>_. Pong) pinga @ tr_acks t2) b2"
    "due (tick pb) b2" "unpinged b1 \<longrightarrow> unpinged b2" "transfer_rel e pf2 t2" "tr_sent t2 = tr_sent t" "tr_sender t2 = tr_sender t"
    "unacked t \<noteq> {} \<longrightarrow> (\<exists>k i. Min (unacked t) < k \<and> Ack (to_int e) k i \<in> set (tr_acks t2))"
    "same_outgoing (tr_receiver t2) (tr_receiver t)" "kb \<le> length (tr_delivered t2)"
    by (rule slice_phase [OF b1(2) [folded ends(1)] ends(3) rel(1) ends(6) a1(4,6) b1(3)])
  obtain a2 u2 pg2 where a2: "core_run (port_env (tick pa)) (emptied a1) (link_events (tick pa) (pingb @ qb)) = Some a2"
    "joined (tick pa) e (tr_receiver u2) (reported e ka la (tr_delivered u2)) (map (\<lambda>_. Pong) pingb @ tr_acks u2) a2"
    "due (tick pa) a2" "unpinged a1 \<longrightarrow> unpinged a2" "transfer_rel e pg2 u2" "tr_sent u2 = tr_sent u" "tr_sender u2 = tr_sender u"
    "unacked u \<noteq> {} \<longrightarrow> (\<exists>k i. Min (unacked u) < k \<and> Ack (to_int e) k i \<in> set (tr_acks u2))"
    "same_outgoing (tr_receiver u2) (tr_receiver u)" "ka \<le> length (tr_delivered u2)"
    by (rule slice_phase [OF a1(2) [folded ends(2)] ends(4) rel(2) ends(5) b1(4,6) a1(3)])
  have un: "unacked t2 = unacked t" "unacked u2 = unacked u" using b2(7) a2(7) by simp_all
  have out: "same_outgoing (tr_receiver u2) (tr_sender t2)" "same_outgoing (tr_receiver t2) (tr_sender u2)"
    using a2(7,9) b2(7,9) ends(1,2) by simp_all
  have "\<forall>p \<in> set ((pinga @ qa) @ (pingb @ qb)). valid_proto p"
    using a1(4,6) b1(4,6) by (auto simp: arrives_def)
  then have r1: "two_way_round (tick pa, tick pb) (a1, b1) = Some (a2, b2)"
    by (rule two_rounds [OF a1(2) b1(2) _ a2(1) b2(1)])
  have "pinga = [] \<longrightarrow> unpinged a2" "pingb = [] \<longrightarrow> unpinged b2" using a1(5) a2(4) b1(5) b2(4) by blast+
  from acks_cross [OF a2(2,3) a1(4) this(1) b2(2,3) b1(4) this(2) b2(5) out(1) b2(8) un(1) [symmetric] b2(10)
      a2(5) out(2) a2(8) un(2) [symmetric] a2(10) e]
  obtain a' b' t' u' where f: "two_way_round (tick pa, tick pb) (a2, b2) = Some (a', b')"
    "exchange (tick pa, tick pb) e (ka, kb) (la, lb) t' u' (a', b')" "tr_sent t' = tr_sent t2" "tr_sent u' = tr_sent u2"
    "card (unacked t') \<le> card (unacked t) - 1" "card (unacked u') \<le> card (unacked u) - 1"
    by (elim exE conjE)
  have "tick_round (tick pa, tick pb) (a, b) = Some (a', b')"
    using a1(1) b1(1) r1 f(1) by (simp add: tick_round_def numeral_2_eq_2)
  with f b2(6) a2(6) show ?thesis by auto
qed

fun tick_rounds :: "nat \<Rightarrow> 'c port \<times> 'c port \<Rightarrow> 'c side \<times> 'c side \<Rightarrow> ('c side \<times> 'c side) option" where
  "tick_rounds 0 pts sides = Some sides"
| "tick_rounds (Suc n) pts sides =
     (let pts = (tick (fst pts), tick (snd pts))
      in do { sides \<leftarrow> tick_round pts sides; tick_rounds n pts sides })"

lemma tick_rounds_exchange:
  assumes "exchange (pa, pb) e ks logs t u (a, b)" "valid_epoch e" "card (unacked t) \<le> n" "card (unacked u) \<le> n"
  shows "\<exists>a' b' t' u' pa' pb'. tick_rounds n (pa, pb) (a, b) = Some (a', b') \<and>
    exchange (pa', pb') e ks logs t' u' (a', b') \<and> tr_sent t' = tr_sent t \<and> tr_sent u' = tr_sent u \<and>
    mm_outgoing_slices (tr_sender t') = [] \<and> mm_outgoing_slices (tr_sender u') = []"
  using assms
proof (induction n arbitrary: pa pb t u a b)
  case 0
  then show ?case by auto
next
  case (Suc n)
  obtain a' b' t' u' where r: "tick_round (tick pa, tick pb) (a, b) = Some (a', b')"
    "exchange (tick pa, tick pb) e ks logs t' u' (a', b')" "tr_sent t' = tr_sent t" "tr_sent u' = tr_sent u"
    "card (unacked t') \<le> card (unacked t) - 1" "card (unacked u') \<le> card (unacked u) - 1"
    using tick_exchange [of pa pb e "fst ks" "snd ks" "fst logs" "snd logs" t u a b] Suc.prems(1,2) by auto
  have "card (unacked t') \<le> n" "card (unacked u') \<le> n" using r(5,6) Suc.prems(3,4) by linarith+
  from Suc.IH [OF r(2) Suc.prems(2) this] show ?case unfolding tick_rounds.simps using r(1,3,4) by auto
qed

text \<open>Two sides without a link get one, and two rounds later they are between two events of the timer.\<close>

lemma ping_pong:
  assumes j: "joined pt e mm log [Ping] s1" "due pt s1"
  shows "\<exists>s2 s3. core_run (port_env pt) (emptied s1) (link_events pt [Ping]) = Some s2 \<and>
    joined pt e mm log [Pong] s2 \<and> core_run (port_env pt) (emptied s2) (link_events pt [Pong]) = Some s3 \<and>
    joined pt e mm log [] s3 \<and> unpinged s3 \<and> due pt s3"
proof -
  obtain s2 where s2: "core_run (port_env pt) (emptied s1) (link_events pt [Ping]) = Some s2" "joined pt e mm log [Pong] s2"
    using run_pings [OF joined_round(1) [OF j(1)], of "[Ping]"] by auto
  obtain s3 where s3: "core_run (port_env pt) (emptied s2) (link_events pt [Pong]) = Some s3" "joined pt e mm log [] s3"
    "unpinged s3"
    using run_pongs [OF joined_round(1) [OF s2(2)], of "[Pong]"] by auto
  have "due pt s2" using joined_plain_run(1) [OF s2(1) _ joined_round(1) [OF j(1)] s2(2)] j(2) by simp
  then have "due pt s3" using joined_plain_run(1) [OF s3(1) _ joined_round(1) [OF s2(2)] s3(2)] by simp
  with s2 s3 show ?thesis by blast
qed

lemma resume:
  assumes a: "resting pa e (tr_sender t) la a" "fresh_pipe pa x"
    and b: "resting pb e (tr_sender u) lb b" "fresh_pipe pb y"
    and t: "transfer_rel e pf t" "transfer_rel e pg u" "tr_receiver t = tr_sender u" "tr_receiver u = tr_sender t"
      "tr_acks t = []" "tr_acks u = []"
  shows "\<exists>sides a' b'. start_sides (pa, pb) (x, y) (a, b) = Some sides \<and> two_way_rounds 2 (pa, pb) sides = Some (a', b') \<and>
    exchange (pa, pb) e (length (tr_delivered u), length (tr_delivered t))
      (la @ resumes (co_state a), lb @ resumes (co_state b)) t u (a', b')"
proof -
  let ?la = "la @ resumes (co_state a)" and ?lb = "lb @ resumes (co_state b)"
  obtain a1 where a1: "core_handle (port_env pa) a (FromCtrl (Command (CmdAddLink x))) = Some a1"
    "joined pa e (tr_sender t) ?la [Ping] a1" "due pa a1"
    using side_resume [OF a] by blast
  obtain b1 where b1: "core_handle (port_env pb) b (FromCtrl (Command (CmdAddLink y))) = Some b1"
    "joined pb e (tr_sender u) ?lb [Ping] b1" "due pb b1"
    using side_resume [OF b] by blast
  obtain a2 a3 where a2: "core_run (port_env pa) (emptied a1) (link_events pa [Ping]) = Some a2"
      "joined pa e (tr_sender t) ?la [Pong] a2" and a3: "core_run (port_env pa) (emptied a2) (link_events pa [Pong]) = Some a3"
      "joined pa e (tr_sender t) ?la [] a3" "unpinged a3" "due pa a3"
    using ping_pong [OF a1(2,3)] by blast
  obtain b2 b3 where b2: "core_run (port_env pb) (emptied b1) (link_events pb [Ping]) = Some b2"
      "joined pb e (tr_sender u) ?lb [Pong] b2" and b3: "core_run (port_env pb) (emptied b2) (link_events pb [Pong]) = Some b3"
      "joined pb e (tr_sender u) ?lb [] b3" "unpinged b3" "due pb b3"
    using ping_pong [OF b1(2,3)] by blast
  have "two_way_round (pa, pb) (a1, b1) = Some (a2, b2)"
    by (rule two_rounds [OF a1(2) b1(2) _ a2(1) b2(1)]) simp
  moreover have "two_way_round (pa, pb) (a2, b2) = Some (a3, b3)"
    by (rule two_rounds [OF a2(2) b2(2) _ a3(1) b3(1)]) simp
  ultimately have "two_way_rounds 2 (pa, pb) (a1, b1) = Some (a3, b3)" by (simp add: numeral_2_eq_2)
  moreover have "exchange (pa, pb) e (length (tr_delivered u), length (tr_delivered t)) (?la, ?lb) t u (a3, b3)"
    using a3 b3 t by (auto simp: exchange_def reported_def)
  ultimately show ?thesis using a1(1) b1(1) by (auto simp: start_sides_def)
qed

text \<open>What an exchange in which nothing is left to acknowledge has told its users.\<close>

lemma reported_all:
  assumes "messages_in e log = del" "prefix del ms"
  shows "messages_in e (reported e (length del) (log @ resumes st) ms) = ms"
proof -
  have "messages_in e (resumes st) = []" by (cases st) simp_all
  then show ?thesis using assms by (auto simp: reported_def prefix_def)
qed

text \<open>How many messages are on their way.\<close>

definition unsettled :: "'c side \<Rightarrow> nat" where
  "unsettled side = (case state_msg_mgr (co_state side) of Some mm \<Rightarrow> length (get_outgoing_slices mm) | None \<Rightarrow> 0)"

lemma unacked_unsettled:
  assumes "resting pt e mm log side" "transfer_rel e pfx t" "tr_sender t = mm"
  shows "card (unacked t) = unsettled side"
proof -
  have "distinct (map fst (mm_outgoing_slices mm))"
    using assms(2,3) by (auto simp: transfer_rel_def send_inv_def bt_wf_def strict_sorted_iff)
  then have "card (set (map fst (mm_outgoing_slices mm))) = length (mm_outgoing_slices mm)"
    by (simp only: distinct_card length_map)
  then show ?thesis using assms(1,3) by (simp add: unsettled_def resting_def get_outgoing_slices_def)
qed

lemma stranded_streams:
  assumes "reaches (duo_step oc scheme) duo_new d" "e \<noteq> Epoch_MAX" "stranded pa e (pe_core (d s))" "stranded pb e (pe_core (d (other s)))"
  obtains t u pf pg where "resting pa e (tr_sender t) (pe_log (d s)) (pe_core (d s))"
    "resting pb e (tr_sender u) (pe_log (d (other s))) (pe_core (d (other s)))" "transfer_rel e pf t" "transfer_rel e pg u"
    "tr_receiver t = tr_sender u" "tr_receiver u = tr_sender t" "tr_acks t = []" "tr_acks u = []"
    "tr_sent t = sent_in e (d s)" "tr_sent u = sent_in e (d (other s))"
    "tr_delivered t = received_in e (d (other s))" "tr_delivered u = received_in e (d s)"
proof -
  have "duo_inv d" using duo.inv_reachable assms(1) by blast
  then obtain m n where mn: "peer_ok m (d s)" "peer_ok n (d (other s))"
    "streams e (d s) (d (other s)) (m e) (n e)" "streams e (d (other s)) (d s) (n e) (m e)"
    using assms(2) by (auto simp: duo_inv_split [of _ s])
  have r: "resting pa e (m e) (pe_log (d s)) (pe_core (d s))"
    "resting pb e (n e) (pe_log (d (other s))) (pe_core (d (other s)))"
    using mn(1,2) assms(2-4) session_has_mgr [of "pe_state (d s)" e] session_has_mgr [of "pe_state (d (other s))" e]
    by (auto simp: resting_def stranded_def peer_ok_def)
  obtain pf pg where t: "transfer_rel e pf \<lparr>tr_sent = sent_in e (d s), tr_sender = m e, tr_receiver = n e, tr_slices = [],
      tr_acks = filter (acks_epoch e) (pe_acks (d (other s))), tr_delivered = received_in e (d (other s))\<rparr>"
    "transfer_rel e pg \<lparr>tr_sent = sent_in e (d (other s)), tr_sender = n e, tr_receiver = m e, tr_slices = [],
      tr_acks = filter (acks_epoch e) (pe_acks (d s)), tr_delivered = received_in e (d s)\<rparr>"
    using mn(3,4) by (auto simp: streams_def stream_def)
  have same: "same_incoming mm mm" for mm by (simp add: same_incoming_def)
  show thesis
    by (rule that [OF _ _ transfer_rel_receiver [OF t(1)] transfer_rel_receiver [OF t(2)], of "n e" "m e"]) (use r same in simp_all)
qed

section \<open>An example\<close>

text \<open>Two link sets connect over a pipe; it breaks after a message has been written to it, before it has arrived.\<close>

definition example_env_pipe :: "(PipeLink, unit) env" where
  "example_env_pipe = port_env example_port"

definition example_greeting :: "(endpoint \<times> Instant \<times> (PipeLink, unit) core_event) list" where
  "example_greeting =
     [(West, 1, FromCtrl (Config (ReconnectTimeout None))), (East, 1, FromCtrl (Config (GracePeriodTimeout None))),
      (West, 1, FromCtrl (Command (CmdAddLink (pair_end [] 1)))), (East, 1, FromCtrl (Command (CmdAddLink (pair_end [] 2)))),
      (West, 2, FromLink 0 (Reset None True)), (East, 3, FromLink 0 (Reset (Some Epoch_ONE) False)),
      (West, 4, FromCtrl (Command (CmdMessage [7, 8] None)))]"

definition close_links :: "(PipeLink, 'c) duo \<Rightarrow> endpoint \<Rightarrow> (PipeLink, 'c) duo" where
  "close_links d s =
     d(s := (d s)\<lparr>pe_core := (pe_core (d s))\<lparr>co_state := links_change (\<lambda>l. l\<lparr>pl_tx_closed := True\<rparr>) (pe_state (d s))\<rparr>\<rparr>)"

definition example_timers :: "(endpoint \<times> Instant \<times> (PipeLink, unit) core_event) list" where
  "example_timers = [(West, 6000000000, TimerReady), (East, 6000000000, TimerReady)]"

definition example_breaks :: "(PipeLink, unit) duo option" where
  "example_breaks =
     do { d \<leftarrow> duo_run example_env_pipe duo_new example_greeting;
          duo_run example_env_pipe (close_links (close_links d West) East) example_timers }"

definition later_port :: "unit port" where
  "later_port = example_port\<lparr>po_id := 1, po_now := 7000000000\<rparr>"

lemmas pipe_eval = example_env_pipe_def port_env_def port_link_def PipeLink_ops_def PipeLink_take_reader_def ok_or_def
  PipeLink_send_def tx_send_def PipeLink_is_closed_def pair_end_def example_port_def unsigned_minus_1_eq_mask mask_eq_exp_minus_1

lemma example_breaks_reaches:
  assumes "example_breaks = Some d"
  shows "reaches (duo_step (\<lambda>_. True) (\<lambda>_ _. [])) duo_new d"
proof -
  obtain d1 where d1: "duo_run example_env_pipe duo_new example_greeting = Some d1"
    "duo_run example_env_pipe (close_links (close_links d1 West) East) example_timers = Some d"
    using assms by (auto simp: example_breaks_def split: bind_splits)
  have "valid_link (en_link example_env_pipe)" by (simp add: example_env_pipe_def port_link_def PipeLink_ops_def valid_link_def unat_u32)
  note run = duo_run_reaches [OF this]
  have env: "en_oc example_env_pipe = True" "en_scheme example_env_pipe = (\<lambda>_. [])"
    by (simp_all add: example_env_pipe_def example_port_def)
  have "reaches (duo_step (\<lambda>_. True) (\<lambda>_ _. [])) d1 (close_links (close_links d1 West) East)"
    unfolding close_links_def by (rule reaches_two; rule duo_links)
  then show ?thesis using run [OF d1(1)] run [OF d1(2)] unfolding env by (blast intro: reaches_trans)
qed

lemma example_breaks_run:
  obtains d where "example_breaks = Some d" "stranded later_port Epoch_ONE (pe_core (d West))"
    "stranded later_port Epoch_ONE (pe_core (d East))" "unsettled (pe_core (d West)) = 1" "unsettled (pe_core (d East)) = 0"
    "sent_in Epoch_ONE (d West) = [[7, 8]]" "received_in Epoch_ONE (d East) = []"
proof -
  have "\<exists>d. example_breaks = Some d \<and> stranded later_port Epoch_ONE (pe_core (d West)) \<and>
    stranded later_port Epoch_ONE (pe_core (d East)) \<and> unsettled (pe_core (d West)) = 1 \<and> unsettled (pe_core (d East)) = 0 \<and>
    sent_in Epoch_ONE (d West) = [[7, 8]] \<and> received_in Epoch_ONE (d East) = []"
    by (simp add: example_breaks_def example_greeting_def example_timers_def duo_new_def peer_new_def duo_eval core_eval
        pipe_eval close_links_def change_links_def transition_defs PING_INTERVAL_def upkeep_def stranded_def later_port_def
        unsettled_def get_outgoing_slices_def Connected_timer_def Deadline_poll_def Let_def)
  then show thesis using that by blast
qed

section \<open>Properties\<close>



end
