(* ===== verification/Backpressure.thy ===== *)
theory Backpressure
  imports Recovery
begin

text \<open>
  Two link sets joined by a pipe, with the channels at their size. A handler of the core waits inside
  \<open>send\<close> while the channel of the pipe is full, and until it has returned the core takes nothing from
  the channel of its readers; a reader task that finds that channel full waits as well, and then
  takes nothing from the pipe. So what is written to a link may wait in four places, and when all of
  them are full in both directions nothing moves any more.

  The core is the one of \<open>Link_Core\<close>. What a handler has written and the channel of the pipe has not
  taken is what \<open>written\<close> says: as long as there is something of that kind the handler has not
  returned. The users of both sides are taken to read what they are told at once.
\<close>

section \<open>Channels and tasks\<close>

definition PIPE_CAPACITY :: nat where
  "PIPE_CAPACITY = 1000"

definition READER_CAPACITY :: nat where
  "READER_CAPACITY = 10"

text \<open>
  One end: its core, the channel of the pipe that it reads from, what its reader task has read and not
  passed on, and the channel from the reader task to the core.
\<close>

record 'c berth =
  be_side :: "'c side"
  be_pipe :: "bytes list"
  be_hand :: "bytes option"
  be_rx :: "(u64 \<times> LinkProtocol) list"

type_synonym 'c dock = "endpoint \<Rightarrow> 'c berth"

definition in_handler :: "'c berth \<Rightarrow> bool" where
  "in_handler x = (written (be_side x) \<noteq> [])"

text \<open>The channel of the pipe takes the next of what a handler writes.\<close>

definition popped :: "'c side \<Rightarrow> 'c side" where
  "popped side = side\<lparr>co_state := links_change (\<lambda>l. l\<lparr>pl_tx := tl (pl_tx l)\<rparr>) (co_state side)\<rparr>"

inductive net_step :: "(endpoint \<Rightarrow> 'c port) \<Rightarrow> 'c dock \<Rightarrow> 'c dock \<Rightarrow> bool" for pts where
  net_push:
    "written (be_side (d s)) = b # bs \<Longrightarrow> length (be_pipe (d (other s))) < PIPE_CAPACITY \<Longrightarrow>
     net_step pts d (d(s := (d s)\<lparr>be_side := popped (be_side (d s))\<rparr>,
       other s := (d (other s))\<lparr>be_pipe := be_pipe (d (other s)) @ [b]\<rparr>))"
| net_read:
    "be_hand (d s) = None \<Longrightarrow> be_pipe (d s) = b # bs \<Longrightarrow>
     net_step pts d (d(s := (d s)\<lparr>be_hand := Some b, be_pipe := bs\<rparr>))"
| net_pass:
    "be_hand (d s) = Some b \<Longrightarrow> deserialize b = Inr (p, rest) \<Longrightarrow> length (be_rx (d s)) < READER_CAPACITY \<Longrightarrow>
     net_step pts d (d(s := (d s)\<lparr>be_hand := None, be_rx := be_rx (d s) @ [(po_id (pts s), p)]\<rparr>))"
| net_take:
    "\<not> in_handler (d s) \<Longrightarrow> be_rx (d s) = (i, p) # rx \<Longrightarrow>
     core_handle (port_env (pts s)) (be_side (d s)) (FromLink i p) = Some side \<Longrightarrow>
     net_step pts d (d(s := (d s)\<lparr>be_side := side, be_rx := rx\<rparr>))"

text \<open>And everything else that the loop of the core takes up: commands, the timer, debugging.\<close>

inductive dock_step :: "(endpoint \<Rightarrow> 'c port) \<Rightarrow> 'c dock \<Rightarrow> 'c dock \<Rightarrow> bool" for pts where
  dock_net: "net_step pts d d' \<Longrightarrow> dock_step pts d d'"
| dock_act:
    "\<not> in_handler (d s) \<Longrightarrow> \<forall>i p. ev \<noteq> FromLink i p \<Longrightarrow> core_enabled (port_env (pts s)) (be_side (d s)) ev \<Longrightarrow>
     core_handle (port_env (pts s)) (be_side (d s)) ev = Some side \<Longrightarrow>
     dock_step pts d (d(s := (d s)\<lparr>be_side := side\<rparr>))"

section \<open>When nothing moves\<close>

definition can_move :: "'c dock \<Rightarrow> endpoint \<Rightarrow> bool" where
  "can_move d s =
     (in_handler (d s) \<and> length (be_pipe (d (other s))) < PIPE_CAPACITY \<or>
      be_hand (d s) = None \<and> be_pipe (d s) \<noteq> [] \<or>
      be_hand (d s) \<noteq> None \<and> length (be_rx (d s)) < READER_CAPACITY \<or>
      \<not> in_handler (d s) \<and> be_rx (d s) \<noteq> [])"

definition within :: "'c berth \<Rightarrow> bool" where
  "within x = (length (be_pipe x) \<le> PIPE_CAPACITY \<and> length (be_rx x) \<le> READER_CAPACITY)"

definition at_rest :: "'c berth \<Rightarrow> bool" where
  "at_rest x = (\<not> in_handler x \<and> be_pipe x = [] \<and> be_hand x = None \<and> be_rx x = [])"

definition jammed :: "'c berth \<Rightarrow> bool" where
  "jammed x =
     (in_handler x \<and> length (be_pipe x) = PIPE_CAPACITY \<and> be_hand x \<noteq> None \<and> length (be_rx x) = READER_CAPACITY)"

lemma PIPE_CAPACITY_pos [simp]: "0 < PIPE_CAPACITY" "PIPE_CAPACITY \<noteq> 0"
  by (simp_all add: PIPE_CAPACITY_def)

lemma READER_CAPACITY_pos [simp]: "0 < READER_CAPACITY" "READER_CAPACITY \<noteq> 0"
  by (simp_all add: READER_CAPACITY_def)

lemma stalls_iff:
  assumes "\<forall>s. within (d s)"
  shows "(\<forall>s. \<not> can_move d s) \<longleftrightarrow> (\<forall>s. at_rest (d s)) \<or> (\<forall>s. jammed (d s))"
proof
  assume still: "\<forall>s. \<not> can_move d s"
  have one: "at_rest (d s) \<or> jammed (d s)" for s
  proof -
    have "\<not> can_move d s" "\<not> can_move d (other s)" "within (d s)" using still assms by auto
    then show ?thesis
      by (cases "be_hand (d s)"; cases "be_pipe (d s)")
         (auto simp: can_move_def at_rest_def jammed_def within_def)
  qed
  moreover have "\<not> (jammed (d s) \<and> at_rest (d (other s)))" for s
    using still [rule_format, of s] by (auto simp: can_move_def at_rest_def jammed_def)
  ultimately show "(\<forall>s. at_rest (d s)) \<or> (\<forall>s. jammed (d s))"
    unfolding endpoint_split [where s = West] by (metis other.simps)
next
  assume "(\<forall>s. at_rest (d s)) \<or> (\<forall>s. jammed (d s))"
  then show "\<forall>s. \<not> can_move d s" by (auto simp: can_move_def at_rest_def jammed_def)
qed

section \<open>What is on its way\<close>

text \<open>The work that a message stands for: the places it still has to pass, and the answer to it.\<close>

fun answers :: "LinkProtocol \<Rightarrow> nat" where
  "answers (MsgSlice _ _ _ _ _) = 4"
| "answers Ping = 4"
| "answers _ = 0"

definition effort :: "nat \<Rightarrow> LinkProtocol list \<Rightarrow> nat" where
  "effort k ps = (\<Sum>p\<leftarrow>ps. k + answers p)"

lemma effort_simps [simp]:
  "effort k [] = 0" "effort k (p # ps) = k + answers p + effort k ps" "effort k (ps @ qs) = effort k ps + effort k qs"
  by (simp_all add: effort_def)

text \<open>The same of the bytes of a message; the first of them says what it is.\<close>

definition byte_answers :: "bytes \<Rightarrow> nat" where
  "byte_answers b = (if b \<noteq> [] \<and> hd b \<in> {2, 3} then 4 else 0)"

definition plain_bytes :: "bytes \<Rightarrow> bool" where
  "plain_bytes b = (b \<noteq> [] \<longrightarrow> hd b \<noteq> 0)"

lemma serialize_answers [simp]: "byte_answers (serialize p) = answers p" "plain_bytes (serialize p) = plain p"
  by (cases p; simp add: byte_answers_def plain_bytes_def)+

lemma deserialize_answers:
  assumes "deserialize b = Inr (p, rest)"
  shows "answers p = byte_answers b" "plain_bytes b \<Longrightarrow> plain p"
  using assms
  by (auto simp: byte_answers_def plain_bytes_def deserialize_defs and_then_Inr pop_front_Inr split: if_splits)

definition berth_work :: "'c berth \<Rightarrow> nat" where
  "berth_work x =
     (\<Sum>b\<leftarrow>written (be_side x). 4 + byte_answers b) + (\<Sum>b\<leftarrow>be_pipe x. 3 + byte_answers b) +
     (case be_hand x of Some b \<Rightarrow> 2 + byte_answers b | None \<Rightarrow> 0) + (\<Sum>(_, p)\<leftarrow>be_rx x. 1 + answers p)"

definition dock_work :: "'c dock \<Rightarrow> nat" where
  "dock_work d = berth_work (d West) + berth_work (d East)"

text \<open>One end with a session, when nothing but messages of sessions is on its way.\<close>

definition berth_ok :: "'c port \<Rightarrow> Epoch \<Rightarrow> 'c berth \<Rightarrow> bool" where
  "berth_ok pt e x =
     ((\<exists>mm log ps. joined pt e mm log ps (be_side x) \<and> mm_epoch mm = e \<and> (\<forall>p \<in> set ps. plain p)) \<and>
      (\<forall>b \<in> set (be_pipe x) \<union> set_option (be_hand x). plain_bytes b) \<and>
      (\<forall>(i, p) \<in> set (be_rx x). i = po_id pt \<and> plain p) \<and> within x)"

lemma written_joined: "joined pt e mm log ps side \<Longrightarrow> written side = map serialize ps"
  by (auto simp: joined_def written_def wire_def wire_entry_def)

lemma popped_joined: "joined pt e mm log (p # ps) side \<Longrightarrow> joined pt e mm log ps (popped side)"
  by (auto simp: joined_def port_open_def popped_def wire_def wire_entry_def change_links_def map_tl)

text \<open>A core with a session answers a message with one at most, and that needs no answer.\<close>

lemma joined_answers:
  assumes j: "joined pt e mm log [] side" "mm_epoch mm = e" and p: "plain p"
    and h: "core_handle (port_env pt) side (FromLink (po_id pt) p) = Some side'"
  shows "\<exists>mm' log' ps. joined pt e mm' log' ps side' \<and> mm_epoch mm' = e \<and> (\<forall>q \<in> set ps. plain q) \<and> effort 4 ps \<le> answers p"
proof (cases p)
  case (MsgSlice epoch q n f d)
  show ?thesis
  proof (cases "epoch = to_int e")
    case True
    then have "\<exists>acks msgs mm'. receive_slice (po_oc pt) mm q f n d = Some (acks, msgs, mm')"
      using j(1) h MsgSlice by (auto simp: joined_def core_handle_def receive_slice_def Let_def split: bind_splits)
    then obtain acks msgs mm' where r: "receive_slice (po_oc pt) mm q f n d = Some (acks, msgs, mm')" by blast
    then have "\<exists>k i. acks = [] \<or> acks = [Ack (to_int e) k i]"
      using j(2) by (auto simp: receive_slice_def Let_def split: bind_splits if_splits dest!: recv_keeps)
    then show ?thesis
      using joined_slice [OF j r] h MsgSlice True receive_slice_epoch [OF r] j(2) by fastforce
  next
    case False
    then show ?thesis using j h MsgSlice by (auto simp: joined_def port_open_def core_handle_def intro!: exI [of _ "[]"])
  qed
next
  case (Ack epoch seq i)
  show ?thesis
  proof (cases "epoch = to_int e")
    case True
    then obtain mm' where r: "recv_ack (po_oc pt) mm (seq, i) = Some mm'"
      using j(1) h Ack by (auto simp: joined_def core_handle_def split: bind_splits)
    then show ?thesis
      using joined_ack [OF j(1) r] recv_ack_same_incoming [OF r] h Ack True j(2)
      by (fastforce simp: same_incoming_def)
  next
    case False
    then show ?thesis using j h Ack by (auto simp: joined_def port_open_def core_handle_def intro!: exI [of _ "[]"])
  qed
next
  case Ping
  then show ?thesis using joined_ping(1) [OF j(1)] h j(2) by fastforce
next
  case Pong
  then show ?thesis using joined_ping(2) [OF j(1)] h j(2) by fastforce
qed (use p in simp)

lemma dock_work_split: "dock_work d = berth_work (d s) + berth_work (d (other s))"
  by (cases s) (simp_all add: dock_work_def)

text \<open>A step at one end, and one that also puts something into the pipe towards the other.\<close>

lemma dock_update:
  assumes "\<forall>s. berth_ok (pts s) (es s) (d s)" "berth_ok (pts s) (es s) x" "berth_work x < berth_work (d s)"
  shows "(\<forall>t. berth_ok (pts t) (es t) ((d(s := x)) t)) \<and> dock_work (d(s := x)) < dock_work d"
  using assms by (simp add: dock_work_split [of _ s])

lemma push_ok:
  assumes ok: "\<forall>s. berth_ok (pts s) (es s) (d s)"
    and push: "written (be_side (d s)) = b # bs" "length (be_pipe (d (other s))) < PIPE_CAPACITY"
    and d': "d' = d(s := (d s)\<lparr>be_side := popped (be_side (d s))\<rparr>,
       other s := (d (other s))\<lparr>be_pipe := be_pipe (d (other s)) @ [b]\<rparr>)"
  shows "(\<forall>s. berth_ok (pts s) (es s) (d' s)) \<and> dock_work d' < dock_work d"
proof -
  have s: "berth_ok (pts s) (es s) (d s)" "berth_ok (pts (other s)) (es (other s)) (d (other s))" using ok by blast+
  then obtain mm log ps where j: "joined (pts s) (es s) mm log ps (be_side (d s))" "mm_epoch mm = es s" "\<forall>p \<in> set ps. plain p"
    by (auto simp: berth_ok_def)
  then obtain p ps' where ps: "ps = p # ps'" "b = serialize p" "bs = map serialize ps'"
    using push(1) written_joined [OF j(1)] by auto
  have j': "joined (pts s) (es s) mm log ps' (popped (be_side (d s)))" using popped_joined j(1) ps(1) by blast
  have "berth_ok (pts s) (es s) (d' s)" "berth_ok (pts (other s)) (es (other s)) (d' (other s))"
    using s j(2,3) j' ps push(2) by (auto simp: d' berth_ok_def within_def)
  then have "\<forall>s. berth_ok (pts s) (es s) (d' s)" unfolding endpoint_split [where s = s] by blast
  moreover have "dock_work d' < dock_work d"
    using written_joined [OF j'] push(1) ps by (simp add: d' dock_work_split [of _ s] berth_work_def)
  ultimately show ?thesis by blast
qed

lemma net_step_ok:
  assumes "net_step pts d d'" "\<forall>s. berth_ok (pts s) (es s) (d s)"
  shows "(\<forall>s. berth_ok (pts s) (es s) (d' s)) \<and> dock_work d' < dock_work d"
  using assms(1)
proof (cases rule: net_step.cases)
  case (net_push s b bs)
  then show ?thesis using push_ok [OF assms(2)] by blast
next
  case (net_read s b bs)
  have "berth_ok (pts s) (es s) (d s)" using assms(2) by blast
  with net_read show ?thesis by (simp only:) (intro dock_update assms(2); auto simp: berth_ok_def within_def berth_work_def)
next
  case (net_pass s b p rest)
  have "berth_ok (pts s) (es s) (d s)" using assms(2) by blast
  with net_pass deserialize_answers [OF net_pass(3)] show ?thesis
    by (simp only:) (intro dock_update assms(2); auto simp: berth_ok_def within_def berth_work_def)
next
  case (net_take s i p rx side)
  have ok: "berth_ok (pts s) (es s) (d s)" using assms(2) by blast
  then obtain mm log ps where j: "joined (pts s) (es s) mm log ps (be_side (d s))" "mm_epoch mm = es s"
    by (auto simp: berth_ok_def)
  moreover from this have "ps = []" using net_take(2) written_joined [OF j(1)] by (simp add: in_handler_def)
  moreover have "i = po_id (pts s)" "plain p" using ok net_take(3) by (auto simp: berth_ok_def)
  ultimately obtain mm' log' ps' where a: "joined (pts s) (es s) mm' log' ps' side" "mm_epoch mm' = es s"
    "\<forall>q \<in> set ps'. plain q" "effort 4 ps' \<le> answers p"
    using joined_answers [of "pts s" "es s" mm log "be_side (d s)" p side] net_take(4) by blast
  have "berth_ok (pts s) (es s) ((d s)\<lparr>be_side := side, be_rx := rx\<rparr>)"
    using ok a(1-3) net_take(3) by (auto simp: berth_ok_def within_def)
  moreover have "berth_work ((d s)\<lparr>be_side := side, be_rx := rx\<rparr>) < berth_work (d s)"
    using a(4) net_take(2,3) written_joined [OF a(1)]
    by (simp add: berth_work_def in_handler_def effort_def comp_def)
  ultimately show ?thesis unfolding net_take(1) by (intro dock_update assms(2))
qed

interpretation net: machine_progress "\<lambda>d. \<forall>s. berth_ok (pts s) (es s) (d s)" "net_step pts" "\<lambda>d. \<forall>s. berth_ok (pts s) (es s) (d s)" dock_work
  by unfold_locales (auto dest: net_step_ok)

section \<open>One direction\<close>

text \<open>
  The way from \<open>s\<close> to the other end: \<open>ps\<close> are still to be written, \<open>qs\<close> are in the pipe, \<open>h\<close> is with the
  reader task and \<open>rs\<close> are before the core. A step on one way leaves the other way alone.
\<close>

definition lane ::
  "(endpoint \<Rightarrow> 'c port) \<Rightarrow> Epoch \<Rightarrow> endpoint \<Rightarrow> LinkProtocol list \<Rightarrow> LinkProtocol list \<Rightarrow> LinkProtocol option \<Rightarrow>
   LinkProtocol list \<Rightarrow> 'c dock \<Rightarrow> bool" where
  "lane pts e s ps qs h rs d =
     ((\<exists>mm log. joined (pts s) e mm log ps (be_side (d s))) \<and> be_pipe (d (other s)) = map serialize qs \<and>
      be_hand (d (other s)) = map_option serialize h \<and> be_rx (d (other s)) = map (Pair (po_id (pts (other s)))) rs)"

definition same_lane :: "endpoint \<Rightarrow> 'c dock \<Rightarrow> 'c dock \<Rightarrow> bool" where
  "same_lane s d d' =
     (be_side (d' s) = be_side (d s) \<and> be_pipe (d' (other s)) = be_pipe (d (other s)) \<and>
      be_hand (d' (other s)) = be_hand (d (other s)) \<and> be_rx (d' (other s)) = be_rx (d (other s)))"

lemma same_lane_rules:
  "same_lane s d d" "same_lane s d d' \<Longrightarrow> same_lane s d' d'' \<Longrightarrow> same_lane s d d''"
  "same_lane s d d' \<Longrightarrow> lane pts e s ps qs h rs d' = lane pts e s ps qs h rs d"
  by (simp_all add: same_lane_def lane_def)

lemma lane_push:
  assumes "lane pts e s (p # ps) qs h rs d" "length qs < PIPE_CAPACITY"
  shows "\<exists>d'. net_step pts d d' \<and> lane pts e s ps (qs @ [p]) h rs d' \<and> same_lane (other s) d d'"
proof -
  obtain mm log where j: "joined (pts s) e mm log (p # ps) (be_side (d s))" using assms(1) by (auto simp: lane_def)
  let ?d = "d(s := (d s)\<lparr>be_side := popped (be_side (d s))\<rparr>,
       other s := (d (other s))\<lparr>be_pipe := be_pipe (d (other s)) @ [serialize p]\<rparr>)"
  have "net_step pts d ?d"
    by (rule net_push) (use written_joined [OF j] assms in \<open>auto simp: lane_def\<close>)
  moreover have "lane pts e s ps (qs @ [p]) h rs ?d" "same_lane (other s) d ?d"
    using popped_joined [OF j] assms(1) by (auto simp: lane_def same_lane_def)
  ultimately show ?thesis by blast
qed

lemma lane_read:
  assumes "lane pts e s ps (q # qs) None rs d"
  shows "\<exists>d'. net_step pts d d' \<and> lane pts e s ps qs (Some q) rs d' \<and> same_lane (other s) d d'"
proof -
  let ?d = "d(other s := (d (other s))\<lparr>be_hand := Some (serialize q), be_pipe := map serialize qs\<rparr>)"
  have "net_step pts d ?d" by (rule net_read) (use assms in \<open>auto simp: lane_def\<close>)
  moreover have "lane pts e s ps qs (Some q) rs ?d" "same_lane (other s) d ?d"
    using assms by (auto simp: lane_def same_lane_def)
  ultimately show ?thesis by blast
qed

lemma lane_pass:
  assumes "lane pts e s ps qs (Some q) rs d" "valid_proto q" "length rs < READER_CAPACITY"
  shows "\<exists>d'. net_step pts d d' \<and> lane pts e s ps qs None (rs @ [q]) d' \<and> same_lane (other s) d d'"
proof -
  let ?d = "d(other s := (d (other s))\<lparr>be_hand := None, be_rx := be_rx (d (other s)) @ [(po_id (pts (other s)), q)]\<rparr>)"
  have "net_step pts d ?d"
    by (rule net_pass) (use assms deserialize_serialize [OF assms(2), of "[]"] in \<open>auto simp: lane_def\<close>)
  moreover have "lane pts e s ps qs None (rs @ [q]) ?d" "same_lane (other s) d ?d"
    using assms by (auto simp: lane_def same_lane_def)
  ultimately show ?thesis by blast
qed

lemma lane_fill_rx:
  assumes "lane pts e s (xs @ ps) [] None rs d" "length rs + length xs \<le> READER_CAPACITY" "\<forall>p \<in> set xs. valid_proto p"
  shows "\<exists>d'. reaches (net_step pts) d d' \<and> lane pts e s ps [] None (rs @ xs) d' \<and> same_lane (other s) d d'"
  using assms
proof (induction xs arbitrary: rs d)
  case Nil
  then show ?case using reaches_refl same_lane_rules(1) by fastforce
next
  case (Cons x xs)
  obtain d1 where d1: "net_step pts d d1" "lane pts e s (xs @ ps) [x] None rs d1" "same_lane (other s) d d1"
    using lane_push [of pts e s x "xs @ ps" "[]" None rs d] Cons.prems(1) by auto
  obtain d2 where d2: "net_step pts d1 d2" "lane pts e s (xs @ ps) [] (Some x) rs d2" "same_lane (other s) d1 d2"
    using lane_read [OF d1(2)] by blast
  obtain d3 where d3: "net_step pts d2 d3" "lane pts e s (xs @ ps) [] None (rs @ [x]) d3" "same_lane (other s) d2 d3"
    using lane_pass [OF d2(2)] Cons.prems(2,3) by auto
  obtain d' where d': "reaches (net_step pts) d3 d'" "lane pts e s ps [] None ((rs @ [x]) @ xs) d'" "same_lane (other s) d3 d'"
    using Cons.IH [OF d3(2)] Cons.prems(2,3) by auto
  have "reaches (net_step pts) d d2" using d1(1) d2(1) by (rule reaches_two [of "net_step pts"])
  then have "reaches (net_step pts) d d3" using d3(1) by (rule reaches_step [of "net_step pts"])
  then have "reaches (net_step pts) d d'" by (rule reaches_trans [OF d'(1)])
  with d'(2) d1(3) d2(3) d3(3) d'(3) same_lane_rules(2) show ?case by (metis append_Cons append_Nil append_assoc)
qed

lemma lane_fill_pipe:
  assumes "lane pts e s (xs @ ps) qs h rs d" "length qs + length xs \<le> PIPE_CAPACITY"
  shows "\<exists>d'. reaches (net_step pts) d d' \<and> lane pts e s ps (qs @ xs) h rs d' \<and> same_lane (other s) d d'"
  using assms
proof (induction xs arbitrary: qs d)
  case Nil
  then show ?case using reaches_refl same_lane_rules(1) by fastforce
next
  case (Cons x xs)
  obtain d1 where d1: "net_step pts d d1" "lane pts e s (xs @ ps) (qs @ [x]) h rs d1" "same_lane (other s) d d1"
    using lane_push [of pts e s x "xs @ ps" qs h rs d] Cons.prems by auto
  obtain d' where d': "reaches (net_step pts) d1 d'" "lane pts e s ps ((qs @ [x]) @ xs) h rs d'" "same_lane (other s) d1 d'"
    using Cons.IH [OF d1(2)] Cons.prems(2) by auto
  have "reaches (net_step pts) d d1" using d1(1) by (rule reaches_one [of "net_step pts"])
  then have "reaches (net_step pts) d d'" by (rule reaches_trans [OF d'(1)])
  with d'(2) d1(3) d'(3) same_lane_rules(2) show ?case by (metis append_Cons append_Nil append_assoc)
qed

text \<open>A way takes this many messages and no more as long as the core at its end takes none.\<close>

definition LANE_CAPACITY :: nat where
  "LANE_CAPACITY = PIPE_CAPACITY + 1 + READER_CAPACITY"

lemma lane_fill:
  assumes "lane pts e s ps [] None [] d" "LANE_CAPACITY < length ps" "\<forall>p \<in> set ps. valid_proto p"
  shows "\<exists>d' rest qs q rs. reaches (net_step pts) d d' \<and> same_lane (other s) d d' \<and> lane pts e s rest qs (Some q) rs d' \<and>
    rest \<noteq> [] \<and> length qs = PIPE_CAPACITY \<and> length rs = READER_CAPACITY"
proof -
  define rs where "rs = take READER_CAPACITY ps"
  define qs where "qs = take PIPE_CAPACITY (drop (Suc READER_CAPACITY) ps)"
  define rest where "rest = drop LANE_CAPACITY ps"
  let ?q = "ps ! READER_CAPACITY"
  have len: "length rs = READER_CAPACITY" "length qs = PIPE_CAPACITY" "rest \<noteq> []"
    using assms(2) by (auto simp: rs_def qs_def rest_def LANE_CAPACITY_def)
  have "drop READER_CAPACITY ps = ?q # drop (Suc READER_CAPACITY) ps"
    using assms(2) by (intro Cons_nth_drop_Suc [symmetric]) (simp add: LANE_CAPACITY_def)
  moreover have "drop (Suc READER_CAPACITY) ps = qs @ rest"
    using append_take_drop_id [of PIPE_CAPACITY "drop (Suc READER_CAPACITY) ps"]
    by (simp add: qs_def rest_def LANE_CAPACITY_def add.commute)
  ultimately have ps: "ps = rs @ ?q # qs @ rest"
    using append_take_drop_id [of READER_CAPACITY ps] by (simp add: rs_def)
  obtain d1 where d1: "reaches (net_step pts) d d1" "lane pts e s (?q # qs @ rest) [] None rs d1" "same_lane (other s) d d1"
    using lane_fill_rx [of pts e s rs "?q # qs @ rest" "[]" d] assms(1,3) len(1) ps
    by (metis Un_iff append_Nil le_refl list.size(3) plus_nat.add_0 set_append)
  obtain d2 where d2: "net_step pts d1 d2" "lane pts e s (qs @ rest) [?q] None rs d2" "same_lane (other s) d1 d2"
    using lane_push [OF d1(2)] by auto
  obtain d3 where d3: "net_step pts d2 d3" "lane pts e s (qs @ rest) [] (Some ?q) rs d3" "same_lane (other s) d2 d3"
    using lane_read [OF d2(2)] by blast
  obtain d4 where d4: "reaches (net_step pts) d3 d4" "lane pts e s rest qs (Some ?q) rs d4" "same_lane (other s) d3 d4"
    using lane_fill_pipe [OF d3(2)] len(2) by auto
  have d13: "reaches (net_step pts) d1 d3" using d2(1) d3(1) by (rule reaches_two [of "net_step pts"])
  have "reaches (net_step pts) d d4" by (rule reaches_trans [OF d4(1) reaches_trans [OF d13 d1(1)]])
  moreover have "same_lane (other s) d d4" using d1(3) d2(3) d3(3) d4(3) same_lane_rules(2) by blast
  ultimately show ?thesis using d4(2) len by blast
qed

section \<open>A large message\<close>

text \<open>
  A core between two handlers, and a message that does not fit into one direction when it is cut into
  slices for the link.
\<close>

definition may_send :: "'c port \<Rightarrow> Epoch \<Rightarrow> 'c side \<Rightarrow> bool" where
  "may_send pt e side =
     (\<exists>mm log. joined pt e mm log [] side \<and> mm_epoch mm = e \<and> bt_wf (mm_outgoing_slices mm) \<and> mm_next_seq mm + 1 < u64_bound)"

definition large :: "'c port \<Rightarrow> bytes \<Rightarrow> bool" where
  "large pt m = (LANE_CAPACITY * (po_size pt - OVERHEAD) < length m \<and> length m \<le> isize_max)"

lemma concat_bound: "\<forall>p \<in> set ps. length (f p) \<le> n \<Longrightarrow> length (concat (map f ps)) \<le> length ps * n"
  by (induction ps) auto

lemma large_slices:
  assumes "large pt m" "0 < po_size pt - OVERHEAD" "po_size pt - OVERHEAD < u32_bound" "valid_epoch e" "seq < u64_bound"
  obtains ps where "get_slices oc (SliceManager_from_vec e seq m) (po_size pt - OVERHEAD) = Some ps"
    "LANE_CAPACITY < length ps" "\<forall>p \<in> set ps. valid_proto p"
proof -
  let ?sm = "SliceManager_from_vec e seq m" and ?n = "po_size pt - OVERHEAD"
  have sm: "sm_data ?sm = m" "sm_epoch ?sm = e" "sm_seq ?sm = seq" by (simp_all add: SliceManager_from_vec_def)
  have len: "0 < length (sm_data ?sm)" "length (sm_data ?sm) \<le> isize_max" using assms(1) sm by (auto simp: large_def)
  obtain ps where ps: "get_slices oc ?sm ?n = Some ps" "slice_chain (to_int e) seq m 0 ps (length m)"
    "\<forall>p \<in> set ps. length (slice_data p) \<le> ?n"
    using get_slices_chain [OF sends_from_vec [of e seq m] len(1) assms(2,3) len(2), of oc] sm by metis
  have "length m \<le> length ps * ?n"
    using concat_bound [OF ps(3)] slice_chain_concat [OF ps(2)] by simp
  then have "LANE_CAPACITY * ?n < length ps * ?n" using assms(1) unfolding large_def by linarith
  then have "LANE_CAPACITY < length ps" by simp
  moreover have "\<forall>p \<in> set ps. valid_proto p"
  proof
    fix p assume "p \<in> set ps"
    then obtain f d where p: "p = MsgSlice (to_int e) seq (length m) f d" "is_slice m f d"
      using slice_chain_slices [OF ps(2)] by blast
    moreover have "(isize_max :: nat) < u64_bound" by simp
    ultimately show "valid_proto p" using assms(4,5) len(2) sm(1) by (auto simp: is_slice_def valid_epoch_def)
  qed
  ultimately show thesis using that ps(1) by blast
qed

lemma large_written:
  assumes "may_send pt e side" "large pt m" "valid_epoch e"
  shows "\<exists>side' mm log ps. core_handle (port_env pt) side (FromCtrl (Command (CmdMessage m None))) = Some side' \<and>
    joined pt e mm log ps side' \<and> LANE_CAPACITY < length ps \<and> (\<forall>p \<in> set ps. valid_proto p)"
proof -
  obtain mm log where j: "joined pt e mm log [] side" "mm_epoch mm = e" "bt_wf (mm_outgoing_slices mm)" "mm_next_seq mm + 1 < u64_bound"
    using assms(1) by (auto simp: may_send_def)
  have size: "0 < po_size pt - OVERHEAD" "po_size pt - OVERHEAD < u32_bound" using joined_size [OF j(1)] by simp_all
  have "mm_next_seq mm < u64_bound" using j(4) by simp
  from large_slices [OF assms(2) size assms(3) this] obtain ps where
    ps: "get_slices (po_oc pt) (SliceManager_from_vec e (mm_next_seq mm) m) (po_size pt - OVERHEAD) = Some ps"
    "LANE_CAPACITY < length ps" "\<forall>p \<in> set ps. valid_proto p" .
  let ?mm = "mm\<lparr>mm_next_seq := mm_next_seq mm + 1, mm_outgoing_slices :=
    bt_insert (mm_next_seq mm) (SliceManager_from_vec e (mm_next_seq mm) m) (mm_outgoing_slices mm)\<rparr>"
  have "insert_msg (po_oc pt) mm m = Some (mm_next_seq mm, ?mm)" using j(2,4) by (simp add: insert_msg_def add_u64_def Let_def)
  moreover have "get_outgoing_slice ?mm (mm_next_seq mm) = Some (SliceManager_from_vec e (mm_next_seq mm) m)"
    using j(3) by (simp add: get_outgoing_slice_def bt_get_insert)
  ultimately show ?thesis using joined_send [OF j(1) _ _ ps(1)] ps(2,3) by fastforce
qed

lemma jammed_stuck:
  assumes jam: "\<forall>s. jammed (d s)"
  shows "\<not> dock_step pts d d'"
proof
  assume "dock_step pts d d'"
  then show False
  proof (cases rule: dock_step.cases)
    case dock_net
    then show ?thesis
    proof (cases rule: net_step.cases)
      case (net_push s b bs)
      then show ?thesis using jam [rule_format, of "other s"] by (simp add: jammed_def)
    next
      case (net_read s b bs)
      then show ?thesis using jam [rule_format, of s] by (simp add: jammed_def)
    next
      case (net_pass s b p rest)
      then show ?thesis using jam [rule_format, of s] by (simp add: jammed_def)
    next
      case (net_take s i p rx side)
      then show ?thesis using jam [rule_format, of s] by (simp add: jammed_def)
    qed
  next
    case (dock_act s ev side)
    then show ?thesis using jam [rule_format, of s] by (simp add: jammed_def)
  qed
qed

lemma lane_jammed:
  assumes "lane pts e s ps qs (Some q) rs d" "lane pts e' (other s) ps' qs' h' rs' d" "ps' \<noteq> []"
    "length qs = PIPE_CAPACITY" "length rs = READER_CAPACITY"
  shows "jammed (d (other s))"
proof -
  have "written (be_side (d (other s))) = map serialize ps'" using assms(2) written_joined by (auto simp: lane_def)
  then show ?thesis using assms by (simp add: jammed_def in_handler_def lane_def)
qed

lemma net_reaches_dock: "reaches (net_step pts) d d' \<Longrightarrow> reaches (dock_step pts) d d'"
  by (induction rule: reaches.induct) (auto intro: reaches.intros dock_net)

section \<open>An example\<close>

text \<open>Two link sets that are connected by a pipe for one byte at a time.\<close>

definition narrow_port :: "unit port" where
  "narrow_port = example_port\<lparr>po_size := 57\<rparr>"

definition narrow_end :: "u32 \<Rightarrow> PipeLink" where
  "narrow_end n = (pair_end [] n)\<lparr>pl_max_size := 57\<rparr>"

definition moored :: "'c side \<Rightarrow> bytes list \<Rightarrow> 'c berth" where
  "moored side bs = \<lparr>be_side = side, be_pipe = bs, be_hand = None, be_rx = []\<rparr>"

lemma narrow_session:
  obtains a b where "joined narrow_port Epoch_ONE (MessageManager_new Epoch_ONE) [InnerConnected Epoch_ONE] [] a"
    "joined narrow_port Epoch_ONE (MessageManager_new Epoch_ONE) [InnerConnected Epoch_ONE] [] b"
proof -
  have d: "disconnected_side narrow_port None [] core_new"
    using example_sides(1) by (simp add: disconnected_side_def narrow_port_def)
  have f: "fresh_pipe narrow_port (narrow_end n)" for n
    by (simp add: fresh_pipe_def narrow_port_def narrow_end_def pair_end_def OVERHEAD_def)
  have "valid_opt_epoch None" "agreed None None = Epoch_ONE" by (simp_all add: valid_opt_epoch_def agreed_def)
  with handshake [OF d f [of 1] _ d f [of 2] _ refl] that show thesis by auto
qed

lemma narrow_may_send:
  "joined pt e (MessageManager_new e) log [] side \<Longrightarrow> may_send pt e side"
  unfolding may_send_def by (intro exI [of _ "MessageManager_new e"] exI [of _ log]) (simp add: MessageManager_new_def bt_wf_def)

section \<open>Properties\<close>

text \<open>
  C19: two link sets can stop for ever. If both users send a message that is cut into more slices than
  one direction of the pipe can hold, then both cores may end up writing to a full channel, each
  waiting for the other to read, and no core, reader task, command or timer moves any more.
\<close>

theorem large_messages_deadlock:
  assumes "\<forall>s. may_send (pts s) e (be_side (d s))" "\<forall>s. at_rest (d s)" "\<forall>s. large (pts s) (m s)" "valid_epoch e"
  shows "\<exists>a b d'. core_handle (port_env (pts West)) (be_side (d West)) (FromCtrl (Command (CmdMessage (m West) None))) = Some a \<and>
    core_handle (port_env (pts East)) (be_side (d East)) (FromCtrl (Command (CmdMessage (m East) None))) = Some b \<and>
    reaches (dock_step pts) (d(West := (d West)\<lparr>be_side := a\<rparr>, East := (d East)\<lparr>be_side := b\<rparr>)) d' \<and>
    (\<forall>s. jammed (d' s)) \<and> (\<forall>d''. \<not> dock_step pts d' d'')"
proof -
  have "\<exists>side' mm log ps. core_handle (port_env (pts s)) (be_side (d s)) (FromCtrl (Command (CmdMessage (m s) None))) = Some side' \<and>
    joined (pts s) e mm log ps side' \<and> LANE_CAPACITY < length ps \<and> (\<forall>p \<in> set ps. valid_proto p)" for s
    using large_written assms by blast
  then obtain a mma la psa b mmb lb psb where
    a: "core_handle (port_env (pts West)) (be_side (d West)) (FromCtrl (Command (CmdMessage (m West) None))) = Some a"
      "joined (pts West) e mma la psa a" "LANE_CAPACITY < length psa" "\<forall>p \<in> set psa. valid_proto p" and
    b: "core_handle (port_env (pts East)) (be_side (d East)) (FromCtrl (Command (CmdMessage (m East) None))) = Some b"
      "joined (pts East) e mmb lb psb b" "LANE_CAPACITY < length psb" "\<forall>p \<in> set psb. valid_proto p"
    by metis
  let ?d = "d(West := (d West)\<lparr>be_side := a\<rparr>, East := (d East)\<lparr>be_side := b\<rparr>)"
  have rest: "be_pipe (d s) = []" "be_hand (d s) = None" "be_rx (d s) = []" for s using assms(2) by (simp_all add: at_rest_def)
  have lanes: "lane pts e West psa [] None [] ?d" "lane pts e East psb [] None [] ?d"
    using a(2) b(2) rest by (auto simp: lane_def)
  from lane_fill [OF lanes(1) a(3,4)] obtain d1 ra qa ha sa where d1: "reaches (net_step pts) ?d d1"
    "same_lane East ?d d1" "lane pts e West ra qa (Some ha) sa d1" "ra \<noteq> []" "length qa = PIPE_CAPACITY" "length sa = READER_CAPACITY"
    by (simp only: other.simps) blast
  have "lane pts e East psb [] None [] d1" using lanes(2) same_lane_rules(3) [OF d1(2)] by blast
  from lane_fill [OF this b(3,4)] obtain d2 rb qb hb sb where d2: "reaches (net_step pts) d1 d2"
    "same_lane West d1 d2" "lane pts e East rb qb (Some hb) sb d2" "rb \<noteq> []" "length qb = PIPE_CAPACITY" "length sb = READER_CAPACITY"
    by (simp only: other.simps) blast
  have west: "lane pts e West ra qa (Some ha) sa d2" using d1(3) same_lane_rules(3) [OF d2(2)] by blast
  have "jammed (d2 (other West))" by (rule lane_jammed [OF west _ d2(4) d1(5,6)]) (use d2(3) in simp)
  moreover have "jammed (d2 (other East))" by (rule lane_jammed [OF d2(3) _ d1(4) d2(5,6)]) (use west in simp)
  ultimately have jam: "\<forall>s. jammed (d2 s)" unfolding endpoint_split [where s = West] by simp
  have "reaches (dock_step pts) ?d d2" by (rule net_reaches_dock [OF reaches_trans [OF d2(1) d1(1)]])
  with a(1) b(1) jam jammed_stuck [OF jam] show ?thesis by blast
qed

lemma large_messages_deadlock_witness:
  "\<exists>x y a b d'.
    core_handle (port_env narrow_port) x (FromCtrl (Command (CmdMessage (replicate 1012 7) None))) = Some a \<and>
    core_handle (port_env narrow_port) y (FromCtrl (Command (CmdMessage (replicate 1012 8) None))) = Some b \<and>
    reaches (dock_step (\<lambda>_. narrow_port)) ((case_endpoint (moored x []) (moored y []))
      (West := (moored x [])\<lparr>be_side := a\<rparr>, East := (moored y [])\<lparr>be_side := b\<rparr>)) d' \<and>
    (\<forall>s. jammed (d' s)) \<and> (\<forall>d''. \<not> dock_step (\<lambda>_. narrow_port) d' d'')"
proof -
  obtain x y where j: "joined narrow_port Epoch_ONE (MessageManager_new Epoch_ONE) [InnerConnected Epoch_ONE] [] x"
    "joined narrow_port Epoch_ONE (MessageManager_new Epoch_ONE) [InnerConnected Epoch_ONE] [] y"
    by (rule narrow_session)
  let ?d = "case_endpoint (moored x []) (moored y [])" and ?m = "case_endpoint (replicate 1012 7) (replicate 1012 8)"
  have "\<forall>s. may_send narrow_port Epoch_ONE (be_side (?d s))"
    using narrow_may_send [OF j(1)] narrow_may_send [OF j(2)] by (simp add: moored_def split: endpoint.split)
  moreover have "\<forall>s. at_rest (?d s)"
    using written_joined [OF j(1)] written_joined [OF j(2)] by (simp add: moored_def at_rest_def in_handler_def split: endpoint.split)
  moreover have "\<forall>s. large narrow_port (?m s)"
    by (simp add: large_def LANE_CAPACITY_def PIPE_CAPACITY_def READER_CAPACITY_def narrow_port_def OVERHEAD_def split: endpoint.split)
  moreover have "valid_epoch Epoch_ONE" by (simp add: valid_epoch_def Epoch_ONE_def)
  ultimately have "\<exists>a b d'. core_handle (port_env narrow_port) (be_side (?d West)) (FromCtrl (Command (CmdMessage (?m West) None))) = Some a \<and>
    core_handle (port_env narrow_port) (be_side (?d East)) (FromCtrl (Command (CmdMessage (?m East) None))) = Some b \<and>
    reaches (dock_step (\<lambda>_. narrow_port)) (?d(West := (?d West)\<lparr>be_side := a\<rparr>, East := (?d East)\<lparr>be_side := b\<rparr>)) d' \<and>
    (\<forall>s. jammed (d' s)) \<and> (\<forall>d''. \<not> dock_step (\<lambda>_. narrow_port) d' d'')"
    by (rule large_messages_deadlock)
  then show ?thesis by (simp add: moored_def) blast
qed



end
