(* ===== verification/Timeouts.thy ===== *)
theory Timeouts
  imports Lifecycle
begin

text \<open>
  A link set that has been left alone: its links have closed, nobody connects and the user does
  nothing, so that only the timer of the core goes off, some time after its deadline. It loses its
  links, tries to get new ones for as long as the timeouts say, and gives up.
\<close>

section \<open>Left alone\<close>

text \<open>
  The timer goes off \<open>lag\<close> after its deadline, for each of the lags, unless it has been switched off.
  The instants at which it did are returned with the core.
\<close>

fun left_alone :: "('l, 'c) env \<Rightarrow> ('l, 'c) core \<Rightarrow> Duration list \<Rightarrow> (('l, 'c) core \<times> Instant list) option" where
  "left_alone env core [] = Some (core, [])"
| "left_alone env core (lag # lags) =
     (case dl_deadline (cs_timer (co_common core)) of
        None \<Rightarrow> Some (core, [])
      | Some due \<Rightarrow>
          do { core \<leftarrow> core_handle (env\<lparr>en_now := due + lag\<rparr>) core TimerReady;
               (core, fired) \<leftarrow> left_alone env core lags;
               Some (core, (due + lag) # fired) })"

definition all_closed :: "'l Link \<Rightarrow> bool" where
  "all_closed L = (\<forall>l. fst (li_is_closed L l))"

text \<open>How often the timer may go off until the link set is disconnected, and for how long it may try.\<close>

fun turns_left :: "phase \<Rightarrow> nat" where
  "turns_left Ph_Disconnected = 0"
| "turns_left Ph_Connecting = 1"
| "turns_left Ph_Connected = 3"
| "turns_left _ = 2"

fun time_left :: "Duration \<Rightarrow> Duration \<Rightarrow> Duration \<Rightarrow> phase \<Rightarrow> Duration" where
  "time_left c r g Ph_Disconnected = 0"
| "time_left c r g Ph_Connecting = 0"
| "time_left c r g Ph_Connected = max r g + c"
| "time_left c r g _ = c"

lemma turns_left_pos: "ph \<noteq> Ph_Disconnected \<Longrightarrow> 0 < turns_left ph"
  by (cases ph) simp_all

definition timeouts :: "Duration \<Rightarrow> Duration \<Rightarrow> Duration \<Rightarrow> CommonState \<Rightarrow> bool" where
  "timeouts c r g common =
     (cs_connecting_timeout common = Some c \<and> cs_reconnecting_timeout common = Some r \<and>
      cs_grace_period_timeout common = Some g)"

lemma upkeep_all_closed: "all_closed L \<Longrightarrow> upkeep L lm = lm\<lparr>lm_links := []\<rparr>"
proof -
  assume closed: "all_closed L"
  have "upkeep_loop L es = []" for es
    using closed by (induction es) (auto simp: all_closed_def LinkEntry_is_closed_def case_prod_unfold)
  then show ?thesis by (simp add: upkeep_def)
qed

lemmas timer_defs = core_handle_def timeouts_def on_timer_def to_ctrl_def set_active_def determine_timer_def
  Disconnected_from_Connecting_def Disconnected_from_EpochMismatch_def Disconnected_from_Connected_def
  Disconnected_from_Reconnecting_def Disconnected_from_GracePeriod_def
  Connecting_from_EpochMismatch_def Connecting_from_Reconnecting_def Connecting_from_GracePeriod_def
  Reconnecting_from_Connected_def GracePeriod_from_Connected_def
  Connecting_timer_def EpochMismatch_timer_def Connected_timer_def Reconnecting_timer_def GracePeriod_timer_def
  determine_state_def LinkManager_is_empty_def ping_all_def deadline_defs

text \<open>One time the timer goes off.\<close>

definition turned :: "Duration \<Rightarrow> Duration \<Rightarrow> Duration \<Rightarrow> Instant \<Rightarrow> phase \<Rightarrow> ('l, 'c) core \<Rightarrow> bool" where
  "turned c r g now ph core =
     (timeouts c r g (co_common core) \<and>
      (if phase_of (co_state core) = Ph_Disconnected then \<not> has_deadline (cs_timer (co_common core))
       else turns_left (phase_of (co_state core)) < turns_left ph \<and>
         (\<exists>due. dl_deadline (cs_timer (co_common core)) = Some due \<and>
           due + time_left c r g (phase_of (co_state core)) \<le> now + time_left c r g ph)))"

lemma timer_turn:
  assumes "all_closed (en_link env)" "timeouts c r g (co_common core)" "phase_of (co_state core) \<noteq> Ph_Disconnected"
  shows "\<exists>core'. core_handle env core TimerReady = Some core' \<and> turned c r g (en_now env) (phase_of (co_state core)) core'"
proof -
  have "case core_handle env core TimerReady of
      Some core' \<Rightarrow> turned c r g (en_now env) (phase_of (co_state core)) core' | None \<Rightarrow> False"
    using assms
    by (cases "co_state core")
       (simp_all add: timer_defs turned_def upkeep_all_closed case_prod_unfold Let_def split: list.split)
  then show ?thesis by (auto split: option.splits)
qed

lemma left_alone_disconnected:
  "\<not> has_deadline (cs_timer (co_common core)) \<Longrightarrow> left_alone env core lags = Some (core, [])"
  by (cases lags) (simp_all add: has_deadline_def)

lemma left_alone_ends:
  assumes "all_closed (en_link env)" "timeouts c r g (co_common core)" "phase_of (co_state core) \<noteq> Ph_Disconnected"
    "dl_deadline (cs_timer (co_common core)) = Some due" "turns_left (phase_of (co_state core)) \<le> length lags"
  shows "\<exists>core' fired. left_alone env core lags = Some (core', fired) \<and> phase_of (co_state core') = Ph_Disconnected \<and>
    \<not> has_deadline (cs_timer (co_common core')) \<and> length fired \<le> turns_left (phase_of (co_state core)) \<and>
    (\<forall>t \<in> set fired. t \<le> due + time_left c r g (phase_of (co_state core)) + sum_list lags)"
  using assms
proof (induction lags arbitrary: core due)
  case (Cons lag lags)
  let ?ph = "phase_of (co_state core)"
  obtain core1 where core1: "core_handle (env\<lparr>en_now := due + lag\<rparr>) core TimerReady = Some core1"
    "turned c r g (due + lag) ?ph core1"
    using timer_turn [of "env\<lparr>en_now := due + lag\<rparr>" c r g core] Cons.prems by auto
  show ?case
  proof (cases "phase_of (co_state core1) = Ph_Disconnected")
    case True
    then have "\<not> has_deadline (cs_timer (co_common core1))" using core1(2) by (simp add: turned_def)
    then show ?thesis
      using core1(1) True Cons.prems(3,4) by (simp add: left_alone_disconnected turns_left_pos Suc_le_eq)
  next
    case False
    then obtain due1 where due1: "dl_deadline (cs_timer (co_common core1)) = Some due1" "timeouts c r g (co_common core1)"
      "turns_left (phase_of (co_state core1)) < turns_left ?ph"
      "due1 + time_left c r g (phase_of (co_state core1)) \<le> due + lag + time_left c r g ?ph"
      using core1(2) by (auto simp: turned_def)
    have "turns_left (phase_of (co_state core1)) \<le> length lags" using due1(3) Cons.prems(5) by simp
    from Cons.IH [OF Cons.prems(1) due1(2) False due1(1) this] show ?thesis
      using core1(1) Cons.prems(4) due1(3,4) by (fastforce dest: add_mono)
  qed
qed (use turns_left_pos in fastforce)

text \<open>Links like those of the example that have closed since.\<close>

definition example_dead :: "unit Link" where
  "example_dead = (example_link 100)\<lparr>li_is_closed := (\<lambda>l. (True, l))\<rparr>"

section \<open>Properties\<close>

text \<open>
  C18: a link set does not try for ever. When its links have closed and it is left alone, then the
  timer goes off at most three times, the link set ends up disconnected with its timer switched off,
  and that is not later than the timeouts together allow after the next deadline, apart from
  the lags of the timer.
\<close>

theorem gives_up:
  assumes "all_closed (en_link env)" "timeouts c r g (co_common core)" "phase_of (co_state core) \<noteq> Ph_Disconnected"
    "dl_deadline (cs_timer (co_common core)) = Some due"
  shows "\<exists>core' fired. left_alone env core [lag1, lag2, lag3] = Some (core', fired) \<and>
    phase_of (co_state core') = Ph_Disconnected \<and> \<not> has_deadline (cs_timer (co_common core')) \<and>
    (\<forall>t \<in> set fired. t \<le> due + max r g + c + lag1 + lag2 + lag3)"
proof -
  have "turns_left (phase_of (co_state core)) \<le> length [lag1, lag2, lag3]"
    "time_left c r g (phase_of (co_state core)) \<le> max r g + c"
    by (cases "phase_of (co_state core)"; simp)+
  with left_alone_ends [OF assms this(1)] show ?thesis by (fastforce dest: add_mono)
qed

lemma gives_up_witness:
  "\<exists>core core' fired. core_run example_env core_new example_events = Some core \<and> phase_of (co_state core) = Ph_Connected \<and>
    left_alone (example_env\<lparr>en_link := example_dead\<rparr>) core [5, 0, 7] = Some (core', fired) \<and>
    phase_of (co_state core') = Ph_Disconnected \<and> \<not> has_deadline (cs_timer (co_common core')) \<and>
    list_all (\<lambda>t. t \<le> 5000000002 + max 0 0 + 60000000000 + 5 + 0 + 7) fired"
proof -
  have "\<exists>core. core_run example_env core_new example_events = Some core \<and> phase_of (co_state core) = Ph_Connected \<and>
      timeouts 60000000000 0 0 (co_common core) \<and> dl_deadline (cs_timer (co_common core)) = Some 5000000002"
    by (simp add: example_events_def core_eval timeouts_def)
  then obtain core where core: "core_run example_env core_new example_events = Some core"
    "phase_of (co_state core) = Ph_Connected" "timeouts 60000000000 0 0 (co_common core)"
    "dl_deadline (cs_timer (co_common core)) = Some 5000000002"
    by blast
  have "all_closed (en_link (example_env\<lparr>en_link := example_dead\<rparr>))" by (simp add: all_closed_def example_dead_def)
  from gives_up [OF this core(3) _ core(4), of 5 0 7] core(2)
  obtain core' fired where "left_alone (example_env\<lparr>en_link := example_dead\<rparr>) core [5, 0, 7] = Some (core', fired)"
    "phase_of (co_state core') = Ph_Disconnected" "\<not> has_deadline (cs_timer (co_common core'))"
    "\<forall>t \<in> set fired. t \<le> 5000000002 + max 0 0 + 60000000000 + 5 + 0 + 7"
    by auto
  with core(1,2) show ?thesis unfolding list_all_iff by blast
qed

end
