(* ===== verification/Link_Set.thy ===== *)
theory Link_Set
  imports Lifecycle
begin

text \<open>
  \<^verbatim>\<open>src/src/link_set\<close> and \<^verbatim>\<open>src/src/debug.rs\<close>: the handles through which a user drives the core, and
  the task, channels and shared cells between them and the core.

  \<open>world\<close> holds what is shared. The messages of the core to the user that wait in the channel are those
  of its log that have not been received yet. The capacities of the channels are in \<open>Channels\<close>. The
  lock of the epoch is held for an assignment at a time, so it is never poisoned. What a handler
  sends before it panics is left out.
\<close>

section \<open>Messages of the user\<close>

text \<open>\<open>LinkSetSendable\<close>, and its implementation for everything that \<open>bincode\<close> encodes and decodes.\<close>

record 'm sendable =
  se_to_bytes :: "'m \<Rightarrow> boxed_error + bytes"
  se_from_bytes :: "bytes \<Rightarrow> boxed_error + 'm"

datatype 'e SerdeError = SerdeEncode 'e | SerdeDecode 'e | SerdeDecodeOther string

definition serde_to_bytes :: "('m \<Rightarrow> 'e + bytes) \<Rightarrow> 'm \<Rightarrow> 'e SerdeError + bytes" where
  "serde_to_bytes encode_to_vec msg = map_err SerdeEncode (encode_to_vec msg)"

definition serde_from_bytes :: "(bytes \<Rightarrow> 'e + 'm \<times> nat) \<Rightarrow> bytes \<Rightarrow> 'e SerdeError + 'm" where
  "serde_from_bytes decode_from_slice bs =
     and_then (map_err SerdeDecode (decode_from_slice bs)) (\<lambda>(msg, len).
       if len < length bs
       then Inl (SerdeDecodeOther ''Deserialization finished, but there are more bytes'')
       else Inr msg)"

definition serde_sendable ::
  "('e SerdeError \<Rightarrow> boxed_error) \<Rightarrow> ('m \<Rightarrow> 'e + bytes) \<Rightarrow> (bytes \<Rightarrow> 'e + 'm \<times> nat) \<Rightarrow> 'm sendable" where
  "serde_sendable show_error encode_to_vec decode_from_slice =
     \<lparr>se_to_bytes = (\<lambda>msg. map_err show_error (serde_to_bytes encode_to_vec msg)),
      se_from_bytes = (\<lambda>bs. map_err show_error (serde_from_bytes decode_from_slice bs))\<rparr>"

datatype 'm LinkSetMessage =
    Msg_Disconnected
  | Msg_Connected Epoch
  | Msg_AttemptingConnection bool
  | Msg_Message 'm Epoch

fun LinkSetMessage_try_from :: "'m sendable \<Rightarrow> LinkSetMessageInner \<Rightarrow> 'm LinkSetMessage LinkSetResult" where
  "LinkSetMessage_try_from S InnerDisconnected = Inr Msg_Disconnected"
| "LinkSetMessage_try_from S (InnerConnected epoch) = Inr (Msg_Connected epoch)"
| "LinkSetMessage_try_from S (InnerAttemptingConnection is_connecting) = Inr (Msg_AttemptingConnection is_connecting)"
| "LinkSetMessage_try_from S (InnerMessage bs epoch) =
     and_then (map_err SendableDeserialization (se_from_bytes S bs)) (\<lambda>m. Inr (Msg_Message m epoch))"

section \<open>What the handles share with the core\<close>

text \<open>
  A handle is known by whether it has the receiving end of the channel from the core; \<open>wd_reader\<close> is
  whether a \<open>LinkSetReader\<close> has it. \<open>wd_senders\<close> counts the senders of the channel to the core, and
  \<open>wd_debug\<close> is whether the core listens to a debug channel.
\<close>

datatype LinkSet = LinkSet (has_from_core: bool)

record ('l, 'c) world =
  wd_core :: "('l, 'c) core"
  wd_running :: bool
  wd_to_core :: "('l, 'c) LinkSetControl list"
  wd_senders :: nat
  wd_received :: nat
  wd_epoch :: "Epoch option"
  wd_handles :: "LinkSet list"
  wd_reader :: bool
  wd_debug :: bool

definition from_core_queue :: "('l, 'c) world \<Rightarrow> LinkSetMessageInner list" where
  "from_core_queue w = drop (wd_received w) (cs_to_ctrl (co_common (wd_core w)))"

text \<open>A receive that returns a message, that finds the channel closed, or that waits.\<close>

datatype 'a received = Got 'a | Gone | Wait

definition from_core_recv :: "('l, 'c) world \<Rightarrow> LinkSetMessageInner received \<times> ('l, 'c) world" where
  "from_core_recv w =
     (case from_core_queue w of
        msg # _ \<Rightarrow> (Got msg, w\<lparr>wd_received := wd_received w + 1\<rparr>)
      | [] \<Rightarrow> (if wd_running w then Wait else Gone, w))"

definition from_ctrl_recv :: "('l, 'c) world \<Rightarrow> ('l, 'c) LinkSetControl received \<times> ('l, 'c) world" where
  "from_ctrl_recv w =
     (case wd_to_core w of
        msg # q \<Rightarrow> (Got msg, w\<lparr>wd_to_core := q\<rparr>)
      | [] \<Rightarrow> (if wd_senders w = 0 then Gone else Wait, w))"

definition to_core_send :: "('l, 'c) LinkSetControl \<Rightarrow> ('l, 'c) world \<Rightarrow> unit LinkSetResult \<times> ('l, 'c) world" where
  "to_core_send msg w =
     (if wd_running w then (Inr (), w\<lparr>wd_to_core := wd_to_core w @ [msg]\<rparr>) else (Inl Terminated, w))"

section \<open>The handle\<close>

text \<open>\<open>start_core\<close> keeps one sender and returns the other.\<close>

definition start_core :: "bool \<Rightarrow> ('l, 'c) world" where
  "start_core debug_channel =
     \<lparr>wd_core = core_new, wd_running = True, wd_to_core = [], wd_senders = 2, wd_received = 0, wd_epoch = None,
      wd_handles = [], wd_reader = False, wd_debug = debug_channel\<rparr>"

definition LinkSet_new :: "('l, 'c) world" where
  "LinkSet_new = (start_core False)\<lparr>wd_handles := [LinkSet True]\<rparr>"

definition LinkSet_new_debug :: "('l, 'c) world" where
  "LinkSet_new_debug = (start_core True)\<lparr>wd_handles := [LinkSet True]\<rparr>"

definition is_terminated :: "('l, 'c) world \<Rightarrow> bool" where
  "is_terminated w = (\<not> wd_running w)"

definition from_core_done :: "('l, 'c) world \<Rightarrow> bool" where
  "from_core_done w = (\<not> wd_running w \<and> from_core_queue w = [])"

definition current_epoch :: "LinkSet \<Rightarrow> ('l, 'c) world \<Rightarrow> Epoch option" where
  "current_epoch h w = (if has_from_core h \<and> from_core_done w then None else wd_epoch w)"

definition is_active :: "('l, 'c) world \<Rightarrow> bool" where
  "is_active w = (cs_is_active (co_common (wd_core w)) \<and> \<not> is_terminated w)"

definition LinkSet_connect :: "('l, 'c) world \<Rightarrow> unit LinkSetResult \<times> ('l, 'c) world" where
  "LinkSet_connect w = to_core_send (Command CmdConnect) w"

definition LinkSet_disconnect :: "('l, 'c) world \<Rightarrow> unit LinkSetResult \<times> ('l, 'c) world" where
  "LinkSet_disconnect w = to_core_send (Command CmdDisconnect) w"

definition LinkSet_add_connector :: "'c \<Rightarrow> ('l, 'c) world \<Rightarrow> unit LinkSetResult \<times> ('l, 'c) world" where
  "LinkSet_add_connector conn w = to_core_send (Command (CmdAddConnector conn)) w"

definition set_auto_connect :: "bool \<Rightarrow> ('l, 'c) world \<Rightarrow> unit LinkSetResult \<times> ('l, 'c) world" where
  "set_auto_connect reconnect w = to_core_send (Config (AutoConnect reconnect)) w"

definition set_connection_timeout :: "Duration option \<Rightarrow> ('l, 'c) world \<Rightarrow> unit LinkSetResult \<times> ('l, 'c) world" where
  "set_connection_timeout timeout w = to_core_send (Config (ConnectTimeout timeout)) w"

definition set_reconnection_timeout :: "Duration option \<Rightarrow> ('l, 'c) world \<Rightarrow> unit LinkSetResult \<times> ('l, 'c) world" where
  "set_reconnection_timeout timeout w = to_core_send (Config (ReconnectTimeout timeout)) w"

definition set_grace_period_timeout :: "Duration option \<Rightarrow> ('l, 'c) world \<Rightarrow> unit LinkSetResult \<times> ('l, 'c) world" where
  "set_grace_period_timeout grace_period w = to_core_send (Config (GracePeriodTimeout grace_period)) w"

definition LinkSet_add_addr :: "Address \<Rightarrow> ('l, 'c) world \<Rightarrow> unit LinkSetResult \<times> ('l, 'c) world" where
  "LinkSet_add_addr addr w =
     (let inner_addr = set_repeat True (ConnectorManagerAddress_new addr)
      in to_core_send (Command (CmdAddAddress inner_addr)) w)"

definition LinkSet_try_addr :: "Address \<Rightarrow> ('l, 'c) world \<Rightarrow> unit LinkSetResult \<times> ('l, 'c) world" where
  "LinkSet_try_addr addr w =
     (let inner_addr = add_count 1 (ConnectorManagerAddress_new addr)
      in to_core_send (Command (CmdAddAddress inner_addr)) w)"

definition add_link_boxed :: "'l \<Rightarrow> ('l, 'c) world \<Rightarrow> unit LinkSetResult \<times> ('l, 'c) world" where
  "add_link_boxed link w = to_core_send (Command (CmdAddLink link)) w"

definition LinkSet_add_link :: "'l \<Rightarrow> ('l, 'c) world \<Rightarrow> unit LinkSetResult \<times> ('l, 'c) world" where
  "LinkSet_add_link link w = add_link_boxed link w"

definition send_opt_epoch ::
  "'m sendable \<Rightarrow> 'm \<Rightarrow> Epoch option \<Rightarrow> ('l, 'c) world \<Rightarrow> unit LinkSetResult \<times> ('l, 'c) world" where
  "send_opt_epoch S msg epoch w =
     (case map_err SendableSerialization (se_to_bytes S msg) of
        Inl e \<Rightarrow> (Inl e, w)
      | Inr bs \<Rightarrow> to_core_send (Command (CmdMessage bs epoch)) w)"

definition LinkSet_send :: "'m sendable \<Rightarrow> 'm \<Rightarrow> ('l, 'c) world \<Rightarrow> unit LinkSetResult \<times> ('l, 'c) world" where
  "LinkSet_send S msg w =
     (case map_err SendableSerialization (se_to_bytes S msg) of
        Inl e \<Rightarrow> (Inl e, w)
      | Inr bs \<Rightarrow> to_core_send (Command (CmdMessage bs None)) w)"

definition send_with_epoch ::
  "'m sendable \<Rightarrow> 'm \<Rightarrow> Epoch \<Rightarrow> ('l, 'c) world \<Rightarrow> unit LinkSetResult \<times> ('l, 'c) world" where
  "send_with_epoch S msg epoch w =
     (case map_err SendableSerialization (se_to_bytes S msg) of
        Inl e \<Rightarrow> (Inl e, w)
      | Inr bs \<Rightarrow> to_core_send (Command (CmdMessage bs (Some epoch))) w)"

text \<open>\<open>None\<close> is a receive that waits.\<close>

definition note_epoch :: "'m LinkSetMessage \<Rightarrow> ('l, 'c) world \<Rightarrow> ('l, 'c) world" where
  "note_epoch ret w =
     (case ret of
        Msg_Connected epoch \<Rightarrow> w\<lparr>wd_epoch := Some epoch\<rparr>
      | Msg_Disconnected \<Rightarrow> w\<lparr>wd_epoch := None\<rparr>
      | _ \<Rightarrow> w)"

definition LinkSet_recv ::
  "'m sendable \<Rightarrow> LinkSet \<Rightarrow> ('l, 'c) world \<Rightarrow> ('m LinkSetMessage LinkSetResult) option \<times> ('l, 'c) world" where
  "LinkSet_recv S h w =
     (if \<not> has_from_core h then (Some (Inl ReceiverTaken), w)
      else case from_core_recv w of
             (Wait, w) \<Rightarrow> (None, w)
           | (Gone, w) \<Rightarrow> (Some (Inl Terminated), w)
           | (Got msg, w) \<Rightarrow>
               (case LinkSetMessage_try_from S msg of
                  Inl e \<Rightarrow> (Some (Inl e), w)
                | Inr ret \<Rightarrow> (Some (Inr ret), note_epoch ret w)))"

text \<open>The \<open>n\<close>th handle gives its receiver away, is cloned, or is dropped.\<close>

definition take_recv :: "nat \<Rightarrow> ('l, 'c) world \<Rightarrow> bool \<times> ('l, 'c) world" where
  "take_recv n w =
     (if has_from_core (wd_handles w ! n)
      then (True, w\<lparr>wd_handles := (wd_handles w)[n := LinkSet False], wd_reader := True\<rparr>)
      else (False, w))"

definition clone_sender :: "('l, 'c) world \<Rightarrow> ('l, 'c) world" where
  "clone_sender w = w\<lparr>wd_senders := wd_senders w + 1, wd_handles := wd_handles w @ [LinkSet False]\<rparr>"

definition drop_handle :: "nat \<Rightarrow> ('l, 'c) world \<Rightarrow> ('l, 'c) world" where
  "drop_handle n w =
     w\<lparr>wd_senders := wd_senders w - 1, wd_handles := take n (wd_handles w) @ drop (Suc n) (wd_handles w)\<rparr>"

section \<open>The reader\<close>

definition LinkSetReader_recv ::
  "'m sendable \<Rightarrow> ('l, 'c) world \<Rightarrow> ('m LinkSetMessage LinkSetResult) option \<times> ('l, 'c) world" where
  "LinkSetReader_recv S w =
     (case from_core_recv w of
        (Wait, w) \<Rightarrow> (None, w)
      | (Gone, w) \<Rightarrow> (Some (Inl Terminated), w\<lparr>wd_epoch := None\<rparr>)
      | (Got msg, w) \<Rightarrow>
          (case LinkSetMessage_try_from S msg of
             Inl e \<Rightarrow> (Some (Inl e), w)
           | Inr ret \<Rightarrow> (Some (Inr ret), note_epoch ret w)))"

definition LinkSetReader_current_epoch :: "('l, 'c) world \<Rightarrow> Epoch option" where
  "LinkSetReader_current_epoch w = (if from_core_done w then None else wd_epoch w)"

definition drop_reader :: "('l, 'c) world \<Rightarrow> ('l, 'c) world" where
  "drop_reader w = w\<lparr>wd_epoch := None, wd_reader := False\<rparr>"

section \<open>The debug handle\<close>

text \<open>
  One turn of the loop for an event. A panic ends the task: its sender and its receiver are dropped,
  with what waits in it.
\<close>

definition core_ends :: "('l, 'c) world \<Rightarrow> ('l, 'c) world" where
  "core_ends w = w\<lparr>wd_running := False, wd_to_core := [], wd_senders := wd_senders w - 1, wd_debug := False\<rparr>"

definition core_turn :: "('l, 'c) env \<Rightarrow> ('l, 'c) core_event \<Rightarrow> ('l, 'c) world \<Rightarrow> ('l, 'c) world" where
  "core_turn env ev w =
     (case core_handle env (wd_core w) ev of Some core \<Rightarrow> w\<lparr>wd_core := core\<rparr> | None \<Rightarrow> core_ends w)"

text \<open>
  A request of the debug handle and its reply, when the core takes the request. \<open>recv_opt\<close> gets what
  the debug channel gives, \<open>None\<close> once the handle is dropped, and forgets a channel that is closed; its
  result \<open>None\<close> is a receive that waits.
\<close>

definition debug_request ::
  "('l, 'c) env \<Rightarrow> DebugCommand \<Rightarrow> ('l, 'c) world \<Rightarrow> DebugReply LinkSetResult \<times> ('l, 'c) world" where
  "debug_request env cmd w =
     (if \<not> wd_running w then (Inl Terminated, w)
      else (Inr (fst (States_debug env (co_state (wd_core w)) cmd)), core_turn env (FromDebug cmd) w))"

definition DebugHandle_snapshot ::
  "('l, 'c) env \<Rightarrow> ('l, 'c) world \<Rightarrow> DebugReply LinkSetResult \<times> ('l, 'c) world" where
  "DebugHandle_snapshot env w = debug_request env Snapshot w"

definition DebugHandle_evict_link ::
  "('l, 'c) env \<Rightarrow> u64 \<Rightarrow> ('l, 'c) world \<Rightarrow> DebugReply LinkSetResult \<times> ('l, 'c) world" where
  "DebugHandle_evict_link env link_id w = debug_request env (EvictLink link_id) w"

definition recv_opt :: "DebugCommand option \<Rightarrow> ('l, 'c) world \<Rightarrow> DebugCommand option \<times> ('l, 'c) world" where
  "recv_opt received w =
     (if wd_debug w
      then case received of Some cmd \<Rightarrow> (Some cmd, w) | None \<Rightarrow> (None, w\<lparr>wd_debug := False\<rparr>)
      else (None, w))"

section \<open>Everything together\<close>

datatype ('l, 'c, 'm) call =
    Call_connect
  | Call_disconnect
  | Call_add_connector 'c
  | Call_auto_connect bool
  | Call_connection_timeout "Duration option"
  | Call_reconnection_timeout "Duration option"
  | Call_grace_period_timeout "Duration option"
  | Call_add_addr Address
  | Call_try_addr Address
  | Call_add_link 'l
  | Call_send 'm
  | Call_send_with_epoch 'm Epoch
  | Call_send_opt_epoch 'm "Epoch option"

fun LinkSet_call ::
  "'m sendable \<Rightarrow> ('l, 'c, 'm) call \<Rightarrow> ('l, 'c) world \<Rightarrow> unit LinkSetResult \<times> ('l, 'c) world" where
  "LinkSet_call S Call_connect w = LinkSet_connect w"
| "LinkSet_call S Call_disconnect w = LinkSet_disconnect w"
| "LinkSet_call S (Call_add_connector conn) w = LinkSet_add_connector conn w"
| "LinkSet_call S (Call_auto_connect b) w = set_auto_connect b w"
| "LinkSet_call S (Call_connection_timeout t) w = set_connection_timeout t w"
| "LinkSet_call S (Call_reconnection_timeout t) w = set_reconnection_timeout t w"
| "LinkSet_call S (Call_grace_period_timeout t) w = set_grace_period_timeout t w"
| "LinkSet_call S (Call_add_addr addr) w = LinkSet_add_addr addr w"
| "LinkSet_call S (Call_try_addr addr) w = LinkSet_try_addr addr w"
| "LinkSet_call S (Call_add_link link) w = LinkSet_add_link link w"
| "LinkSet_call S (Call_send msg) w = LinkSet_send S msg w"
| "LinkSet_call S (Call_send_with_epoch msg epoch) w = send_with_epoch S msg epoch w"
| "LinkSet_call S (Call_send_opt_epoch msg epoch) w = send_opt_epoch S msg epoch w"

text \<open>The links that a turn of a connection task hands to the core.\<close>

fun tasks_links :: "nat \<Rightarrow> (LinkSetError + 'l) \<Rightarrow> ('l, 'c) States \<Rightarrow> 'l list" where
  "tasks_links n r (S_Connecting s) = fst (ConnectorManager_turn n r (cn_connector s))"
| "tasks_links n r (S_Reconnecting s) = fst (ConnectorManager_turn n r (rc_connector s))"
| "tasks_links n r s = []"

definition env_ok :: "bool \<Rightarrow> ('c \<Rightarrow> rust_string) \<Rightarrow> ('l, 'c) env \<Rightarrow> bool" where
  "env_ok oc scheme env = (en_oc env = oc \<and> en_scheme env = scheme \<and> valid_link (en_link env))"

inductive world_step ::
  "bool \<Rightarrow> ('c \<Rightarrow> rust_string) \<Rightarrow> 'm sendable \<Rightarrow> ('l, 'c) world \<Rightarrow> ('l, 'c) world \<Rightarrow> bool" for oc scheme S where
  ws_call: "h \<in> set (wd_handles w) \<Longrightarrow> world_step oc scheme S w (snd (LinkSet_call S c w))"
| ws_recv: "h \<in> set (wd_handles w) \<Longrightarrow> world_step oc scheme S w (snd (LinkSet_recv S h w))"
| ws_take: "n < length (wd_handles w) \<Longrightarrow> world_step oc scheme S w (snd (take_recv n w))"
| ws_clone: "wd_handles w \<noteq> [] \<Longrightarrow> world_step oc scheme S w (clone_sender w)"
| ws_drop: "n < length (wd_handles w) \<Longrightarrow> world_step oc scheme S w (drop_handle n w)"
| ws_reader: "wd_reader w \<Longrightarrow> world_step oc scheme S w (snd (LinkSetReader_recv S w))"
| ws_drop_reader: "wd_reader w \<Longrightarrow> world_step oc scheme S w (drop_reader w)"
| ws_ctrl: "wd_running w \<Longrightarrow> from_ctrl_recv w = (Got msg, w') \<Longrightarrow> env_ok oc scheme env \<Longrightarrow>
    core_enabled env (wd_core w) (FromCtrl msg) \<Longrightarrow> world_step oc scheme S w (core_turn env (FromCtrl msg) w')"
| ws_quit: "wd_running w \<Longrightarrow> from_ctrl_recv w = (Gone, w') \<Longrightarrow> world_step oc scheme S w (core_ends w')"
| ws_link: "wd_running w \<Longrightarrow> env_ok oc scheme env \<Longrightarrow> core_enabled env (wd_core w) (FromLink link_id msg) \<Longrightarrow>
    world_step oc scheme S w (core_turn env (FromLink link_id msg) w)"
| ws_timer: "wd_running w \<Longrightarrow> env_ok oc scheme env \<Longrightarrow> core_enabled env (wd_core w) TimerReady \<Longrightarrow>
    world_step oc scheme S w (core_turn env TimerReady w)"
| ws_debug: "wd_running w \<Longrightarrow> recv_opt (Some cmd) w = (Some cmd, w') \<Longrightarrow> env_ok oc scheme env \<Longrightarrow>
    world_step oc scheme S w (snd (debug_request env cmd w'))"
| ws_drop_debug: "wd_running w \<Longrightarrow> world_step oc scheme S w (snd (recv_opt None w))"
| ws_links: "wd_running w \<Longrightarrow> world_step oc scheme S w
    (w\<lparr>wd_core := (wd_core w)\<lparr>co_state := links_change f (co_state (wd_core w))\<rparr>\<rparr>)"
| ws_tasks: "wd_running w \<Longrightarrow> world_step oc scheme S w
    (w\<lparr>wd_core := (wd_core w)\<lparr>co_state := tasks_turn n r (co_state (wd_core w))\<rparr>,
       wd_to_core := wd_to_core w @ map (Command \<circ> CmdAddLink) (tasks_links n r (co_state (wd_core w)))\<rparr>)"
| ws_reader_ends: "wd_running w \<Longrightarrow> world_step oc scheme S w
    (w\<lparr>wd_core := (wd_core w)\<lparr>co_common := (co_common (wd_core w))\<lparr>cs_readers :=
       removeAll link_id (cs_readers (co_common (wd_core w)))\<rparr>\<rparr>\<rparr>)"

section \<open>The core inside\<close>

lemmas call_defs = LinkSet_connect_def LinkSet_disconnect_def LinkSet_add_connector_def set_auto_connect_def
  set_connection_timeout_def set_reconnection_timeout_def set_grace_period_timeout_def LinkSet_add_addr_def
  LinkSet_try_addr_def LinkSet_add_link_def add_link_boxed_def LinkSet_send_def send_with_epoch_def send_opt_epoch_def Let_def

text \<open>What a call does: it sends one command, or nothing.\<close>

lemma LinkSet_call_world:
  "snd (LinkSet_call S c w) = w \<or> (\<exists>msg. wd_running w \<and> snd (LinkSet_call S c w) = w\<lparr>wd_to_core := wd_to_core w @ [msg]\<rparr>)"
  by (cases c) (auto simp: call_defs to_core_send_def split: sum.splits option.splits)

lemma from_ctrl_got: "from_ctrl_recv w = (Got msg, w') \<Longrightarrow> \<exists>q. wd_to_core w = msg # q \<and> w' = w\<lparr>wd_to_core := q\<rparr>"
  by (auto simp: from_ctrl_recv_def split: list.splits if_splits)

lemma from_ctrl_gone: "from_ctrl_recv w = (Gone, w') \<Longrightarrow> wd_senders w = 0 \<and> w' = w"
  by (auto simp: from_ctrl_recv_def split: list.splits if_splits)

lemma recv_opt_got: "recv_opt (Some cmd) w = (Some cmd, w') \<Longrightarrow> w' = w"
  by (simp add: recv_opt_def split: if_splits)

lemma recv_opt_gone: "snd (recv_opt None w) = w \<or> snd (recv_opt None w) = w\<lparr>wd_debug := False\<rparr>"
  by (simp add: recv_opt_def)

lemma note_epoch_keeps [simp]:
  "wd_core (note_epoch ret w) = wd_core w" "wd_running (note_epoch ret w) = wd_running w"
  "wd_senders (note_epoch ret w) = wd_senders w" "wd_received (note_epoch ret w) = wd_received w"
  "wd_handles (note_epoch ret w) = wd_handles w" "wd_reader (note_epoch ret w) = wd_reader w"
  "wd_debug (note_epoch ret w) = wd_debug w"
  by (auto simp: note_epoch_def split: LinkSetMessage.split)

lemma core_turn_core:
  assumes "env_ok oc scheme env" "core_enabled env (wd_core w) ev"
  shows "reaches (core_step oc scheme) (wd_core w) (wd_core (core_turn env ev w))"
proof (cases "core_handle env (wd_core w) ev")
  case None
  then show ?thesis by (simp add: core_turn_def core_ends_def reaches_refl)
next
  case (Some core)
  then show ?thesis
    using assms by (auto simp: core_turn_def env_ok_def intro!: reaches_one step_event)
qed

lemma from_core_recv_core: "from_core_recv w = (r, w') \<Longrightarrow> wd_core w' = wd_core w"
  by (auto simp: from_core_recv_def split: list.splits)

lemma recv_core:
  "wd_core (snd (LinkSet_recv S h w)) = wd_core w" "wd_core (snd (LinkSetReader_recv S w)) = wd_core w"
  using from_core_recv_core
  by (auto simp: LinkSet_recv_def LinkSetReader_recv_def split: prod.split received.split sum.split)

lemma world_step_core:
  assumes "world_step oc scheme S w w'"
  shows "reaches (core_step oc scheme) (wd_core w) (wd_core w')"
  using assms
proof (cases rule: world_step.cases)
  case (ws_call h c)
  then show ?thesis using LinkSet_call_world [of S c w] by (auto intro: reaches_refl)
next
  case (ws_ctrl msg w1 env)
  then show ?thesis
    using from_ctrl_got [of w msg w1] core_turn_core [of oc scheme env w1 "FromCtrl msg"] by auto
next
  case (ws_quit w1)
  then show ?thesis using from_ctrl_gone [of w w1] by (simp add: core_ends_def reaches_refl)
next
  case (ws_debug cmd w1 env)
  then show ?thesis
    using core_turn_core [of oc scheme env w "FromDebug cmd"] recv_opt_got [of cmd w w1]
    by (simp add: debug_request_def core_enabled_def)
next
  case ws_drop_debug
  then show ?thesis using recv_opt_gone [of w] by (auto intro: reaches_refl)
qed (auto simp: recv_core take_recv_def clone_sender_def drop_handle_def drop_reader_def
      intro: reaches_refl core_turn_core reaches_one core_step.intros)

definition world_initial :: "('l, 'c) world \<Rightarrow> bool" where
  "world_initial w = (w = LinkSet_new \<or> w = LinkSet_new_debug)"

lemma world_new_core [simp]:
  "wd_core LinkSet_new = core_new" "wd_core LinkSet_new_debug = core_new"
  by (simp_all add: LinkSet_new_def LinkSet_new_debug_def start_core_def)

interpretation world_ref: machine_refinement world_initial "world_step oc scheme S" core_initial "core_step oc scheme" wd_core
  by unfold_locales (auto simp: world_initial_def core_initial_def intro: world_step_core)

section \<open>The invariant\<close>

definition receivers :: "('l, 'c) world \<Rightarrow> nat" where
  "receivers w = length (filter has_from_core (wd_handles w)) + (if wd_reader w then 1 else 0)"

definition user_log :: "('l, 'c) world \<Rightarrow> LinkSetMessageInner list" where
  "user_log w = cs_to_ctrl (co_common (wd_core w))"

text \<open>
  The receiver is in one place; the epoch is that of the messages received so far, as long as there
  are more to come; and the core has a sender of its own for as long as it runs.
\<close>

definition world_ok :: "('l, 'c) world \<Rightarrow> bool" where
  "world_ok w =
     (view_ok (core_view (wd_core w)) \<and> receivers w \<le> 1 \<and> wd_received w \<le> length (user_log w) \<and>
      (receivers w = 1 \<and> \<not> from_core_done w \<longrightarrow> user_epoch None (take (wd_received w) (user_log w)) = Some (wd_epoch w)) \<and>
      wd_senders w = length (wd_handles w) + (if wd_running w then 1 else 0))"

lemma world_ok_new: "world_initial w \<Longrightarrow> world_ok w"
  by (auto simp: world_initial_def world_ok_def LinkSet_new_def LinkSet_new_debug_def start_core_def core_new_view
      view_ok_new receivers_def user_log_def)

text \<open>The log of a core only grows.\<close>

lemma view_step_log: "view_step v w \<Longrightarrow> \<exists>ms. vw_log w = vw_log v @ ms"
  by (erule view_step.cases) auto

interpretation logs: machine_order view_initial view_step view_ok "\<lambda>v w. \<exists>ms. vw_log w = vw_log v @ ms"
  by unfold_locales (auto intro: view_step_log)

lemma core_moves:
  assumes "reaches (core_step oc scheme) c c'" "view_ok (core_view c)"
  shows "view_ok (core_view c')" "\<exists>ms. cs_to_ctrl (co_common c') = cs_to_ctrl (co_common c) @ ms"
  using views.inv_reaches [OF core_ref.view_reaches [OF assms(1)] assms(2)]
    logs.le_reaches [OF core_ref.view_reaches [OF assms(1)] assms(2)]
  by (auto simp: core_view_def sees_def)

lemma world_ok_core:
  assumes "world_ok w" "wd_running w" "reaches (core_step oc scheme) (wd_core w) core"
  shows "world_ok (w\<lparr>wd_core := core\<rparr>)"
proof -
  have ok: "view_ok (core_view (wd_core w))" using assms(1) by (simp add: world_ok_def)
  obtain ms where "cs_to_ctrl (co_common core) = cs_to_ctrl (co_common (wd_core w)) @ ms"
    using core_moves(2) [OF assms(3) ok] by blast
  then show ?thesis
    using assms(1,2) core_moves(1) [OF assms(3) ok]
    by (auto simp: world_ok_def user_log_def receivers_def from_core_done_def from_core_queue_def)
qed

lemma world_ok_queue: "world_ok (w\<lparr>wd_to_core := q\<rparr>) = world_ok w"
  by (simp add: world_ok_def receivers_def user_log_def from_core_done_def from_core_queue_def)

lemma world_ok_ends: "world_ok w \<Longrightarrow> wd_running w \<Longrightarrow> world_ok (core_ends w)"
  by (auto simp: world_ok_def core_ends_def receivers_def user_log_def from_core_done_def from_core_queue_def)

lemma world_ok_turn:
  assumes "world_ok w" "wd_running w" "env_ok oc scheme env" "core_enabled env (wd_core w) ev"
  shows "world_ok (core_turn env ev w)"
  using world_ok_core [OF assms(1,2) core_turn_core [OF assms(3,4)]] world_ok_ends [OF assms(1,2)]
  by (auto simp: core_turn_def split: option.splits)

text \<open>Receiving a message.\<close>

lemma try_from_epoch:
  "LinkSetMessage_try_from S msg = Inr ret \<Longrightarrow>
   user_epoch (wd_epoch w) [msg] \<noteq> None \<Longrightarrow> user_epoch (wd_epoch w) [msg] = Some (wd_epoch (note_epoch ret w))"
  by (cases msg) (auto simp: note_epoch_def and_then_Inr split: if_splits)

lemma try_from_failed:
  "LinkSetMessage_try_from S msg = Inl err \<Longrightarrow> user_epoch e [msg] \<noteq> None \<Longrightarrow> user_epoch e [msg] = Some e"
  by (cases msg) (auto split: if_splits)

lemma received_step:
  assumes "world_ok w" "receivers w = 1" "from_core_queue w = msg # q"
  shows "user_epoch (wd_epoch w) [msg] \<noteq> None"
    "user_epoch None (take (Suc (wd_received w)) (user_log w)) = user_epoch (wd_epoch w) [msg]"
    "Suc (wd_received w) \<le> length (user_log w)"
proof -
  define pre where "pre = take (wd_received w) (user_log w)"
  have log: "user_log w = pre @ msg # q"
    using assms(3) append_take_drop_id [of "wd_received w" "user_log w"]
    by (simp add: pre_def from_core_queue_def user_log_def)
  have len: "length pre = wd_received w"
    using assms(1) by (simp add: pre_def world_ok_def)
  have e: "user_epoch None pre = Some (wd_epoch w)"
    using assms by (simp add: pre_def world_ok_def from_core_done_def)
  have "user_epoch None (pre @ msg # q) \<noteq> None"
    using assms(1) log by (simp add: world_ok_def view_ok_def core_view_def sees_def user_log_def)
  then show "user_epoch (wd_epoch w) [msg] \<noteq> None"
    using e by (cases msg) (auto split: if_splits)
  show "user_epoch None (take (Suc (wd_received w)) (user_log w)) = user_epoch (wd_epoch w) [msg]"
    using e by (simp add: log flip: len)
  show "Suc (wd_received w) \<le> length (user_log w)"
    by (simp add: log flip: len)
qed

lemma world_ok_got:
  assumes "world_ok w" "receivers w = 1" "from_core_queue w = msg # q"
  shows "LinkSetMessage_try_from S msg = Inl err \<Longrightarrow> world_ok (w\<lparr>wd_received := wd_received w + 1\<rparr>)"
    "LinkSetMessage_try_from S msg = Inr ret \<Longrightarrow> world_ok (note_epoch ret (w\<lparr>wd_received := wd_received w + 1\<rparr>))"
proof -
  note step = received_step [OF assms]
  have e: "user_epoch None (take (Suc (wd_received w)) (user_log w)) = Some e"
    if "user_epoch (wd_epoch w) [msg] = Some e" for e
    using that step(2) by simp
  show "world_ok (w\<lparr>wd_received := wd_received w + 1\<rparr>)" if "LinkSetMessage_try_from S msg = Inl err"
    using assms(1) step(3) e [OF try_from_failed [OF that step(1)]]
    by (simp add: world_ok_def receivers_def user_log_def)
  show "world_ok (note_epoch ret (w\<lparr>wd_received := wd_received w + 1\<rparr>))" if "LinkSetMessage_try_from S msg = Inr ret"
    using assms(1) step(3) e try_from_epoch [OF that, of "w\<lparr>wd_received := wd_received w + 1\<rparr>"] step(1)
    by (simp add: world_ok_def receivers_def user_log_def)
qed

lemma from_core_recv_cases:
  obtains (Got) msg q where "from_core_queue w = msg # q" "from_core_recv w = (Got msg, w\<lparr>wd_received := wd_received w + 1\<rparr>)"
  | (Gone) "from_core_done w" "from_core_recv w = (Gone, w)"
  | (Wait) "from_core_recv w = (Wait, w)"
  by (cases "from_core_queue w"; cases "wd_running w") (auto simp: from_core_recv_def from_core_done_def)

lemma world_ok_done: "world_ok w \<Longrightarrow> from_core_done w \<Longrightarrow> world_ok (w\<lparr>wd_epoch := None\<rparr>)"
  by (simp add: world_ok_def receivers_def user_log_def from_core_done_def from_core_queue_def)

lemma world_ok_recv:
  assumes "world_ok w" "receivers w = 1"
  shows "world_ok (snd (LinkSet_recv S h w))" "world_ok (snd (LinkSetReader_recv S w))"
proof -
  have "world_ok (snd (LinkSet_recv S h w)) \<and> world_ok (snd (LinkSetReader_recv S w))"
  proof (cases w rule: from_core_recv_cases)
    case (Got msg q)
    then show ?thesis
      using world_ok_got [OF assms Got(1), of S] assms(1)
      by (cases "LinkSetMessage_try_from S msg") (simp_all add: LinkSet_recv_def LinkSetReader_recv_def)
  qed (use assms(1) in \<open>simp_all add: LinkSet_recv_def LinkSetReader_recv_def world_ok_done\<close>)
  then show "world_ok (snd (LinkSet_recv S h w))" "world_ok (snd (LinkSetReader_recv S w))" by simp_all
qed

lemma receivers_handle:
  assumes "h \<in> set (wd_handles w)" "has_from_core h"
  shows "1 \<le> receivers w"
proof -
  have "filter has_from_core (wd_handles w) \<noteq> []" using assms by (auto simp: filter_empty_conv)
  then show ?thesis by (cases "filter has_from_core (wd_handles w)") (simp_all add: receivers_def)
qed

text \<open>Moving the receiver, cloning and dropping.\<close>

lemma filter_set_receiver:
  "n < length hs \<Longrightarrow> has_from_core (hs ! n) \<Longrightarrow>
   Suc (length (filter has_from_core (hs[n := LinkSet False]))) = length (filter has_from_core hs)"
  by (subst (2) id_take_nth_drop [of n]) (auto simp: upd_conv_take_nth_drop)

lemma world_ok_take:
  assumes "world_ok w" "n < length (wd_handles w)"
  shows "world_ok (snd (take_recv n w))"
proof (cases "has_from_core (wd_handles w ! n)")
  case True
  have one: "length (filter has_from_core (wd_handles w)) + (if wd_reader w then 1 else 0) \<le> Suc 0"
    using assms(1) by (simp add: world_ok_def receivers_def)
  note fewer = filter_set_receiver [OF assms(2) True]
  have "\<not> wd_reader w" using one fewer by (cases "wd_reader w") simp_all
  then have "receivers (snd (take_recv n w)) = receivers w"
    using True fewer by (simp add: take_recv_def receivers_def)
  then show ?thesis
    using assms(1) True
    by (simp add: take_recv_def world_ok_def user_log_def from_core_done_def from_core_queue_def)
qed (use assms(1) in \<open>simp add: take_recv_def\<close>)

lemma filter_drop_handle:
  "length (filter P (take n hs @ drop (Suc n) hs)) \<le> length (filter P hs)"
proof (cases "n < length hs")
  case True
  then show ?thesis by (subst (3) id_take_nth_drop [of n]) simp_all
qed simp

lemma world_ok_drop:
  assumes "world_ok w" "n < length (wd_handles w)"
  shows "world_ok (drop_handle n w)"
proof -
  have "receivers (drop_handle n w) \<le> receivers w"
    using filter_drop_handle [of has_from_core n "wd_handles w"] by (simp add: receivers_def drop_handle_def)
  then show ?thesis
    using assms by (auto simp: world_ok_def drop_handle_def user_log_def from_core_done_def from_core_queue_def)
qed

lemma world_ok_others:
  "world_ok w \<Longrightarrow> world_ok (clone_sender w)"
  "world_ok w \<Longrightarrow> wd_reader w \<Longrightarrow> world_ok (drop_reader w)"
  "world_ok w \<Longrightarrow> world_ok (w\<lparr>wd_debug := False\<rparr>)"
  by (auto simp: world_ok_def clone_sender_def drop_reader_def receivers_def user_log_def from_core_done_def
      from_core_queue_def)

lemma world_ok_step:
  assumes "world_ok w" "world_step oc scheme S w w'"
  shows "world_ok w'"
  using assms(2)
proof (cases rule: world_step.cases)
  case (ws_call h c)
  then show ?thesis using assms(1) LinkSet_call_world [of S c w] by (auto simp: world_ok_queue)
next
  case (ws_recv h)
  then show ?thesis
    using assms(1) world_ok_recv(1) [OF assms(1), of S h] receivers_handle [of h w]
    by (cases "has_from_core h") (auto simp: world_ok_def LinkSet_recv_def)
next
  case ws_reader
  moreover have "receivers w = 1" using ws_reader(2) assms(1) by (simp add: world_ok_def receivers_def)
  ultimately show ?thesis using world_ok_recv(2) [OF assms(1)] by simp
next
  case (ws_ctrl msg w1 env)
  obtain q where q: "w1 = w\<lparr>wd_to_core := q\<rparr>" using from_ctrl_got [OF ws_ctrl(3)] by blast
  then show ?thesis
    using ws_ctrl assms(1) world_ok_turn [of w1 oc scheme env "FromCtrl msg"] by (simp add: world_ok_queue)
next
  case (ws_quit w1)
  then show ?thesis using from_ctrl_gone [OF ws_quit(3)] assms(1) by (simp add: world_ok_def)
next
  case (ws_debug cmd w1 env)
  then show ?thesis
    using assms(1) world_ok_turn [of w oc scheme env "FromDebug cmd"] recv_opt_got [of cmd w w1]
    by (simp add: debug_request_def core_enabled_def)
next
  case ws_drop_debug
  then show ?thesis using assms(1) recv_opt_gone [of w] world_ok_others(3) [OF assms(1)] by auto
next
  case (ws_tasks n r)
  let ?core = "(wd_core w)\<lparr>co_state := tasks_turn n r (co_state (wd_core w))\<rparr>"
  let ?q = "wd_to_core w @ map (Command \<circ> CmdAddLink) (tasks_links n r (co_state (wd_core w)))"
  have "world_ok (w\<lparr>wd_core := ?core\<rparr>)"
    by (rule world_ok_core [OF assms(1) ws_tasks(2)], rule reaches_one, rule step_tasks)
  then have "world_ok (w\<lparr>wd_core := ?core\<rparr>\<lparr>wd_to_core := ?q\<rparr>)" by (simp only: world_ok_queue)
  then show ?thesis using ws_tasks by simp
next
  case (ws_links f)
  show ?thesis unfolding ws_links(1)
    by (rule world_ok_core [OF assms(1) ws_links(2)], rule reaches_one, rule step_links)
next
  case (ws_reader_ends link_id)
  show ?thesis unfolding ws_reader_ends(1)
    by (rule world_ok_core [OF assms(1) ws_reader_ends(2)], rule reaches_one, rule step_reader)
next
  case (ws_link env link_id msg)
  then show ?thesis using world_ok_turn [OF assms(1)] by blast
next
  case (ws_timer env)
  then show ?thesis using world_ok_turn [OF assms(1)] by blast
qed (simp_all add: assms(1) world_ok_take world_ok_drop world_ok_others)

interpretation world: machine_invariant world_initial "world_step oc scheme S" world_ok
  by unfold_locales (auto intro: world_ok_new world_ok_step)

lemma world_reachable_ok: "world_initial w0 \<Longrightarrow> reaches (world_step oc scheme S) w0 w \<Longrightarrow> world_ok w"
  by (rule world.inv_reachable)

section \<open>An example\<close>

text \<open>A user adds a link, the core takes it, the other side asks for a connection, and the user learns of it.\<close>

definition example_sendable :: "bytes sendable" where
  "example_sendable = serde_sendable (\<lambda>_. []) (\<lambda>m. Inr m :: string + bytes) (\<lambda>bs. Inr (bs, length bs))"

definition example_world :: "nat \<Rightarrow> (unit, unit) world" where
  "example_world n =
     fold (\<lambda>f. f) (take n
       [\<lambda>w. snd (LinkSet_call example_sendable (Call_add_link ()) w),
        \<lambda>w. core_turn (example_env\<lparr>en_now := 1\<rparr>) (FromCtrl (Command (CmdAddLink ()))) (snd (from_ctrl_recv w)),
        \<lambda>w. core_turn (example_env\<lparr>en_now := 2\<rparr>) (FromLink 0 (Reset None True)) w,
        \<lambda>w. snd (LinkSet_recv example_sendable (LinkSet True) w),
        drop_handle 0]) LinkSet_new"

lemmas world_eval = example_world_def LinkSet_new_def start_core_def call_defs to_core_send_def from_ctrl_recv_def
  core_turn_def LinkSet_recv_def from_core_recv_def from_core_queue_def note_epoch_def drop_handle_def

lemma example_env_ok: "env_ok True (\<lambda>_. []) (example_env\<lparr>en_now := n\<rparr>)"
  by (simp add: env_ok_def example_env_def example_link_def valid_link_def)

lemma example_world_facts:
  "wd_running (example_world 1)" "from_ctrl_recv (example_world 1) =
     (Got (Command (CmdAddLink ())), (example_world 1)\<lparr>wd_to_core := []\<rparr>)"
  "wd_handles (example_world 0) = [LinkSet True]" "wd_handles (example_world 3) = [LinkSet True]"
  "wd_handles (example_world 4) = [LinkSet True]" "wd_handles (example_world 5) = []"
  "wd_running (example_world 2)" "cs_readers (co_common (wd_core (example_world 2))) = [0]"
  "wd_running (example_world 4)" "wd_running (example_world 5)"
  "phase_of (co_state (wd_core (example_world 4))) = Ph_Connected"
  "from_core_queue (example_world 4) = []" "wd_epoch (example_world 4) = Some Epoch_ONE"
  by (simp_all add: world_eval core_eval)

lemma example_world_reaches:
  "reaches (world_step True (\<lambda>_. []) example_sendable) LinkSet_new (example_world 4)"
  "reaches (world_step True (\<lambda>_. []) example_sendable) LinkSet_new (example_world 5)"
proof -
  let ?step = "world_step True (\<lambda>_. []) example_sendable"
  have s: "?step (example_world 0) (example_world 1)" "?step (example_world 1) (example_world 2)"
    "?step (example_world 2) (example_world 3)" "?step (example_world 3) (example_world 4)"
    "?step (example_world 4) (example_world 5)"
  proof -
    have e: "example_world 1 = snd (LinkSet_call example_sendable (Call_add_link ()) (example_world 0))"
      "example_world 2 = core_turn (example_env\<lparr>en_now := 1\<rparr>) (FromCtrl (Command (CmdAddLink ())))
         (snd (from_ctrl_recv (example_world 1)))"
      "example_world 3 = core_turn (example_env\<lparr>en_now := 2\<rparr>) (FromLink 0 (Reset None True)) (example_world 2)"
      "example_world 4 = snd (LinkSet_recv example_sendable (LinkSet True) (example_world 3))"
      "example_world 5 = drop_handle 0 (example_world 4)"
      by (simp_all add: example_world_def)
    show "?step (example_world 0) (example_world 1)"
      unfolding e(1) by (rule ws_call [of "LinkSet True"]) (simp add: example_world_facts)
    show "?step (example_world 1) (example_world 2)"
      unfolding e(2)
      by (rule ws_ctrl [OF example_world_facts(1) _ example_env_ok])
         (simp_all add: example_world_facts core_enabled_def del: One_nat_def)
    show "?step (example_world 2) (example_world 3)"
      unfolding e(3)
      by (rule ws_link [OF example_world_facts(7) example_env_ok])
         (simp add: example_world_facts core_enabled_def valid_opt_epoch_def)
    show "?step (example_world 3) (example_world 4)"
      unfolding e(4) by (rule ws_recv) (simp add: example_world_facts)
    show "?step (example_world 4) (example_world 5)"
      unfolding e(5) by (rule ws_drop) (simp add: example_world_facts)
  qed
  have new: "LinkSet_new = example_world 0" by (simp add: example_world_def)
  have "reaches ?step (example_world 0) (example_world 2)" by (rule reaches_two) (rule s)+
  then have "reaches ?step (example_world 0) (example_world 3)" by (rule reaches_step) (rule s)
  then show "reaches ?step LinkSet_new (example_world 4)" unfolding new by (rule reaches_step) (rule s)
  then show "reaches ?step LinkSet_new (example_world 5)" by (rule reaches_step) (rule s(5))
qed

text \<open>A codec for single bytes, and a core that has received one.\<close>

definition byte_encode :: "u8 \<Rightarrow> unit + bytes" where
  "byte_encode m = Inr [m]"

fun byte_decode :: "bytes \<Rightarrow> unit + u8 \<times> nat" where
  "byte_decode [] = Inl ()"
| "byte_decode (b # bs) = Inr (b, 1)"

definition byte_sendable :: "u8 sendable" where
  "byte_sendable = serde_sendable (\<lambda>_. []) byte_encode byte_decode"

definition example_received :: "(unit, unit) world" where
  "example_received =
     LinkSet_new\<lparr>wd_core := core_new\<lparr>co_common := to_ctrl (InnerMessage [9] Epoch_ONE) CommonState_new\<rparr>\<rparr>"

lemma example_received_facts:
  "from_core_queue example_received = [InnerMessage [9] Epoch_ONE]" "wd_received example_received = 0"
  "wd_running LinkSet_new" "wd_to_core LinkSet_new = []"
  by (simp_all add: example_received_def LinkSet_new_def start_core_def from_core_queue_def to_ctrl_def CommonState_new_def)

section \<open>Properties\<close>



text \<open>
  C35: dropping every handle does not end a core. The core keeps a sender of its own channel, in
  \<open>CommonState\<close>, so its receive never finds the channel closed, and the branch in which the loop
  quits because the handle has been dropped is never taken.
\<close>

theorem core_never_quits:
  assumes "world_initial w0" "reaches (world_step oc scheme S) w0 w" "wd_running w"
  shows "fst (from_ctrl_recv w) \<noteq> Gone"
  using world_reachable_ok [OF assms(1,2)] assms(3)
  by (auto simp: world_ok_def from_ctrl_recv_def split: list.split)

lemma core_never_quits_witness:
  "wd_handles (example_world 5) = [] \<and> wd_running (example_world 5) \<and> fst (from_ctrl_recv (example_world 5)) \<noteq> Gone"
  using core_never_quits [OF _ example_world_reaches(2)]
  by (simp add: world_initial_def example_world_facts)

text \<open>
  A message survives the way through the handles. If the codec decodes what it has encoded, and
  says that it has used all of it, then the bytes of the command that \<open>send\<close> gives to a running core
  are, at the other end, the message that \<open>recv\<close> returns, with its epoch; and bytes that are left
  over are an error.
\<close>

theorem message_round_trip:
  assumes codec: "encode m = Inr bs" "decode bs = Inr (m, length bs)" "decode (bs @ rest) = Inr (m, length bs)"
    and ends: "wd_running w" "from_core_queue w' = InnerMessage bs epoch # q" "has_from_core h"
    and S: "S = serde_sendable show_error encode decode"
  shows "LinkSet_send S m w = (Inr (), w\<lparr>wd_to_core := wd_to_core w @ [Command (CmdMessage bs None)]\<rparr>) \<and>
    LinkSet_recv S h w' = (Some (Inr (Msg_Message m epoch)), w'\<lparr>wd_received := wd_received w' + 1\<rparr>) \<and>
    (rest = [] \<or> (\<exists>e. LinkSetMessage_try_from S (InnerMessage (bs @ rest) epoch) = Inl (SendableDeserialization e)))"
  using codec ends
  by (auto simp: S serde_sendable_def serde_to_bytes_def serde_from_bytes_def LinkSet_send_def to_core_send_def
      LinkSet_recv_def from_core_recv_def note_epoch_def map_err_def)

lemma message_round_trip_witness:
  "LinkSet_send byte_sendable 9 (LinkSet_new :: (unit, unit) world) =
     (Inr (), LinkSet_new\<lparr>wd_to_core := [Command (CmdMessage [9] None)]\<rparr>) \<and>
   LinkSet_recv byte_sendable (LinkSet True) example_received =
     (Some (Inr (Msg_Message 9 Epoch_ONE)), example_received\<lparr>wd_received := 1\<rparr>) \<and>
   (\<exists>e. LinkSetMessage_try_from byte_sendable (InnerMessage [9, 0] Epoch_ONE) = Inl (SendableDeserialization e))"
  using message_round_trip [of byte_encode 9 "[9]" byte_decode "[0]" "LinkSet_new :: (unit, unit) world"
      example_received Epoch_ONE "[]" "LinkSet True" byte_sendable "\<lambda>_. []"]
  by (simp add: byte_encode_def byte_sendable_def example_received_facts)

text \<open>
  C15: a message sent with an epoch is never sent in another session: a core that is not in the
  session of that epoch takes the command and changes nothing.
\<close>

theorem stale_message_dropped:
  assumes "\<not> (in_session (phase_of (co_state core)) \<and> state_epoch (co_state core) = Some e)"
  shows "core_handle env core (FromCtrl (Command (CmdMessage data (Some e)))) = Some core"
  using assms by (cases "co_state core") (auto simp: core_handle_def in_session_def)

lemma stale_message_dropped_witness:
  "core_handle example_env (wd_core (example_world 4)) (FromCtrl (Command (CmdMessage [1] (Some (Epoch 2))))) =
     Some (wd_core (example_world 4))"
proof -
  have "state_epoch (co_state (wd_core (example_world 4))) = Some Epoch_ONE"
    by (simp add: world_eval core_eval)
  then show ?thesis by (intro stale_message_dropped) (simp add: Epoch_ONE_def)
qed

text \<open>
  A snapshot of a running core names its state and gives its epoch, and taking it changes
  nothing.
\<close>

lemma snapshot_truthful:
  assumes "wd_running w"
  shows "\<exists>reply. DebugHandle_snapshot env w = (Inr (ReplySnapshot reply), w) \<and>
    ds_state_name reply = get_name (co_state (wd_core w)) \<and> ds_epoch reply = state_epoch (co_state (wd_core w))"
proof -
  have "core_turn env (FromDebug Snapshot) w = w"
    by (cases "co_state (wd_core w)")
       (simp_all add: core_turn_def core_handle_def handle_debug_def case_prod_unfold Let_def)
  then show ?thesis
    using assms
    by (cases "co_state (wd_core w)") (simp_all add: DebugHandle_snapshot_def debug_request_def case_prod_unfold Let_def)
qed

end
