(* ===== verification/Channels.thy ===== *)
theory Channels
  imports Link_Set
begin

text \<open>
  The two channels between a user and the core, at their size (\<^verbatim>\<open>src/src/core.rs\<close>). A call of a handle
  waits while the channel to the core is full. The core waits, in the middle of a handler, while the
  channel to the user is full, and takes nothing from any of its channels until it has gone on. What
  the core has sent and the user has not received is the rest of the log, as in \<open>Link_Set\<close>: when that
  is more than the channel holds, the core is waiting with the first message that does not fit.
\<close>

section \<open>Waiting\<close>

definition CHANNEL_CAPACITY :: nat where
  "CHANNEL_CAPACITY = 10"

text \<open>A send to a receiver that has been dropped fails at once.\<close>

definition receiver_alive :: "('l, 'c) world \<Rightarrow> bool" where
  "receiver_alive w = (wd_reader w \<or> list_ex has_from_core (wd_handles w))"

definition core_waits :: "('l, 'c) world \<Rightarrow> bool" where
  "core_waits w = (wd_running w \<and> receiver_alive w \<and> CHANNEL_CAPACITY < length (from_core_queue w))"

definition calls_wait :: "('l, 'c) world \<Rightarrow> bool" where
  "calls_wait w = (wd_running w \<and> CHANNEL_CAPACITY \<le> length (wd_to_core w))"

text \<open>Everything but receiving, and dropping what could receive.\<close>

inductive busy_step ::
  "bool \<Rightarrow> ('c \<Rightarrow> rust_string) \<Rightarrow> 'm sendable \<Rightarrow> ('l, 'c) world \<Rightarrow> ('l, 'c) world \<Rightarrow> bool" for oc scheme S where
  bs_call: "h \<in> set (wd_handles w) \<Longrightarrow> \<not> calls_wait w \<Longrightarrow> busy_step oc scheme S w (snd (LinkSet_call S c w))"
| bs_take: "n < length (wd_handles w) \<Longrightarrow> busy_step oc scheme S w (snd (take_recv n w))"
| bs_clone: "wd_handles w \<noteq> [] \<Longrightarrow> busy_step oc scheme S w (clone_sender w)"
| bs_ctrl: "wd_running w \<Longrightarrow> \<not> core_waits w \<Longrightarrow> from_ctrl_recv w = (Got msg, w') \<Longrightarrow> env_ok oc scheme env \<Longrightarrow>
    core_enabled env (wd_core w) (FromCtrl msg) \<Longrightarrow> busy_step oc scheme S w (core_turn env (FromCtrl msg) w')"
| bs_link: "wd_running w \<Longrightarrow> \<not> core_waits w \<Longrightarrow> env_ok oc scheme env \<Longrightarrow>
    core_enabled env (wd_core w) (FromLink link_id msg) \<Longrightarrow>
    busy_step oc scheme S w (core_turn env (FromLink link_id msg) w)"
| bs_timer: "wd_running w \<Longrightarrow> \<not> core_waits w \<Longrightarrow> env_ok oc scheme env \<Longrightarrow> core_enabled env (wd_core w) TimerReady \<Longrightarrow>
    busy_step oc scheme S w (core_turn env TimerReady w)"
| bs_debug: "wd_running w \<Longrightarrow> \<not> core_waits w \<Longrightarrow> recv_opt (Some cmd) w = (Some cmd, w') \<Longrightarrow> env_ok oc scheme env \<Longrightarrow>
    busy_step oc scheme S w (snd (debug_request env cmd w'))"
| bs_links: "wd_running w \<Longrightarrow> busy_step oc scheme S w
    (w\<lparr>wd_core := (wd_core w)\<lparr>co_state := links_change f (co_state (wd_core w))\<rparr>\<rparr>)"
| bs_tasks: "wd_running w \<Longrightarrow> \<not> calls_wait w \<Longrightarrow> busy_step oc scheme S w
    (w\<lparr>wd_core := (wd_core w)\<lparr>co_state := tasks_turn n r (co_state (wd_core w))\<rparr>,
       wd_to_core := wd_to_core w @ map (Command \<circ> CmdAddLink) (tasks_links n r (co_state (wd_core w)))\<rparr>)"
| bs_tasks_idle: "wd_running w \<Longrightarrow> tasks_links n r (co_state (wd_core w)) = [] \<Longrightarrow> busy_step oc scheme S w
    (w\<lparr>wd_core := (wd_core w)\<lparr>co_state := tasks_turn n r (co_state (wd_core w))\<rparr>\<rparr>)"
| bs_reader_ends: "wd_running w \<Longrightarrow> busy_step oc scheme S w
    (w\<lparr>wd_core := (wd_core w)\<lparr>co_common := (co_common (wd_core w))\<lparr>cs_readers :=
       removeAll link_id (cs_readers (co_common (wd_core w)))\<rparr>\<rparr>\<rparr>)"

inductive channel_step ::
  "bool \<Rightarrow> ('c \<Rightarrow> rust_string) \<Rightarrow> 'm sendable \<Rightarrow> ('l, 'c) world \<Rightarrow> ('l, 'c) world \<Rightarrow> bool" for oc scheme S where
  ch_busy: "busy_step oc scheme S w w' \<Longrightarrow> channel_step oc scheme S w w'"
| ch_recv: "h \<in> set (wd_handles w) \<Longrightarrow> channel_step oc scheme S w (snd (LinkSet_recv S h w))"
| ch_reader: "wd_reader w \<Longrightarrow> channel_step oc scheme S w (snd (LinkSetReader_recv S w))"
| ch_drop: "n < length (wd_handles w) \<Longrightarrow> channel_step oc scheme S w (drop_handle n w)"
| ch_drop_reader: "wd_reader w \<Longrightarrow> channel_step oc scheme S w (drop_reader w)"

text \<open>Channels that have a size do nothing that those without one cannot do.\<close>

lemma busy_world: "busy_step oc scheme S w w' \<Longrightarrow> world_step oc scheme S w w'"
proof (induction rule: busy_step.induct)
  case (bs_tasks_idle w n r)
  then show ?case using ws_tasks [of w oc scheme S n r] by simp
qed (auto intro: world_step.intros)

lemma channel_world: "channel_step oc scheme S w w' \<Longrightarrow> world_step oc scheme S w w'"
  by (induction rule: channel_step.induct) (auto intro: world_step.intros busy_world)

section \<open>The size of the channel to the core\<close>

lemma tasks_links_one: "length (tasks_links n r st) \<le> 1"
  by (cases st)
     (auto simp: ConnectorManager_turn_def task_step_def case_prod_unfold Let_def
       split: option.splits task_phase.splits sum.splits)

definition call_queue_ok :: "('l, 'c) world \<Rightarrow> bool" where
  "call_queue_ok w = (wd_running w \<longrightarrow> length (wd_to_core w) \<le> CHANNEL_CAPACITY)"

lemma call_queue_ok_turn: "call_queue_ok w \<Longrightarrow> call_queue_ok (core_turn env ev w)"
  by (auto simp: call_queue_ok_def core_turn_def core_ends_def split: option.split)

lemma call_queue_ok_drop: "call_queue_ok w \<Longrightarrow> wd_to_core w = msg # q \<Longrightarrow> call_queue_ok (w\<lparr>wd_to_core := q\<rparr>)"
  by (auto simp: call_queue_ok_def)

lemma call_queue_ok_add:
  "call_queue_ok w \<Longrightarrow> \<not> calls_wait w \<Longrightarrow> wd_running w \<Longrightarrow> length (q :: 'a list) \<le> 1 \<Longrightarrow>
   length (wd_to_core w) + length q \<le> CHANNEL_CAPACITY"
  by (auto simp: calls_wait_def)

lemma busy_queue_ok: "busy_step oc scheme S w w' \<Longrightarrow> call_queue_ok w \<Longrightarrow> call_queue_ok w'"
proof (induction rule: busy_step.induct)
  case (bs_call h w c)
  then show ?case using LinkSet_call_world [of S c w] by (auto simp: call_queue_ok_def calls_wait_def)
next
  case (bs_ctrl w msg w' env)
  from bs_ctrl(3) obtain q where "wd_to_core w = msg # q" "w' = w\<lparr>wd_to_core := q\<rparr>" by (auto dest: from_ctrl_got)
  with bs_ctrl call_queue_ok_drop call_queue_ok_turn show ?case by metis
next
  case (bs_debug w cmd w' env)
  then show ?case using recv_opt_got [of cmd w w'] by (auto simp: debug_request_def call_queue_ok_turn)
next
  case (bs_tasks w n r)
  then show ?case
    using call_queue_ok_add [of w "tasks_links n r (co_state (wd_core w))"] tasks_links_one [of n r "co_state (wd_core w)"]
    by (simp add: call_queue_ok_def)
qed (simp_all add: call_queue_ok_turn, auto simp: call_queue_ok_def take_recv_def clone_sender_def)

lemma recv_keeps_queue:
  "wd_to_core (snd (LinkSet_recv S h w)) = wd_to_core w" "wd_running (snd (LinkSet_recv S h w)) = wd_running w"
  "wd_to_core (snd (LinkSetReader_recv S w)) = wd_to_core w" "wd_running (snd (LinkSetReader_recv S w)) = wd_running w"
  by (auto simp: LinkSet_recv_def LinkSetReader_recv_def from_core_recv_def note_epoch_def
      split: list.split sum.split LinkSetMessage.split)

lemma channel_queue_ok: "call_queue_ok w \<Longrightarrow> channel_step oc scheme S w w' \<Longrightarrow> call_queue_ok w'"
  by (erule channel_step.cases)
     (auto simp: busy_queue_ok, auto simp: call_queue_ok_def recv_keeps_queue drop_handle_def drop_reader_def)

lemma call_queue_ok_initial: "world_initial w \<Longrightarrow> call_queue_ok w"
  by (auto simp: call_queue_ok_def world_initial_def LinkSet_new_def LinkSet_new_debug_def start_core_def)

interpretation chan: machine_invariant world_initial "channel_step oc scheme S" call_queue_ok
  by unfold_locales (auto intro: channel_queue_ok call_queue_ok_initial)

section \<open>A user that does not receive\<close>

text \<open>What cannot change any more when the core and the calls wait.\<close>

definition stuck_in :: "('l, 'c) world \<Rightarrow> ('l, 'c) world \<Rightarrow> bool" where
  "stuck_in w w' =
     (core_waits w' \<and> calls_wait w' \<and> wd_to_core w' = wd_to_core w \<and> from_core_queue w' = from_core_queue w)"

lemma receiver_alive_take: "n < length (wd_handles w) \<Longrightarrow> receiver_alive w \<Longrightarrow> receiver_alive (snd (take_recv n w))"
  by (simp add: receiver_alive_def take_recv_def)

lemma waiting_step:
  "busy_step oc scheme S w w' \<Longrightarrow> core_waits w \<Longrightarrow> calls_wait w \<Longrightarrow>
   wd_running w' = wd_running w \<and> receiver_alive w' \<and> wd_to_core w' = wd_to_core w \<and> from_core_queue w' = from_core_queue w"
proof (induction rule: busy_step.induct)
  case (bs_take n w)
  then show ?case
    using receiver_alive_take [of n w] by (simp add: core_waits_def take_recv_def from_core_queue_def)
qed (simp_all add: core_waits_def clone_sender_def receiver_alive_def from_core_queue_def)

lemma stuck_in_step: "stuck_in w w1 \<Longrightarrow> busy_step oc scheme S w1 w2 \<Longrightarrow> stuck_in w w2"
  using waiting_step [of oc scheme S w1 w2] by (auto simp: stuck_in_def core_waits_def calls_wait_def)

interpretation stuck: machine_invariant "\<lambda>w'. w' = w \<and> core_waits w \<and> calls_wait w" "busy_step oc scheme S" "stuck_in w"
  by unfold_locales (auto simp: stuck_in_def [of w w] intro: stuck_in_step)

text \<open>How a user gets there: it connects and disconnects, and every time the core has something to say.\<close>

definition plain_env :: "bool \<Rightarrow> ('c \<Rightarrow> rust_string) \<Rightarrow> ('l, 'c) env" where
  "plain_env oc scheme =
     \<lparr>en_oc = oc, en_link = \<lparr>li_scheme = (\<lambda>_. []), li_send = (\<lambda>l _. (Inr (), l)), li_recv = (\<lambda>l. (Inr [], l)),
        li_take_reader = (\<lambda>l. (Inr (), l)), li_max_size = (\<lambda>_. 0), li_is_closed = (\<lambda>l. (False, l))\<rparr>,
      en_scheme = scheme, en_now = 0\<rparr>"

lemma plain_env_ok: "env_ok oc scheme (plain_env oc scheme)"
  by (simp add: env_ok_def plain_env_def valid_link_def)

text \<open>A world between two such calls.\<close>

definition toggling :: "nat \<Rightarrow> ('l, 'c) world \<Rightarrow> bool" where
  "toggling n w =
     (wd_running w \<and> wd_handles w = [LinkSet True] \<and> wd_to_core w = [] \<and> wd_received w = 0 \<and>
      phase_of (co_state (wd_core w)) \<in> {Ph_Disconnected, Ph_Connecting} \<and> length (cs_to_ctrl (co_common (wd_core w))) = n)"

lemma toggling_new: "toggling 0 LinkSet_new"
  by (simp add: toggling_def LinkSet_new_def start_core_def core_new_def States_new_def from_core_queue_def CommonState_new_def)

lemma toggle_core:
  assumes "phase_of (co_state core) \<in> {Ph_Disconnected, Ph_Connecting}"
    "cmd = (if phase_of (co_state core) = Ph_Disconnected then CmdConnect else CmdDisconnect)"
  shows "\<exists>core'. core_handle env core (FromCtrl (Command cmd)) = Some core' \<and>
    phase_of (co_state core') \<in> {Ph_Disconnected, Ph_Connecting} \<and>
    length (cs_to_ctrl (co_common core')) = Suc (length (cs_to_ctrl (co_common core)))"
proof -
  have "case core_handle env core (FromCtrl (Command cmd)) of None \<Rightarrow> False
    | Some core' \<Rightarrow> phase_of (co_state core') \<in> {Ph_Disconnected, Ph_Connecting} \<and>
        length (cs_to_ctrl (co_common core')) = Suc (length (cs_to_ctrl (co_common core)))"
    using assms
    by (cases "co_state core")
       (simp_all add: core_handle_def Connecting_from_Disconnected_def Disconnected_from_Connecting_def to_ctrl_def
         on_timer_def determine_timer_def case_prod_unfold Let_def split: option.split)
  then show ?thesis by (simp split: option.splits)
qed

lemma toggling_step:
  fixes w :: "('l, 'c) world" and S :: "'m sendable"
  assumes "toggling n w" "n \<le> CHANNEL_CAPACITY"
  shows "\<exists>w'. reaches (busy_step oc scheme S) w w' \<and> toggling (Suc n) w'"
proof -
  define cmd :: "('l, 'c) LinkSetControlCommand" where
    "cmd = (if phase_of (co_state (wd_core w)) = Ph_Disconnected then CmdConnect else CmdDisconnect)"
  define c :: "('l, 'c, 'm) call" where
    "c = (if phase_of (co_state (wd_core w)) = Ph_Disconnected then Call_connect else Call_disconnect)"
  let ?w = "snd (LinkSet_call S c w)"
  have w: "?w = w\<lparr>wd_to_core := [Command cmd]\<rparr>"
    using assms(1) by (simp add: toggling_def c_def cmd_def call_defs to_core_send_def)
  have call: "busy_step oc scheme S w ?w"
    by (rule bs_call [of "LinkSet True"]) (use assms(1) in \<open>simp_all add: toggling_def calls_wait_def CHANNEL_CAPACITY_def\<close>)
  obtain core' where core': "core_handle (plain_env oc scheme) (wd_core w) (FromCtrl (Command cmd)) = Some core'"
    "phase_of (co_state core') \<in> {Ph_Disconnected, Ph_Connecting}"
    "length (cs_to_ctrl (co_common core')) = Suc (length (cs_to_ctrl (co_common (wd_core w))))"
    using toggle_core [of "wd_core w" cmd "plain_env oc scheme"] assms(1) by (auto simp: toggling_def cmd_def)
  have turn: "busy_step oc scheme S ?w (core_turn (plain_env oc scheme) (FromCtrl (Command cmd)) w)"
    by (rule bs_ctrl)
       (use assms in \<open>simp_all add: toggling_def w core_waits_def from_ctrl_recv_def from_core_queue_def
          core_enabled_def cmd_def plain_env_ok\<close>)
  have "toggling (Suc n) (core_turn (plain_env oc scheme) (FromCtrl (Command cmd)) w)"
    using assms(1) core' by (simp add: toggling_def core_turn_def)
  with reaches_two [of "busy_step oc scheme S", OF call turn] show ?thesis by blast
qed

lemma toggling_reached:
  assumes "n \<le> Suc CHANNEL_CAPACITY"
  shows "\<exists>w :: ('l, 'c) world. reaches (busy_step oc scheme S) LinkSet_new w \<and> toggling n w"
  using assms
proof (induction n)
  case 0
  show ?case by (intro exI conjI, rule reaches_refl, rule toggling_new)
next
  case (Suc n)
  have "n \<le> Suc CHANNEL_CAPACITY" using Suc.prems by simp
  from Suc.IH [OF this] obtain w :: "('l, 'c) world" where
    w: "reaches (busy_step oc scheme S) LinkSet_new w" "toggling n w" by (elim exE conjE)
  obtain w' where w': "reaches (busy_step oc scheme S) w w'" "toggling (Suc n) w'"
    using toggling_step [OF w(2), of oc scheme S] Suc.prems by auto
  show ?case by (intro exI conjI, rule reaches_trans [OF w'(1) w(1)], rule w'(2))
qed

text \<open>Then calls fill the other channel.\<close>

lemma calls_fill:
  assumes "wd_running w" "wd_handles w \<noteq> []" "length (wd_to_core w) + n \<le> CHANNEL_CAPACITY"
  shows "reaches (busy_step oc scheme S) w (w\<lparr>wd_to_core := wd_to_core w @ replicate n (Command CmdConnect)\<rparr>)"
  using assms(3)
proof (induction n)
  case 0
  show ?case using reaches_refl by simp
next
  case (Suc n)
  let ?w = "w\<lparr>wd_to_core := wd_to_core w @ replicate n (Command CmdConnect)\<rparr>"
  have "busy_step oc scheme S ?w (snd (LinkSet_call S Call_connect ?w))"
    by (rule bs_call [of "hd (wd_handles w)"]) (use assms Suc.prems in \<open>simp_all add: calls_wait_def\<close>)
  moreover have "snd (LinkSet_call S Call_connect ?w) = w\<lparr>wd_to_core := wd_to_core w @ replicate (Suc n) (Command CmdConnect)\<rparr>"
    using assms(1) by (simp add: call_defs to_core_send_def replicate_append_same)
  ultimately show ?case using Suc by (auto intro: reaches_step)
qed

section \<open>A user that receives\<close>

lemma recv_queue:
  "has_from_core h \<Longrightarrow> from_core_queue (snd (LinkSet_recv S h w)) = tl (from_core_queue w)"
  by (auto simp: LinkSet_recv_def from_core_recv_def from_core_queue_def note_epoch_def drop_Suc tl_drop
      split: list.splits sum.split LinkSetMessage.split)

lemma busy_reaches_channel: "reaches (busy_step oc scheme S) w w' \<Longrightarrow> reaches (channel_step oc scheme S) w w'"
  by (induction rule: reaches.induct) (auto intro: reaches_refl reaches_step ch_busy)

section \<open>Properties\<close>

text \<open>
  C20: a user has to receive. One that only makes calls gets to a point, after some twenty of them, where
  the core waits for it to receive and all calls wait for the core; whatever links, readers,
  connection tasks, timers and other handles do from then on, the core handles nothing any more, and
  no call returns.
\<close>

theorem user_must_receive:
  "\<exists>w :: ('l, 'c) world. reaches (busy_step oc scheme S) LinkSet_new w \<and> core_waits w \<and> calls_wait w \<and>
    {w'. reaches (busy_step oc scheme S) w w'} \<subseteq> {w'. stuck_in w w'}"
proof -
  obtain w :: "('l, 'c) world" where
    w: "reaches (busy_step oc scheme S) LinkSet_new w" "toggling (Suc CHANNEL_CAPACITY) w"
    using toggling_reached [of "Suc CHANNEL_CAPACITY" oc scheme S] by auto
  let ?w = "w\<lparr>wd_to_core := wd_to_core w @ replicate CHANNEL_CAPACITY (Command CmdConnect)\<rparr>"
  have "reaches (busy_step oc scheme S) w ?w"
    by (rule calls_fill) (use w(2) in \<open>simp_all add: toggling_def\<close>)
  then have "reaches (busy_step oc scheme S) LinkSet_new ?w" using w(1) by (rule reaches_trans)
  moreover have waits: "core_waits ?w" "calls_wait ?w"
    using w(2) by (simp_all add: toggling_def core_waits_def calls_wait_def receiver_alive_def from_core_queue_def)
  moreover have "stuck_in ?w w'" if "reaches (busy_step oc scheme S) ?w w'" for w'
    by (rule stuck.inv_reachable [OF _ that]) (use waits in simp)
  ultimately show ?thesis by blast
qed



end
