(* ===== verification/Tcp_Link.thy ===== *)
theory Tcp_Link
  imports Links
begin

text \<open>
  \<^verbatim>\<open>src/src/link_impls/tcp_link.rs\<close>: links over TCP. TCP carries a stream of bytes, so a message is
  written as a length of four bytes and the message, and put together again by the reader however
  the stream is cut up.

  The sockets are tokio's: what their read half returns, call after call, and which writes fail
  after how many bytes, are part of the state of a link. A read of no bytes is the end of the
  stream. While the list of reads is empty a read is pending.
\<close>

section \<open>Errors\<close>

datatype TcpLinkError =
    TcpIo boxed_error
  | TcpReceiverTaken
  | TcpInvalidAddr
  | TcpClosed

fun tcp_error :: "TcpLinkError \<Rightarrow> boxed_error" where
  "tcp_error (TcpIo e) = e"
| "tcp_error TcpReceiverTaken = ''The receiver has already been taken''"
| "tcp_error TcpInvalidAddr = ''Invalid Address format''"
| "tcp_error TcpClosed = ''The link has closed''"

section \<open>Socket addresses\<close>

text \<open>\<open>V6\<close> has a flow label and a scope besides the octets and the port.\<close>

datatype SocketAddr =
    SA_V4 "u8 list" u16
  | SA_V6 "u8 list" u16 u32 u32

fun valid_socket_addr :: "SocketAddr \<Rightarrow> bool" where
  "valid_socket_addr (SA_V4 ip port) = (length ip = 4 \<and> port < 65536)"
| "valid_socket_addr (SA_V6 ip port flowinfo scope_id) =
     (length ip = 16 \<and> port < 65536 \<and> flowinfo < u32_bound \<and> scope_id < u32_bound)"

fun repr_from_socket_addr :: "SocketAddr \<Rightarrow> AddressRepr" where
  "repr_from_socket_addr (SA_V4 ip port) = AddrBytes (ip @ to_be_bytes 2 port)"
| "repr_from_socket_addr (SA_V6 ip port _ _) = AddrBytes (ip @ to_be_bytes 2 port)"

text \<open>\<open>parse\<close> is \<open>SocketAddr::from_str\<close>.\<close>

fun socket_addr_try_from :: "(rust_string \<Rightarrow> SocketAddr option) \<Rightarrow> AddressRepr \<Rightarrow> TcpLinkError + SocketAddr" where
  "socket_addr_try_from parse (AddrString addr) = ok_or (parse addr) TcpInvalidAddr"
| "socket_addr_try_from parse (AddrBytes bs) =
     (if length bs = 6 then Inr (SA_V4 (take 4 bs) (from_be_bytes (drop 4 bs)))
      else if length bs = 18 then Inr (SA_V6 (take 16 bs) (from_be_bytes (drop 16 bs)) 0 0)
      else Inl TcpInvalidAddr)"

text \<open>The part of a socket address that its bytes hold.\<close>

fun without_scope :: "SocketAddr \<Rightarrow> SocketAddr" where
  "without_scope (SA_V4 ip port) = SA_V4 ip port"
| "without_scope (SA_V6 ip port _ _) = SA_V6 ip port 0 0"

section \<open>Reading chunks\<close>

type_synonym socket_reads = "(boxed_error + bytes) list"

text \<open>
  The two loops of \<open>recv_chunk\<close>. \<open>None\<close> is a read that is still pending. The length of the buffer is
  cast to \<open>u32\<close> before it is compared.
\<close>

fun read_header :: "socket_reads \<Rightarrow> bytes \<Rightarrow> (TcpLinkError + u32) option \<times> socket_reads \<times> bytes" where
  "read_header [] buffer =
     (if 4 \<le> length buffer then (Some (Inr (from_be_bytes (take 4 buffer))), [], drop 4 buffer)
      else (None, [], buffer))"
| "read_header (r # reads) buffer =
     (if 4 \<le> length buffer then (Some (Inr (from_be_bytes (take 4 buffer))), r # reads, drop 4 buffer)
      else case r of
             Inl e \<Rightarrow> (Some (Inl (TcpIo e)), reads, buffer)
           | Inr x \<Rightarrow> if x = [] then (Some (Inl TcpClosed), reads, buffer) else read_header reads (buffer @ x))"

fun read_body :: "u32 \<Rightarrow> socket_reads \<Rightarrow> bytes \<Rightarrow> (TcpLinkError + bytes) option \<times> socket_reads \<times> bytes" where
  "read_body len [] buffer =
     (if len \<le> length buffer mod u32_bound then (Some (Inr (take len buffer)), [], drop len buffer)
      else (None, [], buffer))"
| "read_body len (r # reads) buffer =
     (if len \<le> length buffer mod u32_bound then (Some (Inr (take len buffer)), r # reads, drop len buffer)
      else case r of
             Inl e \<Rightarrow> (Some (Inl (TcpIo e)), reads, buffer)
           | Inr x \<Rightarrow> if x = [] then (Some (Inl TcpClosed), reads, buffer) else read_body len reads (buffer @ x))"

text \<open>The state that a reader keeps between chunks: the reads to come, the length and the buffer.\<close>

record tcp_reader =
  tr_reads :: socket_reads
  tr_length :: "u32 option"
  tr_buffer :: bytes

definition recv_body :: "u32 \<Rightarrow> tcp_reader \<Rightarrow> (TcpLinkError + bytes) option \<times> tcp_reader" where
  "recv_body len r =
     (let (res, reads, buffer) = read_body len (tr_reads r) (tr_buffer r)
      in (res, \<lparr>tr_reads = reads,
            tr_length = (case res of Some (Inr _) \<Rightarrow> None | _ \<Rightarrow> Some len), tr_buffer = buffer\<rparr>))"

definition recv_chunk :: "tcp_reader \<Rightarrow> (TcpLinkError + bytes) option \<times> tcp_reader" where
  "recv_chunk r =
     (case tr_length r of
        Some len \<Rightarrow> recv_body len r
      | None \<Rightarrow>
          (let (res, reads, buffer) = read_header (tr_reads r) (tr_buffer r);
               r = \<lparr>tr_reads = reads, tr_length = None, tr_buffer = buffer\<rparr>
           in case res of
                None \<Rightarrow> (None, r)
              | Some (Inl e) \<Rightarrow> (Some (Inl e), r)
              | Some (Inr len) \<Rightarrow> recv_body len r))"

section \<open>The link\<close>

text \<open>
  \<open>tl_faults\<close> says of each write to come whether it fails, and how many bytes it has written then.
\<close>

record TcpLink =
  tl_reader :: "socket_reads option"
  tl_written :: bytes
  tl_faults :: "(nat \<times> boxed_error) option list"
  tl_read_len :: "u32 option"
  tl_read_buffer :: bytes
  tl_is_closed :: bool

text \<open>A link over a connected socket, as \<open>connect\<close> and the listening task make it.\<close>

definition TcpLink_new :: "socket_reads \<Rightarrow> (nat \<times> boxed_error) option list \<Rightarrow> TcpLink" where
  "TcpLink_new reads faults =
     \<lparr>tl_reader = Some reads, tl_written = [], tl_faults = faults, tl_read_len = None,
      tl_read_buffer = [], tl_is_closed = False\<rparr>"

text \<open>\<open>dial\<close> is \<open>TcpStream::connect\<close>; a connected socket is its reads and its faults.\<close>

type_synonym socket = "socket_reads \<times> (nat \<times> boxed_error) option list"

definition TcpLink_connect :: "('a \<Rightarrow> boxed_error + socket) \<Rightarrow> 'a \<Rightarrow> TcpLinkError + TcpLink" where
  "TcpLink_connect dial addr =
     and_then (map_err TcpIo (dial addr)) (\<lambda>(reads, faults). Inr (TcpLink_new reads faults))"

fun connect_address ::
  "(rust_string \<Rightarrow> SocketAddr option) \<Rightarrow> (rust_string \<Rightarrow> boxed_error + socket) \<Rightarrow> (SocketAddr \<Rightarrow> boxed_error + socket) \<Rightarrow>
   AddressRepr \<Rightarrow> TcpLinkError + TcpLink" where
  "connect_address parse dial_str dial_sock (AddrString addr) = TcpLink_connect dial_str addr"
| "connect_address parse dial_str dial_sock (AddrBytes bs) =
     and_then (socket_addr_try_from parse (AddrBytes bs)) (TcpLink_connect dial_sock)"

text \<open>
  The listening task: a failed \<open>accept\<close> is logged, after a pause or at once, and the task ends when
  the receiver of the links, which takes \<open>n\<close> of them, is gone.
\<close>

fun listen_task :: "nat \<Rightarrow> (boxed_error + socket) list \<Rightarrow> TcpLink list" where
  "listen_task n [] = []"
| "listen_task n (Inl e # accepts) = listen_task n accepts"
| "listen_task n (Inr (reads, faults) # accepts) =
     (case n of 0 \<Rightarrow> [] | Suc n \<Rightarrow> TcpLink_new reads faults # listen_task n accepts)"

text \<open>\<open>open_listener\<close> is \<open>TcpListener::bind\<close>: what the listener will accept, one after the other.\<close>

definition TcpLink_listen ::
  "('a \<Rightarrow> boxed_error + (boxed_error + socket) list) \<Rightarrow> nat \<Rightarrow> 'a \<Rightarrow> TcpLinkError + TcpLink list" where
  "TcpLink_listen open_listener n listen_addr =
     and_then (map_err TcpIo (open_listener listen_addr)) (\<lambda>accepts. Inr (listen_task n accepts))"

text \<open>\<open>write_all\<close> of the socket.\<close>

definition socket_write :: "bytes \<Rightarrow> TcpLink \<Rightarrow> (TcpLinkError + unit) \<times> TcpLink" where
  "socket_write data l =
     (case tl_faults l of
        Some (n, e) # fs \<Rightarrow> (Inl (TcpIo e), l\<lparr>tl_written := tl_written l @ take n data, tl_faults := fs\<rparr>)
      | fs \<Rightarrow> (Inr (), l\<lparr>tl_written := tl_written l @ data, tl_faults := tl fs\<rparr>))"

definition write_chunk :: "bytes \<Rightarrow> TcpLink \<Rightarrow> (TcpLinkError + unit) \<times> TcpLink" where
  "write_chunk data l =
     (let (r, l) = socket_write (to_be_bytes 4 (length data mod u32_bound)) l
      in case r of
           Inl e \<Rightarrow> (Inl e, l)
         | Inr _ \<Rightarrow> socket_write data l)"

definition read_chunk :: "TcpLink \<Rightarrow> (TcpLinkError + bytes) option \<times> TcpLink" where
  "read_chunk l =
     (case tl_reader l of
        None \<Rightarrow> (Some (Inl TcpReceiverTaken), l)
      | Some reads \<Rightarrow>
          (let (res, r) = recv_chunk \<lparr>tr_reads = reads, tr_length = tl_read_len l, tr_buffer = tl_read_buffer l\<rparr>
           in (res, l\<lparr>tl_reader := Some (tr_reads r), tl_read_len := tr_length r, tl_read_buffer := tr_buffer r\<rparr>)))"

definition TCP_SCHEME :: rust_string where
  "TCP_SCHEME = [116, 99, 112]"

definition TcpLink_send :: "TcpLink \<Rightarrow> bytes \<Rightarrow> (TcpLinkError + unit) \<times> TcpLink" where
  "TcpLink_send l msg =
     (let (r, l) = write_chunk msg l
      in (r, case r of Inl _ \<Rightarrow> l\<lparr>tl_is_closed := True\<rparr> | Inr _ \<Rightarrow> l))"

definition TcpLink_recv :: "TcpLink \<Rightarrow> (TcpLinkError + bytes) option \<times> TcpLink" where
  "TcpLink_recv l =
     (let (data, l) = read_chunk l
      in (data, case data of
                  Some (Inl e) \<Rightarrow> if e = TcpReceiverTaken then l else l\<lparr>tl_is_closed := True\<rparr>
                | _ \<Rightarrow> l))"

text \<open>\<open>take_reader\<close> moves the reading half and its state into a task.\<close>

definition TcpLink_take_reader :: "TcpLink \<Rightarrow> (TcpLinkError + tcp_reader) \<times> TcpLink" where
  "TcpLink_take_reader l =
     (case tl_reader l of
        None \<Rightarrow> (Inl TcpReceiverTaken, l)
      | Some reads \<Rightarrow>
          (Inr \<lparr>tr_reads = reads, tr_length = tl_read_len l, tr_buffer = tl_read_buffer l\<rparr>,
           l\<lparr>tl_reader := None, tl_read_len := None, tl_read_buffer := []\<rparr>))"

definition TcpLink_max_size :: u32 where
  "TcpLink_max_size = (u32_bound - 1) - 4"

text \<open>\<open>recv\<close> of the trait waits for a pending read; the result it gets then is an argument.\<close>

definition TcpLink_ops :: "(TcpLinkError + bytes) \<Rightarrow> TcpLink Link" where
  "TcpLink_ops later =
     \<lparr>li_scheme = (\<lambda>_. TCP_SCHEME),
      li_send = (\<lambda>l msg. let (r, l) = TcpLink_send l msg in (map_err tcp_error r, l)),
      li_recv = (\<lambda>l. let (r, l) = TcpLink_recv l
                     in (map_err tcp_error (case r of Some data \<Rightarrow> data | None \<Rightarrow> later), l)),
      li_take_reader = (\<lambda>l. let (r, l) = TcpLink_take_reader l
                            in (map_err tcp_error (and_then r (\<lambda>_. Inr ())), l)),
      li_max_size = (\<lambda>_. TcpLink_max_size),
      li_is_closed = (\<lambda>l. (tl_is_closed l, l))\<rparr>"

text \<open>
  The reading task. Its consumer takes \<open>n\<close> chunks before it goes away; the task ends by closing the
  link, or waits for more to read.
\<close>

fun tcp_reader_task :: "nat \<Rightarrow> tcp_reader \<Rightarrow> bytes list \<times> bool" where
  "tcp_reader_task 0 r = (case recv_chunk r of (None, _) \<Rightarrow> ([], False) | (Some _, _) \<Rightarrow> ([], True))"
| "tcp_reader_task (Suc n) r =
     (case recv_chunk r of
        (None, _) \<Rightarrow> ([], False)
      | (Some (Inl _), _) \<Rightarrow> ([], True)
      | (Some (Inr chunk), r) \<Rightarrow> let (chunks, closed) = tcp_reader_task n r in (chunk # chunks, closed))"

text \<open>
  The receiver of these chunks: \<open>None\<close> is a read that waits, and the channel is closed when the task
  has ended.
\<close>

fun TcpLinkReader_read :: "bytes list \<times> bool \<Rightarrow> (TcpLinkError + bytes) option \<times> (bytes list \<times> bool)" where
  "TcpLinkReader_read (chunk # chunks, closed) = (Some (Inr chunk), (chunks, closed))"
| "TcpLinkReader_read ([], closed) = (if closed then Some (Inl TcpClosed) else None, ([], closed))"

section \<open>Frames\<close>

text \<open>What is written for a message, and the messages whose frames lie within \<open>n\<close> bytes.\<close>

definition frame :: "bytes \<Rightarrow> bytes" where
  "frame m = to_be_bytes 4 (length m) @ m"

fun frames_within :: "nat \<Rightarrow> bytes list \<Rightarrow> bytes list" where
  "frames_within n [] = []"
| "frames_within n (m # ms) = (if 4 + length m \<le> n then m # frames_within (n - (4 + length m)) ms else [])"

lemma to_be_bytes_4:
  "to_be_bytes 4 n = [word_of_nat (n div 256 div 256 div 256), word_of_nat (n div 256 div 256),
     word_of_nat (n div 256), word_of_nat n]"
proof -
  have "4 = Suc (Suc (Suc (Suc 0)))" by simp
  then show ?thesis by (simp only: to_be_bytes.simps append.simps)
qed

lemma length_frame [simp]: "length (frame m) = 4 + length m"
  by (simp add: frame_def)

lemma frames_within_all: "frames_within (length (concat (map frame ms))) ms = ms"
  by (induction ms) simp_all

text \<open>The stream arrives in pieces of at most 1024 bytes, none of them empty.\<close>

definition pieces :: "bytes list \<Rightarrow> bool" where
  "pieces xs = (\<forall>x \<in> set xs. x \<noteq> [] \<and> length x \<le> 1024)"

lemma pieces_simps [simp]:
  "pieces []" "pieces (x # xs) = (x \<noteq> [] \<and> length x \<le> 1024 \<and> pieces xs)"
  by (auto simp: pieces_def)

lemma read_header_complete:
  assumes "pieces xs" "4 \<le> length (buffer @ concat xs)" "length buffer < 1028"
  obtains ys buffer' where
    "read_header (map Inr xs) buffer = (Some (Inr (from_be_bytes (take 4 (buffer @ concat xs)))), map Inr ys, buffer')"
    "pieces ys" "buffer' @ concat ys = drop 4 (buffer @ concat xs)" "length buffer' < 1024"
proof -
  have "\<exists>ys buffer'.
      read_header (map Inr xs) buffer = (Some (Inr (from_be_bytes (take 4 (buffer @ concat xs)))), map Inr ys, buffer') \<and>
      pieces ys \<and> buffer' @ concat ys = drop 4 (buffer @ concat xs) \<and> length buffer' < 1024"
    using assms
  proof (induction xs arbitrary: buffer)
    case Nil
    then show ?case by (intro exI [of _ "[]"] exI [of _ "drop 4 buffer"]) auto
  next
    case (Cons x xs)
    show ?case
    proof (cases "4 \<le> length buffer")
      case True
      then show ?thesis
        using Cons.prems by (intro exI [of _ "x # xs"] exI [of _ "drop 4 buffer"]) auto
    next
      case False
      then show ?thesis
        using Cons.IH [of "buffer @ x"] Cons.prems by auto
    qed
  qed
  then show thesis using that by blast
qed

lemma read_header_pending:
  assumes "pieces xs" "length (buffer @ concat xs) < 4"
  shows "read_header (map Inr xs) buffer = (None, [], buffer @ concat xs)"
  using assms by (induction xs arbitrary: buffer) auto

lemma read_body_complete:
  assumes "pieces xs" "len \<le> length (buffer @ concat xs)" "length buffer < len + 1024" "len + 1024 \<le> u32_bound"
  obtains ys buffer' where
    "read_body len (map Inr xs) buffer = (Some (Inr (take len (buffer @ concat xs))), map Inr ys, buffer')"
    "pieces ys" "buffer' @ concat ys = drop len (buffer @ concat xs)" "length buffer' < 1024"
proof -
  have "\<exists>ys buffer'.
      read_body len (map Inr xs) buffer = (Some (Inr (take len (buffer @ concat xs))), map Inr ys, buffer') \<and>
      pieces ys \<and> buffer' @ concat ys = drop len (buffer @ concat xs) \<and> length buffer' < 1024"
    using assms(1-3)
  proof (induction xs arbitrary: buffer)
    case Nil
    then show ?case
      using assms(4) by (intro exI [of _ "[]"] exI [of _ "drop len buffer"]) auto
  next
    case (Cons x xs)
    have small: "length buffer mod u32_bound = length buffer"
      using Cons.prems assms(4) by simp
    show ?case
    proof (cases "len \<le> length buffer")
      case True
      then show ?thesis
        using Cons.prems small by (intro exI [of _ "x # xs"] exI [of _ "drop len buffer"]) auto
    next
      case False
      then show ?thesis
        using Cons.IH [of "buffer @ x"] Cons.prems small by auto
    qed
  qed
  then show thesis using that by blast
qed

lemma read_body_pending:
  assumes "pieces xs" "length (buffer @ concat xs) < len" "len < u32_bound"
  shows "read_body len (map Inr xs) buffer = (None, [], buffer @ concat xs)"
  using assms(1,2)
proof (induction xs arbitrary: buffer)
  case (Cons x xs)
  then have "length buffer mod u32_bound = length buffer" using assms(3) by simp
  with Cons show ?case by auto
qed (use assms(3) in simp)

text \<open>One chunk: the whole of the next frame is there, or not yet.\<close>

lemma recv_chunk_complete:
  assumes "pieces xs" "buffer @ concat xs = frame m @ unread" "length buffer < 1024" "length m + 1024 \<le> u32_bound"
  obtains ys buffer' where
    "recv_chunk \<lparr>tr_reads = map Inr xs, tr_length = None, tr_buffer = buffer\<rparr> =
       (Some (Inr m), \<lparr>tr_reads = map Inr ys, tr_length = None, tr_buffer = buffer'\<rparr>)"
    "pieces ys" "buffer' @ concat ys = unread" "length buffer' < 1024"
proof -
  have four: "4 \<le> length (buffer @ concat xs)" "length buffer < 1028"
    using assms(2,3) by simp_all
  obtain ys b where h: "read_header (map Inr xs) buffer =
      (Some (Inr (from_be_bytes (take 4 (buffer @ concat xs)))), map Inr ys, b)"
    "pieces ys" "b @ concat ys = drop 4 (buffer @ concat xs)" "length b < 1024"
    by (rule read_header_complete [OF assms(1) four])
  have len: "from_be_bytes (take 4 (buffer @ concat xs)) = length m"
    using assms(2,4) by (simp add: frame_def)
  have rest: "b @ concat ys = m @ unread"
    using h(3) assms(2) by (simp add: frame_def)
  have body: "length m \<le> length (b @ concat ys)" "length b < length m + 1024"
    using rest h(4) by simp_all
  obtain zs b' where "read_body (length m) (map Inr ys) b = (Some (Inr (take (length m) (b @ concat ys))), map Inr zs, b')"
    "pieces zs" "b' @ concat zs = drop (length m) (b @ concat ys)" "length b' < 1024"
    by (rule read_body_complete [OF h(2) body assms(4)])
  then show thesis
    using that h(1) len rest by (simp add: recv_chunk_def recv_body_def)
qed

lemma recv_chunk_pending:
  assumes "pieces xs" "buffer @ concat xs @ unread = frame m @ others" "length (buffer @ concat xs) < length (frame m)"
    "length buffer < 1024" "length m + 1024 \<le> u32_bound"
  shows "fst (recv_chunk \<lparr>tr_reads = map Inr xs, tr_length = None, tr_buffer = buffer\<rparr>) = None"
proof (cases "length (buffer @ concat xs) < 4")
  case True
  then show ?thesis
    using read_header_pending [OF assms(1)] by (simp add: recv_chunk_def)
next
  case False
  then have four: "4 \<le> length (buffer @ concat xs)" "length buffer < 1028"
    using assms(4) by simp_all
  obtain ys b where h: "read_header (map Inr xs) buffer =
      (Some (Inr (from_be_bytes (take 4 (buffer @ concat xs)))), map Inr ys, b)"
    "pieces ys" "b @ concat ys = drop 4 (buffer @ concat xs)" "length b < 1024"
    by (rule read_header_complete [OF assms(1) four])
  have "take 4 (buffer @ concat xs) = take 4 (buffer @ concat xs @ unread)"
    using four(1) by simp
  then have "take 4 (buffer @ concat xs) = to_be_bytes 4 (length m)"
    unfolding assms(2) by (simp add: frame_def)
  then have len: "from_be_bytes (take 4 (buffer @ concat xs)) = length m"
    using assms(5) by simp
  have "length (b @ concat ys) = length (buffer @ concat xs) - 4"
    unfolding h(3) by (simp only: length_drop)
  then have "length (b @ concat ys) < length m"
    using assms(3) four(1) by simp
  from read_body_pending [OF h(2) this] h(1) len assms(5) show ?thesis
    by (simp add: recv_chunk_def recv_body_def)
qed

lemma append_longer:
  assumes "a @ b = c @ d" "length c \<le> length a"
  shows "\<exists>r. a = c @ r \<and> r @ b = d"
proof (intro exI conjI)
  have "take (length c) a = c"
    using arg_cong [OF assms(1), of "take (length c)"] assms(2) by simp
  then show a: "a = c @ drop (length c) a"
    by (metis append_take_drop_id)
  show "drop (length c) a @ b = d"
    using assms(1) a by (metis append.assoc same_append_eq)
qed

lemma tcp_reader_frames:
  assumes "pieces xs" "buffer @ concat xs @ unread = concat (map frame ms)" "length buffer < 1024"
    "\<forall>m \<in> set ms. length m + 1024 \<le> u32_bound" "length ms \<le> n"
  shows "tcp_reader_task n \<lparr>tr_reads = map Inr xs, tr_length = None, tr_buffer = buffer\<rparr> =
    (frames_within (length (buffer @ concat xs)) ms, False)"
  using assms
proof (induction ms arbitrary: xs buffer n)
  case Nil
  then have "buffer @ concat xs = []" by simp
  then have "length (buffer @ concat xs) < 4"
    by (metis list.size(3) zero_less_numeral)
  from read_header_pending [OF Nil.prems(1) this] show ?case
    by (cases n) (simp_all add: recv_chunk_def)
next
  case (Cons m ms)
  then obtain n' where n: "n = Suc n'" by (cases n) auto
  show ?case
  proof (cases "length (frame m) \<le> length (buffer @ concat xs)")
    case True
    obtain rest where rest: "buffer @ concat xs = frame m @ rest" "rest @ unread = concat (map frame ms)"
      using append_longer [of "buffer @ concat xs" unread "frame m" "concat (map frame ms)"] True Cons.prems(2)
      by auto
    obtain ys b where c: "recv_chunk \<lparr>tr_reads = map Inr xs, tr_length = None, tr_buffer = buffer\<rparr> =
        (Some (Inr m), \<lparr>tr_reads = map Inr ys, tr_length = None, tr_buffer = b\<rparr>)"
      "pieces ys" "b @ concat ys = rest" "length b < 1024"
      by (rule recv_chunk_complete [OF Cons.prems(1) rest(1) Cons.prems(3)]) (use Cons.prems(4) in auto)
    have "b @ concat ys @ unread = concat (map frame ms)"
      using c(3) rest(2) by (metis append.assoc)
    from Cons.IH [OF c(2) this c(4)] Cons.prems(4,5) n
    have "tcp_reader_task n' \<lparr>tr_reads = map Inr ys, tr_length = None, tr_buffer = b\<rparr> =
        (frames_within (length rest) ms, False)"
      using c(3) by simp
    then show ?thesis
      using n c(1) rest(1) by simp
  next
    case False
    have "fst (recv_chunk \<lparr>tr_reads = map Inr xs, tr_length = None, tr_buffer = buffer\<rparr>) = None"
      by (rule recv_chunk_pending [of xs buffer unread m "concat (map frame ms)"]) (use Cons.prems False in auto)
    then show ?thesis
      using n False by (auto split: prod.split)
  qed
qed

section \<open>The contract of a link\<close>

text \<open>Everything written is a sequence of frames with the right lengths, unless the link has closed.\<close>

definition framed :: "bytes \<Rightarrow> bool" where
  "framed bs = (\<exists>ms. bs = concat (map frame ms) \<and> (\<forall>m \<in> set ms. length m \<le> TcpLink_max_size))"

definition tcp_ok :: "TcpLink \<Rightarrow> bool" where
  "tcp_ok l = (tl_is_closed l \<or> framed (tl_written l))"

lemma framed_snoc: "framed bs \<Longrightarrow> length m \<le> TcpLink_max_size \<Longrightarrow> framed (bs @ frame m)"
proof -
  assume "framed bs" "length m \<le> TcpLink_max_size"
  then obtain ms where "bs = concat (map frame ms)" "\<forall>m \<in> set ms. length m \<le> TcpLink_max_size"
    by (auto simp: framed_def)
  with \<open>length m \<le> TcpLink_max_size\<close> show ?thesis
    unfolding framed_def by (intro exI [of _ "ms @ [m]"]) auto
qed

lemma socket_write_closed [simp]: "tl_is_closed (snd (socket_write data l)) = tl_is_closed l"
  by (auto simp: socket_write_def split: list.split option.split)

lemma socket_write_Inr: "socket_write data l = (Inr u, l') \<Longrightarrow> tl_written l' = tl_written l @ data"
  by (auto simp: socket_write_def split: list.splits option.splits)

lemma write_chunk_closed: "tl_is_closed (snd (write_chunk data l)) = tl_is_closed l"
proof -
  obtain r l1 where w: "socket_write (to_be_bytes 4 (length data mod u32_bound)) l = (r, l1)"
    by (cases "socket_write (to_be_bytes 4 (length data mod u32_bound)) l")
  then have "tl_is_closed l1 = tl_is_closed l"
    using socket_write_closed [of "to_be_bytes 4 (length data mod u32_bound)" l] by simp
  with w show ?thesis
    by (simp add: write_chunk_def split: sum.split)
qed

lemma write_chunk_frame:
  assumes "write_chunk data l = (Inr u, l')" "length data < u32_bound"
  shows "tl_written l' = tl_written l @ frame data"
proof -
  obtain u1 l1 where w: "socket_write (to_be_bytes 4 (length data mod u32_bound)) l = (Inr u1, l1)"
    "socket_write data l1 = (Inr u, l')"
    using assms(1) by (auto simp: write_chunk_def split: prod.splits sum.splits)
  from socket_write_Inr [OF w(1)] socket_write_Inr [OF w(2)] assms(2) show ?thesis
    by (simp add: frame_def)
qed

lemma TcpLink_send_ok:
  assumes "tcp_ok l" "length msg \<le> TcpLink_max_size"
  shows "tcp_ok (snd (TcpLink_send l msg))"
proof -
  obtain r l' where w: "write_chunk msg l = (r, l')" by (cases "write_chunk msg l")
  have closed: "tl_is_closed l' = tl_is_closed l"
    using write_chunk_closed [of msg l] w by simp
  show ?thesis
  proof (cases r)
    case (Inr u)
    have "length msg < u32_bound" using assms(2) by (simp add: TcpLink_max_size_def)
    then have "tl_written l' = tl_written l @ frame msg"
      using write_chunk_frame [of msg l u l'] w Inr by simp
    then show ?thesis
      using assms closed w Inr by (auto simp: TcpLink_send_def tcp_ok_def framed_snoc)
  qed (use w in \<open>simp add: TcpLink_send_def tcp_ok_def\<close>)
qed

interpretation tcp: sized_link "TcpLink_ops later" tcp_ok
  by unfold_locales
     (simp_all add: TcpLink_ops_def TcpLink_max_size_def case_prod_unfold Let_def
       TcpLink_send_ok [unfolded TcpLink_max_size_def, simplified])

definition tcp_links_ok :: "TcpLink LinkManager \<Rightarrow> bool" where
  "tcp_links_ok lm = (\<forall>e \<in> set (lm_links lm). tcp_ok (le_link e))"

lemma TcpLink_ops_max_size: "OVERHEAD < li_max_size (TcpLink_ops later) l"
  by (simp add: TcpLink_ops_def TcpLink_max_size_def OVERHEAD_def)

lemma tcp_links_ok_iff: "tcp_links_ok lm = tcp.links_ok later lm"
  by (simp add: tcp_links_ok_def tcp.links_ok_def tcp.entry_ok_def TcpLink_ops_max_size)

lemma framed_Nil: "framed []"
  unfolding framed_def by (rule exI [of _ "[]"]) simp

section \<open>Sending without faults\<close>

lemma TcpLink_send_plain:
  assumes "tl_faults l = []" "length msg < u32_bound"
  shows "TcpLink_send l msg = (Inr (), l\<lparr>tl_written := tl_written l @ frame msg\<rparr>)"
  using assms by (simp add: TcpLink_send_def write_chunk_def socket_write_def frame_def Let_def)

lemma send_each_plain:
  assumes "tl_faults (le_link e) = []" "\<forall>p \<in> set ps. length (serialize p) < u32_bound"
  shows "send_each (TcpLink_ops later) ps e =
    (Inr (), e\<lparr>le_link := (le_link e)\<lparr>tl_written := tl_written (le_link e) @ concat (map (frame \<circ> serialize) ps)\<rparr>\<rparr>)"
  using assms
proof (induction ps arbitrary: e)
  case (Cons p ps)
  let ?e = "e\<lparr>le_link := (le_link e)\<lparr>tl_written := tl_written (le_link e) @ frame (serialize p)\<rparr>\<rparr>"
  have "LinkEntry_send (TcpLink_ops later) e p = (Inr (), ?e)"
    using Cons.prems
    by (simp add: LinkEntry_send_def pinned_send_def TcpLink_ops_def TcpLink_send_plain map_err_def)
  with Cons.IH [of ?e] Cons.prems show ?case by simp
qed simp

section \<open>Properties\<close>

text \<open>
  However the stream is cut into reads, the reader hands out exactly the messages whose frames
  have arrived completely, in order and unchanged, and waits; when everything that was written has
  arrived, these are all the messages. Messages stay 1024 bytes, the size of a read, below \<open>2 ^ 32\<close>.
\<close>

theorem tcp_frames_arrive:
  assumes "pieces xs" "concat xs @ unread = concat (map frame ms)"
    "\<forall>m \<in> set ms. length m + 1024 \<le> u32_bound" "length ms \<le> n"
  shows "tcp_reader_task n \<lparr>tr_reads = map Inr xs, tr_length = None, tr_buffer = []\<rparr> =
      (frames_within (length (concat xs)) ms, False) \<and>
    frames_within (length (concat (map frame ms))) ms = ms"
  using tcp_reader_frames [of xs "[]" unread ms n] assms by (simp add: frames_within_all)

lemma tcp_frames_arrive_witness:
  "tcp_reader_task 2 \<lparr>tr_reads = map Inr [[0, 0], [0, 2, 7], [8, 0, 0, 0, 1]], tr_length = None, tr_buffer = []\<rparr> =
      (frames_within (length (concat [[0, 0], [0, 2, 7], [8, 0, 0, 0, 1 :: u8]])) [[7, 8], [9]], False) \<and>
    frames_within (length (concat (map frame [[7, 8], [9]]))) [[7, 8], [9]] = [[7, 8], [9]]"
  by (rule tcp_frames_arrive [of _ "[9]"]) (simp_all add: frame_def to_be_bytes_4)

text \<open>
  C25: what a link entry sends over a TCP link without faults, its reader at the other end passes on:
  the same protocol messages in the same order, however the stream is cut up.
\<close>

theorem tcp_end_to_end:
  assumes "tl_faults (le_link e) = []" "tl_written (le_link e) = []"
    "\<forall>p \<in> set ps. valid_proto p \<and> length (serialize p) + 1024 \<le> u32_bound"
    "send_each (TcpLink_ops later) ps e = (r, e')" "pieces xs" "concat xs = tl_written (le_link e')" "length ps \<le> n"
  shows "r = Inr () \<and>
    reader_task link_id (map Inr (fst (tcp_reader_task n \<lparr>tr_reads = map Inr xs, tr_length = None, tr_buffer = []\<rparr>))) =
      map (Pair link_id) ps"
proof -
  have "\<forall>p \<in> set ps. length (serialize p) < u32_bound" using assms(3) by auto
  from send_each_plain [OF assms(1) this] assms(2,4,6)
  have r: "r = Inr ()" and xs: "concat xs @ [] = concat (map frame (map serialize ps))"
    by (auto simp: comp_def)
  have "fst (tcp_reader_task n \<lparr>tr_reads = map Inr xs, tr_length = None, tr_buffer = []\<rparr>) = map serialize ps"
    using tcp_reader_frames [of xs "[]" "[]" "map serialize ps" n] assms(3,5,7) xs
      frames_within_all [of "map serialize ps"] by simp
  with r reader_task_serialized [of ps link_id "[]"] assms(3) show ?thesis
    by (simp add: comp_def)
qed

lemma tcp_end_to_end_witness:
  "\<exists>e'. send_each (TcpLink_ops (Inl TcpClosed)) [Ping, Pong] (LinkEntry_new (TcpLink_new [] []) 0) = (Inr (), e') \<and>
     reader_task 5 (map Inr (fst (tcp_reader_task 2
       \<lparr>tr_reads = map Inr [[0, 0, 0], [1, 3, 0, 0, 0, 1, 4]], tr_length = None, tr_buffer = []\<rparr>))) = map (Pair 5) [Ping, Pong]"
proof -
  let ?e = "LinkEntry_new (TcpLink_new [] []) 0"
  obtain r e' where s: "send_each (TcpLink_ops (Inl TcpClosed)) [Ping, Pong] ?e = (r, e')"
    by (cases "send_each (TcpLink_ops (Inl TcpClosed)) [Ping, Pong] ?e")
  have w: "tl_faults (le_link ?e) = []" "tl_written (le_link ?e) = []"
    by (simp_all add: LinkEntry_new_def TcpLink_new_def)
  have "concat [[0, 0, 0], [1, 3, 0, 0, 0, 1, 4 :: u8]] = tl_written (le_link e')"
    using s send_each_plain [OF w(1), of "[Ping, Pong]" "Inl TcpClosed"] w(2)
    by (auto simp: length_serialize frame_def to_be_bytes_4)
  with tcp_end_to_end [OF w _ s, of "[[0, 0, 0], [1, 3, 0, 0, 0, 1, 4]]" 2 5] s show ?thesis
    by (simp add: length_serialize)
qed




text \<open>
  A socket address survives the way through an address of bytes, but for the flow label and the
  scope of an IPv6 address; and every address of bytes that is accepted is written back the same.
\<close>

lemma socket_addr_round_trip:
  assumes "valid_socket_addr addr"
  shows "socket_addr_try_from parse (repr_from_socket_addr addr) = Inr (without_scope addr) \<and>
    (\<forall>bs. case socket_addr_try_from parse (AddrBytes bs) of
        Inr a \<Rightarrow> valid_socket_addr a \<and> repr_from_socket_addr a = AddrBytes bs
      | Inl e \<Rightarrow> e = TcpInvalidAddr)"
proof -
  have "to_be_bytes 2 (from_be_bytes (drop 4 bs)) = drop 4 bs" "from_be_bytes (drop 4 bs) < 65536"
    if "length bs = 6" for bs
    using that to_from_be_bytes [of "drop 4 bs"] from_be_bytes_bound [of "drop 4 bs"] by simp_all
  moreover have "to_be_bytes 2 (from_be_bytes (drop 16 bs)) = drop 16 bs" "from_be_bytes (drop 16 bs) < 65536"
    if "length bs = 18" for bs
    using that to_from_be_bytes [of "drop 16 bs"] from_be_bytes_bound [of "drop 16 bs"] by simp_all
  moreover have "socket_addr_try_from parse (repr_from_socket_addr addr) = Inr (without_scope addr)"
    using assms by (cases addr) simp_all
  ultimately show ?thesis by simp
qed

end
