(* ===== verification/Interfaces.thy ===== *)
theory Interfaces
  imports Link_Set Pipe_Link Tcp_Link
begin

text \<open>
  The traits between the components, and their wrappers for trait objects: the states behind the core
  (\<^verbatim>\<open>src/src/state/mod.rs\<close>), the readers behind the reader tasks (\<^verbatim>\<open>src/src/links/link.rs\<close>) and the
  connectors behind the connection tasks (\<^verbatim>\<open>src/src/links/connector.rs\<close>). A trait is a record of
  functions on the implementing type, a trait object the functions of one value of it; pinning and
  boxing leave no trace.
\<close>

section \<open>States\<close>

record ('l, 'c, 's) State =
  st_ctrl_msg :: "'s \<Rightarrow> CommonState \<Rightarrow> ('l, 'c) LinkSetControlCommand \<Rightarrow> ('l, 'c) outcome"
  st_link_msg :: "'s \<Rightarrow> CommonState \<Rightarrow> u64 \<Rightarrow> LinkProtocol \<Rightarrow> ('l, 'c) outcome"
  st_timer :: "'s \<Rightarrow> CommonState \<Rightarrow> ('l, 'c) outcome"
  st_debug :: "'s \<Rightarrow> CommonState \<Rightarrow> DebugCommand \<Rightarrow> DebugReply \<times> ('l, 'c) outcome"

record ('l, 'c) PinnedState =
  ps_ctrl_msg :: "CommonState \<Rightarrow> ('l, 'c) LinkSetControlCommand \<Rightarrow> ('l, 'c) outcome"
  ps_link_msg :: "CommonState \<Rightarrow> u64 \<Rightarrow> LinkProtocol \<Rightarrow> ('l, 'c) outcome"
  ps_timer :: "CommonState \<Rightarrow> ('l, 'c) outcome"
  ps_debug :: "CommonState \<Rightarrow> DebugCommand \<Rightarrow> DebugReply \<times> ('l, 'c) outcome"

definition pinned_state :: "('l, 'c, 's) State \<Rightarrow> 's \<Rightarrow> ('l, 'c) PinnedState" where
  "pinned_state T self =
     \<lparr>ps_ctrl_msg = st_ctrl_msg T self, ps_link_msg = st_link_msg T self, ps_timer = st_timer T self,
      ps_debug = st_debug T self\<rparr>"

text \<open>A request for debugging is answered and leaves the common state as it is.\<close>

definition debug_of :: "('s \<Rightarrow> DebugCommand \<Rightarrow> DebugReply \<times> ('l, 'c) States) \<Rightarrow>
  's \<Rightarrow> CommonState \<Rightarrow> DebugCommand \<Rightarrow> DebugReply \<times> ('l, 'c) outcome" where
  "debug_of f self common cmd = map_prod id (\<lambda>state. Some (state, common)) (f self cmd)"

definition Disconnected_State :: "('l, 'c) env \<Rightarrow> ('l, 'c, 'c Disconnected) State" where
  "Disconnected_State env =
     \<lparr>st_ctrl_msg = Disconnected_ctrl_msg env, st_link_msg = Disconnected_link_msg, st_timer = Disconnected_timer,
      st_debug = debug_of (Disconnected_debug env)\<rparr>"

definition Connecting_State :: "('l, 'c) env \<Rightarrow> ('l, 'c, 'c Connecting) State" where
  "Connecting_State env =
     \<lparr>st_ctrl_msg = Connecting_ctrl_msg env, st_link_msg = Connecting_link_msg, st_timer = Connecting_timer,
      st_debug = debug_of (Connecting_debug env)\<rparr>"

definition EpochMismatch_State :: "('l, 'c) env \<Rightarrow> ('l, 'c, ('l, 'c) EpochMismatch) State" where
  "EpochMismatch_State env =
     \<lparr>st_ctrl_msg = EpochMismatch_ctrl_msg env, st_link_msg = EpochMismatch_link_msg env, st_timer = EpochMismatch_timer env,
      st_debug = debug_of (EpochMismatch_debug env)\<rparr>"

definition Connected_State :: "('l, 'c) env \<Rightarrow> ('l, 'c, ('l, 'c) Connected) State" where
  "Connected_State env =
     \<lparr>st_ctrl_msg = Connected_ctrl_msg env, st_link_msg = Connected_link_msg env, st_timer = Connected_timer env,
      st_debug = debug_of (Connected_debug env)\<rparr>"

definition Reconnecting_State :: "('l, 'c) env \<Rightarrow> ('l, 'c, 'c Reconnecting) State" where
  "Reconnecting_State env =
     \<lparr>st_ctrl_msg = Reconnecting_ctrl_msg env, st_link_msg = Reconnecting_link_msg env, st_timer = Reconnecting_timer env,
      st_debug = debug_of (Reconnecting_debug env)\<rparr>"

definition GracePeriod_State :: "('l, 'c) env \<Rightarrow> ('l, 'c, 'c GracePeriod) State" where
  "GracePeriod_State env =
     \<lparr>st_ctrl_msg = GracePeriod_ctrl_msg env, st_link_msg = GracePeriod_link_msg env, st_timer = GracePeriod_timer env,
      st_debug = debug_of (GracePeriod_debug env)\<rparr>"

fun into_boxed_inner :: "('l, 'c) env \<Rightarrow> ('l, 'c) States \<Rightarrow> ('l, 'c) PinnedState" where
  "into_boxed_inner env (S_Disconnected s) = pinned_state (Disconnected_State env) s"
| "into_boxed_inner env (S_Connecting s) = pinned_state (Connecting_State env) s"
| "into_boxed_inner env (S_EpochMismatch s) = pinned_state (EpochMismatch_State env) s"
| "into_boxed_inner env (S_Connected s) = pinned_state (Connected_State env) s"
| "into_boxed_inner env (S_Reconnecting s) = pinned_state (Reconnecting_State env) s"
| "into_boxed_inner env (S_GracePeriod s) = pinned_state (GracePeriod_State env) s"

lemmas state_impls = pinned_state_def Disconnected_State_def Connecting_State_def EpochMismatch_State_def
  Connected_State_def Reconnecting_State_def GracePeriod_State_def debug_of_def

text \<open>The handlers of the core are calls of these trait objects.\<close>

lemma handlers_dispatch:
  "handle_ctrl_msg env common state (Command cmd) = ps_ctrl_msg (into_boxed_inner env state) common cmd"
  "handle_link_msg env common state link_id msg = ps_link_msg (into_boxed_inner env state) common link_id msg"
  "handle_timer env common state = ps_timer (into_boxed_inner env state) common"
  "handle_debug env common state dbg = snd (ps_debug (into_boxed_inner env state) common dbg)"
  "fst (States_debug env state dbg) = fst (ps_debug (into_boxed_inner env state) common dbg)"
  by (cases state; simp add: state_impls handle_debug_def)+

section \<open>Readers\<close>

text \<open>\<open>read\<close> of a reader; \<open>None\<close> is one that waits.\<close>

record 'r LinkReader =
  rd_read :: "'r \<Rightarrow> (boxed_error + bytes) option \<times> 'r"

definition pinned_read :: "'r LinkReader \<Rightarrow> 'r \<Rightarrow> bytes LinkSetResult option \<times> 'r" where
  "pinned_read R r = (let (res, r) = rd_read R r in (map_option (map_err LinkError) res, r))"

text \<open>The results that a task gets which reads on and on, until a read waits.\<close>

fun pinned_reads :: "'r LinkReader \<Rightarrow> nat \<Rightarrow> 'r \<Rightarrow> bytes LinkSetResult list" where
  "pinned_reads R 0 r = []"
| "pinned_reads R (Suc n) r =
     (case pinned_read R r of
        (Some res, r) \<Rightarrow> res # pinned_reads R n r
      | (None, _) \<Rightarrow> [])"

text \<open>The reader of a pipe, with the clock that stands at the end of its last read.\<close>

definition PipeLinkReader_ops :: "(Instant \<times> PipeLinkReader) LinkReader" where
  "PipeLinkReader_ops =
     \<lparr>rd_read = (\<lambda>(now, r). case PipeLinkReader_read now r of
        (Some (res, t), r) \<Rightarrow> (Some (map_err pipe_error res), (t, r))
      | (None, r) \<Rightarrow> (None, (now, r)))\<rparr>"

definition TcpLinkReader_ops :: "(bytes list \<times> bool) LinkReader" where
  "TcpLinkReader_ops =
     \<lparr>rd_read = (\<lambda>rx. let (res, rx) = TcpLinkReader_read rx in (map_option (map_err tcp_error) res, rx))\<rparr>"

lemma pinned_reads_tcp:
  "length chunks \<le> n \<Longrightarrow> pinned_reads TcpLinkReader_ops n (chunks, False) = map Inr chunks"
proof (induction chunks arbitrary: n)
  case Nil
  then show ?case by (cases n) (simp_all add: pinned_read_def TcpLinkReader_ops_def)
next
  case (Cons chunk chunks)
  then show ?case by (cases n) (simp_all add: pinned_read_def TcpLinkReader_ops_def map_err_def)
qed

lemma pinned_reads_pipe:
  assumes "quiet r" "pr_rx r = items" "\<not> pr_rx_closed r" "length items \<le> n"
  shows "pinned_reads PipeLinkReader_ops n (now, r) = map (Inr \<circ> fst) items"
  using assms
proof (induction items arbitrary: n now r)
  case Nil
  then have "PipeLinkReader_read now r = (None, r)"
    by (simp add: quiet_def PipeLinkReader_read_def pipe_read_start_def Let_def)
  then show ?case by (cases n) (simp_all add: pinned_read_def PipeLinkReader_ops_def)
next
  case (Cons item items)
  obtain msg sent where item: "item = (msg, sent)" by (cases item)
  obtain k where n: "n = Suc k" "length items \<le> k" using Cons.prems(4) by (cases n) auto
  let ?r = "r\<lparr>pr_rx := items\<rparr>"
  have "pinned_read PipeLinkReader_ops (now, r) = (Some (Inr msg), (max now (wake_at r sent), ?r))"
    using read_quiet [OF Cons.prems(1), of msg sent items now] Cons.prems(2) item
    by (simp add: pinned_read_def PipeLinkReader_ops_def map_err_def)
  moreover have "quiet ?r" "\<not> pr_rx_closed ?r" using Cons.prems(1,3) by (simp_all add: quiet_def)
  ultimately show ?case using Cons.IH [of ?r k] n item by simp
qed

lemma send_each_pipe:
  assumes "pl_samples (le_link e) = []" "\<not> pl_tx_closed (le_link e)"
  shows "send_each (PipeLink_ops now later) ps e =
    (Inr (), e\<lparr>le_link := (le_link e)\<lparr>pl_tx := pl_tx (le_link e) @ map (\<lambda>p. (serialize p, now)) ps\<rparr>\<rparr>)"
  using assms
proof (induction ps arbitrary: e)
  case (Cons p ps)
  let ?e = "e\<lparr>le_link := (le_link e)\<lparr>pl_tx := pl_tx (le_link e) @ [(serialize p, now)]\<rparr>\<rparr>"
  have "LinkEntry_send (PipeLink_ops now later) e p = (Inr (), ?e)"
    using Cons.prems
    by (simp add: LinkEntry_send_def pinned_send_def PipeLink_ops_def PipeLink_send_def tx_send_def map_err_def Let_def)
  with Cons.IH [of ?e] Cons.prems show ?case by simp
qed simp

section \<open>Connectors\<close>

record ('c, 'l) LinkConnector =
  lc_scheme :: "'c \<Rightarrow> rust_string"
  lc_connect :: "'c \<Rightarrow> AddressRepr \<Rightarrow> boxed_error + 'l"

text \<open>A scheme and a function are a connector.\<close>

definition fn_connector :: "(rust_string \<times> (AddressRepr \<Rightarrow> boxed_error + 'l), 'l) LinkConnector" where
  "fn_connector = \<lparr>lc_scheme = fst, lc_connect = (\<lambda>c addr. snd c addr)\<rparr>"

definition pinned_connect :: "('c, 'l) LinkConnector \<Rightarrow> 'c \<Rightarrow> AddressRepr \<Rightarrow> 'l LinkSetResult" where
  "pinned_connect LC c addr = map_err LinkError (lc_connect LC c addr)"

text \<open>A turn of the \<open>n\<close>th task with what its connector returns for its address.\<close>

definition connecting_turn :: "('c, 'l) LinkConnector \<Rightarrow> nat \<Rightarrow> 'c ConnectorManager \<Rightarrow> 'l list \<times> 'c ConnectorManager" where
  "connecting_turn LC n cm =
     (if n < length (cg_handles cm)
      then case cg_handles cm ! n of
             (a, Some t) \<Rightarrow> ConnectorManager_turn n (pinned_connect LC (ct_conn t) (ad_addr (ca_addr a))) cm
           | (a, None) \<Rightarrow> ([], cm)
      else ([], cm))"

lemma task_step_link:
  "link \<in> set (fst (task_step connected at)) \<Longrightarrow> connected = Inr link"
  by (auto simp: task_step_def case_prod_unfold Let_def split: task_phase.splits if_splits sum.splits)

lemma pinned_connect_Inr: "pinned_connect LC c addr = Inr link \<Longrightarrow> lc_connect LC c addr = Inr link"
  by (auto simp: pinned_connect_def map_err_def split: sum.splits)

lemma connecting_turn_link:
  assumes "tasks_current cm" "link \<in> set (fst (connecting_turn LC n cm))"
  obtains a h c where "(a, h) \<in> set (cg_handles cm)" "map_of (cg_conns cm) (addr_scheme a) = Some c"
    "lc_connect LC c (ad_addr (ca_addr a)) = Inr link"
proof -
  obtain a t where n: "n < length (cg_handles cm)" "cg_handles cm ! n = (a, Some t)"
    "link \<in> set (fst (task_step (pinned_connect LC (ct_conn t) (ad_addr (ca_addr a))) (a, t)))"
    using assms(2)
    by (cases "cg_handles cm ! n")
       (auto simp: connecting_turn_def ConnectorManager_turn_def case_prod_unfold Let_def split: if_splits option.splits)
  then have h: "(a, Some t) \<in> set (cg_handles cm)" by (metis nth_mem)
  then have "map_of (cg_conns cm) (addr_scheme a) = Some (ct_conn t)"
    using assms(1) by (fastforce simp: tasks_current_def)
  with that h pinned_connect_Inr [OF task_step_link [OF n(3)]] show thesis by blast
qed

text \<open>Dropping a manager aborts the tasks that are left.\<close>

definition ConnectorManager_drop :: "'c ConnectorManager \<Rightarrow> 'c ConnectorManager" where
  "ConnectorManager_drop cm = cm\<lparr>cg_handles := map (\<lambda>(a, handle). (abort_task a handle, None)) (cg_handles cm)\<rparr>"

lemma drop_stops_tasks: "ConnectorManager_turn n r (ConnectorManager_drop cm) = ([], ConnectorManager_drop cm)"
  by (auto simp: ConnectorManager_turn_def ConnectorManager_drop_def case_prod_unfold)

section \<open>Properties\<close>

text \<open>
  C26: every message of the protocol that is written to a reliable pipe comes out of the reader task at
  the other end, in the order in which it was written, whatever the latency.
\<close>

theorem pipe_end_to_end:
  assumes "pl_samples (le_link e) = []" "\<not> pl_tx_closed (le_link e)" "pl_tx (le_link e) = []"
    "quiet r" "pr_rx r = []" "\<not> pr_rx_closed r" "\<forall>p \<in> set ps. valid_proto p" "length ps \<le> n"
    "send_each (PipeLink_ops sent later) ps e = (res, e')"
  shows "res = Inr () \<and>
    reader_task link_id (pinned_reads PipeLinkReader_ops n (now, snd (flow (le_link e', r)))) = map (Pair link_id) ps"
proof -
  have e': "res = Inr ()" "pl_tx (le_link e') = map (\<lambda>p. (serialize p, sent)) ps"
    using send_each_pipe [OF assms(1,2), of sent later ps] assms(3,9) by auto
  let ?r = "snd (flow (le_link e', r))"
  have "pinned_reads PipeLinkReader_ops n (now, ?r) = map (Inr \<circ> serialize) ps"
    using pinned_reads_pipe [of ?r "pl_tx (le_link e')" n now] assms(4,5,6,8) e'(2)
    by (simp add: flow_def quiet_def comp_def)
  with e'(1) reader_task_serialized [OF assms(7), of link_id "[]"] show ?thesis by (simp add: comp_def)
qed

lemma pipe_end_to_end_witness:
  "\<exists>e'. send_each (PipeLink_ops 5 (Inl PipeClosed)) [Ping, Ack 1 2 3] (LinkEntry_new (pair_end [] 1) 0) = (Inr (), e') \<and>
    reader_task 7 (pinned_reads PipeLinkReader_ops 2
      (9, snd (flow (le_link e', (the (pl_reader (pair_end [] 2)))\<lparr>pr_latency := Some 30\<rparr>)))) = map (Pair 7) [Ping, Ack 1 2 3]"
proof -
  let ?e = "LinkEntry_new (pair_end [] 1) 0" and ?r = "(the (pl_reader (pair_end [] 2)))\<lparr>pr_latency := Some 30\<rparr>"
  obtain res e' where s: "send_each (PipeLink_ops 5 (Inl PipeClosed)) [Ping, Ack 1 2 3] ?e = (res, e')"
    by (cases "send_each (PipeLink_ops 5 (Inl PipeClosed)) [Ping, Ack 1 2 3] ?e")
  have "res = Inr () \<and> reader_task 7 (pinned_reads PipeLinkReader_ops 2 (9, snd (flow (le_link e', ?r)))) = map (Pair 7) [Ping, Ack 1 2 3]"
    by (rule pipe_end_to_end [OF _ _ _ _ _ _ _ _ s])
       (simp_all add: LinkEntry_new_def pair_end_def quiet_def has_deadline_def Deadline_new_def)
  with s show ?thesis by auto
qed

text \<open>
  C32: a link that a connection task hands to the core was made for one of the addresses of the manager,
  by the connector that the manager has for the scheme of that address, whatever addresses and
  connectors were added before and however the tasks proceeded.
\<close>

theorem links_from_their_connector:
  assumes "manager_initial cm" "reaches (manager_step (lc_scheme LC)) cm cm'"
    "link \<in> set (fst (connecting_turn LC n cm'))"
  shows "\<exists>a h c. (a, h) \<in> set (cg_handles cm') \<and> map_of (cg_conns cm') (addr_scheme a) = Some c \<and>
    lc_connect LC c (ad_addr (ca_addr a)) = Inr link"
proof -
  have "tasks_current cm'" using mgr.inv_reachable [OF assms(1,2)] by simp
  from connecting_turn_link [OF this assms(3)] show ?thesis by blast
qed

definition example_connector :: "(bool, nat) LinkConnector" where
  "example_connector = \<lparr>lc_scheme = (\<lambda>_. [116]), lc_connect = (\<lambda>_ _. Inr 5)\<rparr>"

lemma links_from_their_connector_witness:
  "\<exists>a h c. (a, h) \<in> set (cg_handles (snd (ConnectorManager_turn 0 (Inr ()) example_manager))) \<and>
    map_of (cg_conns (snd (ConnectorManager_turn 0 (Inr ()) example_manager))) (addr_scheme a) = Some c \<and>
    lc_connect example_connector c (ad_addr (ca_addr a)) = Inr 5"
proof -
  have "reaches (manager_step (lc_scheme example_connector)) example_manager (snd (ConnectorManager_turn 0 (Inr ()) example_manager))"
    using example_reaches by (simp add: example_connector_def)
  moreover have "5 \<in> set (fst (connecting_turn example_connector 0 (snd (ConnectorManager_turn 0 (Inr ()) example_manager))))"
    by (simp add: example_eval connecting_turn_def pinned_connect_def map_err_def example_connector_def)
  ultimately show ?thesis by (rule links_from_their_connector [OF example_manager_initial])
qed

end
