(* ===== verification/Formatting.thy ===== *)
theory Formatting
  imports Link_Set
begin

text \<open>
  What the library shows of its values: errors, epochs, messages of the protocol and handles as text
  (\<^verbatim>\<open>src/src/error.rs\<close>, \<^verbatim>\<open>src/src/epoch.rs\<close>, \<^verbatim>\<open>src/src/protocol.rs\<close>, \<^verbatim>\<open>src/src/link_set\<close>), and addresses for
  serde (\<^verbatim>\<open>src/src/links/address.rs\<close>). Text is ASCII here. The parts of the standard formatter
  that are used are written out first.
\<close>

section \<open>The standard formatter\<close>

fun decimal :: "nat \<Rightarrow> string" where
  "decimal n = (if n < 10 then [char_of (48 + n)] else decimal (n div 10) @ [char_of (48 + n mod 10)])"

declare decimal.simps [simp del]

text \<open>\<open>debug_struct\<close> without the alternate flag.\<close>

fun debug_fields :: "(string \<times> string) list \<Rightarrow> string" where
  "debug_fields [] = []"
| "debug_fields [(name, value)] = name @ '': '' @ value"
| "debug_fields ((name, value) # entries) = name @ '': '' @ value @ '', '' @ debug_fields entries"

definition debug_struct :: "string \<Rightarrow> (string \<times> string) list \<Rightarrow> string" where
  "debug_struct name entries =
     (if entries = [] then name else name @ '' { '' @ debug_fields entries @ '' }'')"

definition debug_bool :: "bool \<Rightarrow> string" where
  "debug_bool b = (if b then ''true'' else ''false'')"

text \<open>A string that has nothing to escape.\<close>

definition debug_plain_string :: "string \<Rightarrow> string" where
  "debug_plain_string s = [CHR 0x22] @ s @ [CHR 0x22]"

section \<open>Errors and epochs\<close>

fun LinkSetError_fmt :: "LinkSetError \<Rightarrow> string" where
  "LinkSetError_fmt (IncorrectAddrType expected found) =
     ''incorrect address type: expected: '' @ expected @ '', found '' @ found"
| "LinkSetError_fmt DeserializeEOF = ''deserialize: unexpected end of stream''"
| "LinkSetError_fmt (DeserializeInvalid b) = ''deserialize: found invalid byte '' @ decimal (unat b)"
| "LinkSetError_fmt DeserializeInvalidLen = ''deserialize: invalid slice length: 0''"
| "LinkSetError_fmt (TaskTerminated e) = ''TaskTerminated error: '' @ e"
| "LinkSetError_fmt (SendableSerialization e) = ''LinkSetSendable serialization error: '' @ e"
| "LinkSetError_fmt (SendableDeserialization e) = ''LinkSetSendable deserialization error: '' @ e"
| "LinkSetError_fmt (LinkError e) = ''LinkError: Link failed operation with error: '' @ e"
| "LinkSetError_fmt (Implementation link_size required_size) =
     ''Implementation of link requires minimum transport size '' @ decimal required_size @ '', found '' @ decimal link_size"
| "LinkSetError_fmt ReceiverTaken =
     ''The receiver has been taken from this link set (or this LinkSet is a .clone())''"
| "LinkSetError_fmt Closed = ''A Link has closed''"
| "LinkSetError_fmt Terminated = ''The link set has terminated''"

definition Epoch_fmt :: "Epoch \<Rightarrow> string" where
  "Epoch_fmt e = decimal (to_int e)"

text \<open>The derived \<open>Debug\<close> of an epoch, and that of an optional one.\<close>

fun Epoch_debug :: "Epoch option \<Rightarrow> string" where
  "Epoch_debug None = ''None''"
| "Epoch_debug (Some e) = ''Some(Epoch('' @ decimal (to_int e) @ ''))''"

section \<open>Messages and handles\<close>

fun LinkProtocol_fmt :: "LinkProtocol \<Rightarrow> string" where
  "LinkProtocol_fmt (Reset epoch request) =
     debug_struct ''Reset'' [(''epoch'', Epoch_debug epoch), (''request'', debug_bool request)]"
| "LinkProtocol_fmt (Ack epoch seq last_index) =
     debug_struct ''Ack'' [(''epoch'', decimal epoch), (''seq'', decimal seq), (''last_index'', decimal last_index)]"
| "LinkProtocol_fmt (MsgSlice epoch seq seq_len first_index data) =
     debug_struct ''MsgSlice''
       [(''epoch'', decimal epoch), (''seq'', decimal seq), (''seq_len'', decimal seq_len),
        (''first_index'', decimal first_index),
        (''data'', debug_plain_string (''<'' @ decimal (length data) @ '' bytes>''))]"
| "LinkProtocol_fmt Ping = debug_struct ''Ping'' []"
| "LinkProtocol_fmt Pong = debug_struct ''Pong'' []"

definition LinkSet_default :: "('l, 'c) world" where
  "LinkSet_default = LinkSet_new"

text \<open>\<open>poisoned\<close> is \<open>is_poisoned\<close> of the lock of the epoch.\<close>

definition LinkSet_fmt :: "bool \<Rightarrow> LinkSet \<Rightarrow> ('l, 'c) world \<Rightarrow> string" where
  "LinkSet_fmt poisoned h w =
     (let state = (case current_epoch h w of
                     Some epoch \<Rightarrow> ''Connected(epoch='' @ Epoch_fmt epoch @ '')''
                   | None \<Rightarrow> ''Disconnected'');
          state = (if poisoned then ''Poisoned!!'' else state)
      in ''LinkSet { epoch: '' @ state @ '' }'')"

text \<open>The errors of bincode show themselves with \<open>show_inner\<close>.\<close>

fun SerdeError_fmt :: "('e \<Rightarrow> string) \<Rightarrow> 'e SerdeError \<Rightarrow> string" where
  "SerdeError_fmt show_inner (SerdeEncode e) = ''EncodeError: '' @ show_inner e"
| "SerdeError_fmt show_inner (SerdeDecode e) = ''DecodeError: '' @ show_inner e"
| "SerdeError_fmt show_inner (SerdeDecodeOther s) = ''DecodeError: '' @ s"

section \<open>Addresses\<close>

definition AddressRepr_from_string :: "rust_string \<Rightarrow> AddressRepr" where
  "AddressRepr_from_string s = AddrString s"

definition AddressRepr_from_vec :: "bytes \<Rightarrow> AddressRepr" where
  "AddressRepr_from_vec b = AddrBytes b"

text \<open>
  \<open>collect_str\<close> of the serializer takes the displayed form; what the deserializer reads as a string is
  parsed, and \<open>custom\<close> makes an error of the deserializer from one of the parser.
\<close>

definition Address_serialize :: "(bytes \<Rightarrow> rust_string) \<Rightarrow> (rust_string \<Rightarrow> 'e + 'o) \<Rightarrow> Address \<Rightarrow> 'e + 'o" where
  "Address_serialize encode collect_str a = collect_str (Address_fmt encode a)"

definition Address_deserialize ::
  "(rust_string \<Rightarrow> bytes option) \<Rightarrow> ('i \<Rightarrow> 'e + rust_string) \<Rightarrow> (AddressParseError \<Rightarrow> 'e) \<Rightarrow> 'i \<Rightarrow> 'e + Address" where
  "Address_deserialize decode read_string custom d =
     and_then (read_string d) (\<lambda>s. map_err custom (Address_from_str decode s))"

section \<open>Laws\<close>

definition undecimal :: "string \<Rightarrow> nat" where
  "undecimal s = foldl (\<lambda>n c. 10 * n + (of_char c - 48)) 0 s"

lemma undecimal_decimal: "undecimal (decimal n) = n"
proof (induction n rule: decimal.induct)
  case (1 n)
  show ?case
  proof (cases "n < 10")
    case True
    then show ?thesis by (simp add: decimal.simps [of n] undecimal_def)
  next
    case False
    then have "undecimal (decimal n) = 10 * undecimal (decimal (n div 10)) + (of_char (char_of (48 + n mod 10) :: char) - 48)"
      by (simp add: decimal.simps [of n] undecimal_def)
    moreover have "(of_char (char_of (48 + n mod 10) :: char) :: nat) = 48 + n mod 10"
      by (simp add: of_char_of)
    ultimately show ?thesis using 1 False by simp
  qed
qed

lemma decimal_eq_iff [simp]: "decimal m = decimal n \<longleftrightarrow> m = n"
  by (metis undecimal_decimal)

text \<open>The text of an epoch, and so that of a handle, tells which epoch it is.\<close>

lemma Epoch_fmt_eq_iff [simp]: "Epoch_fmt a = Epoch_fmt b \<longleftrightarrow> a = b"
  by (cases a; cases b) (simp add: Epoch_fmt_def)

lemma LinkSet_fmt_eq_iff:
  "LinkSet_fmt False h w = LinkSet_fmt False h' w' \<longleftrightarrow> current_epoch h w = current_epoch h' w'"
  by (simp add: LinkSet_fmt_def split: option.split)

text \<open>The log shows how long a slice is, and nothing of the data of the users.\<close>

lemma LinkProtocol_fmt_hides_data:
  "LinkProtocol_fmt (MsgSlice epoch seq seq_len first_index data) =
   LinkProtocol_fmt (MsgSlice epoch seq seq_len first_index data') \<longleftrightarrow> length data = length data'"
  by (simp add: debug_struct_def debug_plain_string_def)

text \<open>
  An address whose scheme has no colon survives serde, given that base64 decoding inverts encoding
  and that the format reads back the strings that it has written.
\<close>

lemma address_serde_round_trip:
  assumes "colon \<notin> set (ad_scheme a)" "\<And>b. decode (encode b) = Some b"
    "\<And>s out. collect_str s = Inr out \<Longrightarrow> read_string out = Inr s" "Address_serialize encode collect_str a = Inr out"
  shows "Address_deserialize decode read_string custom out = Inr a"
proof -
  have "Address_from_str decode (Address_fmt encode a) = Inr a"
    using assms(1,2)
    by (cases a; cases "ad_addr a") (simp_all add: Address_from_str_def Address_fmt_def split_once_append ok_or_def repr_names)
  moreover have "read_string out = Inr (Address_fmt encode a)"
    using assms(3,4) by (simp add: Address_serialize_def)
  ultimately show ?thesis by (simp add: Address_deserialize_def map_err_def)
qed

end
