(* ===== verification/Unit_Tests.thy ===== *)
theory Unit_Tests
  imports Slice_Manager Addresses Pipe_Link Tcp_Link
begin

text \<open>
  The unit tests that the sources carry, in the modules \<open>tests\<close> of \<^verbatim>\<open>slice_manager.rs\<close>,
  \<^verbatim>\<open>protocol.rs\<close>, \<^verbatim>\<open>links/address.rs\<close>, \<^verbatim>\<open>link_impls/pipe_link.rs\<close> and
  \<^verbatim>\<open>link_impls/tcp_link.rs\<close>, run on the model. A test is what it asserts; a panic on the way fails it.
  What a test draws at random is an argument, and so are the instants at which its steps happen and
  the results of third-party code. The test of the reliability of a pipe draws a thousand samples and
  compares a ratio of floating point numbers; it is left out.
\<close>

section \<open>Slices\<close>

definition test_mgr :: "(u64, u64) btree_map \<Rightarrow> SliceManager" where
  "test_mgr slices = \<lparr>sm_epoch = Epoch 2, sm_seq = 28, sm_data = replicate 100 0, sm_slices = slices\<rparr>"

text \<open>The two calls as the methods that they are.\<close>

definition mgr_add_slice :: "u64 \<Rightarrow> u64 \<Rightarrow> SliceManager \<Rightarrow> SliceManager" where
  "mgr_add_slice start stop mgr = mgr\<lparr>sm_slices := add_slice (sm_slices mgr) start stop\<rparr>"

definition mgr_remove_slice :: "u64 \<Rightarrow> u64 \<Rightarrow> SliceManager \<Rightarrow> SliceManager option" where
  "mgr_remove_slice start stop mgr =
     map_option (\<lambda>slices. mgr\<lparr>sm_slices := slices\<rparr>) (remove_slice True (sm_slices mgr) start stop)"

definition test_add_slice_empty :: bool where
  "test_add_slice_empty =
     (sm_slices (mgr_add_slice 30 70 (test_mgr [])) = [(30, 70)])"

definition test_add_slice_split :: bool where
  "test_add_slice_split =
     (sm_slices (mgr_add_slice 30 70 (test_mgr (bt_insert 60 99 (bt_insert 0 40 [])))) = [(0, 99)])"

definition test_add_slice_left_hand_overlap :: bool where
  "test_add_slice_left_hand_overlap =
     (sm_slices (mgr_add_slice 30 70 (test_mgr (bt_insert 0 50 []))) = [(0, 70)])"

definition test_add_slice_right_hand_overlap :: bool where
  "test_add_slice_right_hand_overlap =
     (sm_slices (mgr_add_slice 30 70 (test_mgr (bt_insert 50 99 []))) = [(30, 99)])"

definition test_add_slice_full_overlap :: bool where
  "test_add_slice_full_overlap =
     (sm_slices (mgr_add_slice 40 60 (test_mgr (bt_insert 30 70 []))) = [(30, 70)])"

definition test_add_slice_exact_overlap :: bool where
  "test_add_slice_exact_overlap =
     (sm_slices (mgr_add_slice 30 70 (test_mgr (bt_insert 30 70 []))) = [(30, 70)])"

definition test_add_slice_off_by_one_left :: bool where
  "test_add_slice_off_by_one_left =
     (sm_slices (mgr_add_slice 30 70 (test_mgr (bt_insert 29 29 []))) = [(29, 70)])"

definition test_add_slice_off_by_one_right :: bool where
  "test_add_slice_off_by_one_right =
     (sm_slices (mgr_add_slice 30 70 (test_mgr (bt_insert 71 71 []))) = [(30, 71)])"

definition test_add_slice_multiple_regions :: bool where
  "test_add_slice_multiple_regions =
     (sm_slices (mgr_add_slice 30 70 (test_mgr (bt_insert 85 95 (bt_insert 65 75 (bt_insert 45 55 (bt_insert 25 35 (bt_insert 5 15 []))))))) = [(5, 15), (25, 75), (85, 95)])"

definition test_remove_slice_split :: bool where
  "test_remove_slice_split =
     (map_option sm_slices (mgr_remove_slice 30 70 (test_mgr (bt_insert 0 100 []))) = Some [(0, 29), (71, 100)])"

definition test_remove_slice_left_hand_overlap :: bool where
  "test_remove_slice_left_hand_overlap =
     (map_option sm_slices (mgr_remove_slice 30 70 (test_mgr (bt_insert 0 50 []))) = Some [(0, 29)])"

definition test_remove_slice_right_hand_overlap :: bool where
  "test_remove_slice_right_hand_overlap =
     (map_option sm_slices (mgr_remove_slice 30 70 (test_mgr (bt_insert 50 100 []))) = Some [(71, 100)])"

definition test_remove_slice_full_overlap :: bool where
  "test_remove_slice_full_overlap =
     (map_option sm_slices (mgr_remove_slice 30 70 (test_mgr (bt_insert 40 60 []))) = Some [])"

definition test_remove_slice_exact_overlap :: bool where
  "test_remove_slice_exact_overlap =
     (map_option sm_slices (mgr_remove_slice 30 70 (test_mgr (bt_insert 30 70 []))) = Some [])"

definition test_remove_slice_off_by_one_left :: bool where
  "test_remove_slice_off_by_one_left =
     (map_option sm_slices (mgr_remove_slice 30 70 (test_mgr (bt_insert 29 70 []))) = Some [(29, 29)])"

definition test_remove_slice_off_by_one_right :: bool where
  "test_remove_slice_off_by_one_right =
     (map_option sm_slices (mgr_remove_slice 30 70 (test_mgr (bt_insert 30 71 []))) = Some [(71, 71)])"

definition test_remove_slice_multiple_regions :: bool where
  "test_remove_slice_multiple_regions =
     (map_option sm_slices (mgr_remove_slice 30 70 (test_mgr (bt_insert 85 95 (bt_insert 65 75 (bt_insert 45 55 (bt_insert 25 35 (bt_insert 5 15 []))))))) = Some [(5, 15), (25, 29), (71, 75), (85, 95)])"

text \<open>The data of slices; a message of another kind makes the test panic.\<close>

fun slices_data :: "LinkProtocol list \<Rightarrow> bytes list option" where
  "slices_data [] = Some []"
| "slices_data (MsgSlice _ _ _ _ data # ps) = map_option ((#) data) (slices_data ps)"
| "slices_data (_ # ps) = None"

text \<open>\<open>b"test data"\<close>.\<close>

definition test_data :: bytes where
  "test_data = [116, 101, 115, 116, 32, 100, 97, 116, 97]"

definition test_make_slices_simple :: bool where
  "test_make_slices_simple =
     (let mgr = SliceManager_from_vec (Epoch 4) 50 test_data; stop = length (sm_data mgr) - 1
      in Option.bind (make_slices True (sm_data mgr) (Epoch 4) 39 5 3 stop) slices_data = Some [[100, 97, 116], [97]])"

definition test_make_slices_len :: bool where
  "test_make_slices_len =
     (let mgr = SliceManager_from_vec (Epoch 4) 50 test_data; stop = length (sm_data mgr) - 1
      in map_option length (make_slices True (sm_data mgr) (Epoch 4) 39 5 3 stop) = Some (stop - 5 - 1))"

fun slice_seq_is :: "u64 \<Rightarrow> LinkProtocol \<Rightarrow> bool" where
  "slice_seq_is seq (MsgSlice _ slice_seq _ _ _) = (slice_seq = seq)"
| "slice_seq_is seq _ = False"

definition test_make_slices_seq :: bool where
  "test_make_slices_seq =
     (let mgr = SliceManager_from_vec (Epoch 4) 50 test_data; stop = length (sm_data mgr) - 1
      in case make_slices True (sm_data mgr) (Epoch 4) 35 5 3 stop of
           Some slices \<Rightarrow> list_all (slice_seq_is 35) slices
         | None \<Rightarrow> False)"

fun slice_seq_len_is :: "u64 \<Rightarrow> LinkProtocol \<Rightarrow> bool" where
  "slice_seq_len_is len (MsgSlice _ _ seq_len _ _) = (len = seq_len)"
| "slice_seq_len_is len _ = False"

definition test_make_slices_proto_len :: bool where
  "test_make_slices_proto_len =
     (let mgr = SliceManager_from_vec (Epoch 4) 35 test_data; stop = length (sm_data mgr) - 1
      in case make_slices True (sm_data mgr) (Epoch 4) 35 5 3 stop of
           Some slices \<Rightarrow> list_all (slice_seq_len_is (length test_data)) slices
         | None \<Rightarrow> False)"

definition test_make_slices_end_before_start :: bool where
  "test_make_slices_end_before_start =
     (let mgr = SliceManager_from_vec (Epoch 4) 65 test_data
      in Option.bind (make_slices True (sm_data mgr) (Epoch 4) 65 5 3 4) slices_data = Some [])"

definition test_make_slices_zero_sized :: bool where
  "test_make_slices_zero_sized =
     (let mgr = SliceManager_from_vec (Epoch 6) 342 test_data
      in Option.bind (make_slices True (sm_data mgr) (Epoch 6) 342 5 0 7) slices_data = Some [])"

definition test_is_full_new :: bool where
  "test_is_full_new =
     (let mgr = SliceManager_from_vec (Epoch 4) 50 test_data
      in SliceManager_is_full True mgr = Some True \<and> \<not> SliceManager_is_empty mgr)"

definition test_is_full_one_slice :: bool where
  "test_is_full_one_slice =
     (case map_option (mgr_add_slice 5 10) (SliceManager_new (Epoch 4) 50 20) of
        Some mgr \<Rightarrow> SliceManager_is_full True mgr = Some False \<and> \<not> SliceManager_is_empty mgr
      | None \<Rightarrow> False)"

definition test_is_full_two_slice :: bool where
  "test_is_full_two_slice =
     (case map_option (mgr_add_slice 15 18 \<circ> mgr_add_slice 5 10) (SliceManager_new (Epoch 4) 50 20) of
        Some mgr \<Rightarrow> SliceManager_is_full True mgr = Some False \<and> \<not> SliceManager_is_empty mgr
      | None \<Rightarrow> False)"

definition test_is_empty_new :: bool where
  "test_is_empty_new =
     (case SliceManager_new (Epoch 4) 50 10 of
        Some mgr \<Rightarrow> SliceManager_is_empty mgr \<and> SliceManager_is_full True mgr = Some False
      | None \<Rightarrow> False)"

lemmas slice_test_defs = test_mgr_def mgr_add_slice_def mgr_remove_slice_def add_slice_def remove_slice_def
  add_slice_loop.simps remove_slice_loop.simps bt_remove_def bt_retain_def bt_first_def bt_last_def
  bt_from_def bt_below_def

lemma add_slice_tests_pass:
  "test_add_slice_empty" "test_add_slice_split" "test_add_slice_left_hand_overlap" "test_add_slice_right_hand_overlap" "test_add_slice_full_overlap" "test_add_slice_exact_overlap" "test_add_slice_off_by_one_left" "test_add_slice_off_by_one_right" "test_add_slice_multiple_regions"
  by (simp_all add: test_add_slice_empty_def test_add_slice_split_def test_add_slice_left_hand_overlap_def test_add_slice_right_hand_overlap_def test_add_slice_full_overlap_def test_add_slice_exact_overlap_def test_add_slice_off_by_one_left_def test_add_slice_off_by_one_right_def test_add_slice_multiple_regions_def slice_test_defs)

lemma remove_slice_tests_pass:
  "test_remove_slice_split" "test_remove_slice_left_hand_overlap" "test_remove_slice_right_hand_overlap" "test_remove_slice_full_overlap" "test_remove_slice_exact_overlap" "test_remove_slice_off_by_one_left" "test_remove_slice_off_by_one_right" "test_remove_slice_multiple_regions"
  by (simp_all add: test_remove_slice_split_def test_remove_slice_left_hand_overlap_def test_remove_slice_right_hand_overlap_def test_remove_slice_full_overlap_def test_remove_slice_exact_overlap_def test_remove_slice_off_by_one_left_def test_remove_slice_off_by_one_right_def test_remove_slice_multiple_regions_def slice_test_defs add_u64_def sub_u64_def)

lemma make_slices_tests_pass:
  "test_make_slices_simple" "test_make_slices_len" "test_make_slices_seq" "test_make_slices_proto_len"
  "test_make_slices_end_before_start" "test_make_slices_zero_sized"
  by (simp_all add: test_make_slices_simple_def test_make_slices_len_def test_make_slices_seq_def
      test_make_slices_proto_len_def test_make_slices_end_before_start_def test_make_slices_zero_sized_def
      SliceManager_from_vec_def test_data_def make_slices_def make_slices_loop.simps add_u64_def sub_u64_def Let_def)

lemma is_full_tests_pass:
  "test_is_full_new" "test_is_full_one_slice" "test_is_full_two_slice" "test_is_empty_new"
  by (simp_all add: test_is_full_new_def test_is_full_one_slice_def test_is_full_two_slice_def test_is_empty_new_def
      SliceManager_from_vec_def SliceManager_new_def SliceManager_is_full_def SliceManager_is_empty_def test_data_def
      sub_u64_def slice_test_defs)

section \<open>Messages\<close>

definition round_trips :: "LinkProtocol \<Rightarrow> bool" where
  "round_trips p = (case deserialize (serialize p) of Inr (q, _) \<Rightarrow> p = q | Inl _ \<Rightarrow> False)"

definition test_reset_round_trip :: "u64 \<Rightarrow> bool \<Rightarrow> bool" where
  "test_reset_round_trip drawn request = round_trips (Reset (Some (Epoch_random drawn)) request)"

definition test_slice_round_trip :: "u64 \<Rightarrow> u64 \<Rightarrow> u64 \<Rightarrow> u64 \<Rightarrow> bytes \<Rightarrow> bool" where
  "test_slice_round_trip epoch seq seq_len first_index data = round_trips (MsgSlice epoch seq seq_len first_index data)"

definition test_ack_round_trip :: "u64 \<Rightarrow> u64 \<Rightarrow> u64 \<Rightarrow> bool" where
  "test_ack_round_trip epoch seq last_index = round_trips (Ack epoch seq last_index)"

definition test_ping_round_trip :: bool where
  "test_ping_round_trip = round_trips Ping"

definition test_pong_round_trip :: bool where
  "test_pong_round_trip = round_trips Pong"

lemma round_tripsI: "valid_proto p \<Longrightarrow> round_trips p"
  using deserialize_serialize [of p "[]"] by (simp add: round_trips_def)

text \<open>Drawn numbers are of the width of the field that they are drawn for, and the data are twenty bytes.\<close>

lemma protocol_tests_pass:
  "drawn < u64_bound \<Longrightarrow> test_reset_round_trip drawn request"
  "epoch < u64_bound \<Longrightarrow> seq < u64_bound \<Longrightarrow> seq_len < u64_bound \<Longrightarrow> first_index < u64_bound \<Longrightarrow> length data = 20 \<Longrightarrow>
    test_slice_round_trip epoch seq seq_len first_index data"
  "epoch < u64_bound \<Longrightarrow> seq < u64_bound \<Longrightarrow> last_index < u64_bound \<Longrightarrow> test_ack_round_trip epoch seq last_index"
  "test_ping_round_trip" "test_pong_round_trip"
proof -
  show "drawn < u64_bound \<Longrightarrow> test_reset_round_trip drawn request"
    unfolding test_reset_round_trip_def by (rule round_tripsI) (simp add: valid_opt_epoch_def valid_random)
qed (simp_all add: test_slice_round_trip_def test_ack_round_trip_def test_ping_round_trip_def test_pong_round_trip_def
      round_tripsI)

section \<open>Addresses\<close>

definition ascii :: "string \<Rightarrow> rust_string" where
  "ascii s = map of_char s"

definition test_addr :: Address where
  "test_addr = Address_new (ascii ''test_scheme'') (AddrString (ascii ''test_addr''))"

definition test_string_round_trip :: "(bytes \<Rightarrow> rust_string) \<Rightarrow> (rust_string \<Rightarrow> bytes option) \<Rightarrow> bool" where
  "test_string_round_trip encode decode = (Address_from_str decode (Address_fmt encode test_addr) = Inr test_addr)"

text \<open>That a string parses, and to what.\<close>

definition parses_to :: "(rust_string \<Rightarrow> bytes option) \<Rightarrow> string \<Rightarrow> (Address \<Rightarrow> bool) \<Rightarrow> bool" where
  "parses_to decode s P = (case Address_from_str decode (ascii s) of Inr a \<Rightarrow> P a | Inl _ \<Rightarrow> False)"

definition test_parse_string_default :: "(rust_string \<Rightarrow> bytes option) \<Rightarrow> bool" where
  "test_parse_string_default decode =
     parses_to decode ''test_scheme:192.168.0.1:8080''
       (\<lambda>a. ad_scheme a = ascii ''test_scheme'' \<and> addr_string a = Inr (ascii ''192.168.0.1:8080''))"

definition test_parse_string_default_txt :: "(rust_string \<Rightarrow> bytes option) \<Rightarrow> bool" where
  "test_parse_string_default_txt decode =
     parses_to decode ''test_scheme:txt:192.168.0.1:8080''
       (\<lambda>a. ad_scheme a = ascii ''test_scheme'' \<and> addr_string a = Inr (ascii ''192.168.0.1:8080''))"

definition test_parse_string_empty_txt :: "(rust_string \<Rightarrow> bytes option) \<Rightarrow> bool" where
  "test_parse_string_empty_txt decode =
     parses_to decode ''test_scheme:txt:'' (\<lambda>a. ad_scheme a = ascii ''test_scheme'' \<and> addr_string a = Inr [])"

definition test_parse_string_default_b64 :: "(rust_string \<Rightarrow> bytes option) \<Rightarrow> bool" where
  "test_parse_string_default_b64 decode =
     parses_to decode ''test_scheme:b64:MTkyLjE2OC4wLjE6ODA4MA==''
       (\<lambda>a. ad_scheme a = ascii ''test_scheme'' \<and> addr_bytes a = Inr (ascii ''192.168.0.1:8080''))"

definition test_parse_string_empty_b64 :: "(rust_string \<Rightarrow> bytes option) \<Rightarrow> bool" where
  "test_parse_string_empty_b64 decode =
     parses_to decode ''test_scheme:b64:'' (\<lambda>a. ad_scheme a = ascii ''test_scheme'' \<and> addr_bytes a = Inr [])"

definition test_display_round_trip :: "(bytes \<Rightarrow> rust_string) \<Rightarrow> (rust_string \<Rightarrow> bytes option) \<Rightarrow> bool" where
  "test_display_round_trip encode decode = (Address_from_str decode (Address_fmt encode test_addr) = Inr test_addr)"

definition test_compact_bytes_round_trip :: bool where
  "test_compact_bytes_round_trip = (Address_from_bytes (Address_to_bytes test_addr) = Inr test_addr)"

definition test_empty_compact_bytes_round_trip :: bool where
  "test_empty_compact_bytes_round_trip =
     (let addr = Address_new (ascii ''test_scheme'') (AddrString [])
      in Address_from_bytes (Address_to_bytes addr) = Inr addr)"

text \<open>This test only prints the result, so it is given here.\<close>

definition test_empty_compact_bytes_input :: "Address LinkSetResult" where
  "test_empty_compact_bytes_input = Address_from_bytes (ascii ''test_scheme:'')"

lemmas address_test_defs = ascii_def parses_to_def Address_from_str_def split_once_def colon_def ok_or_def txt_name_def
  b64_name_def addr_string_def addr_bytes_def test_addr_def Address_new_def Address_fmt_def

lemma address_string_tests_pass:
  "test_string_round_trip encode decode" "test_display_round_trip encode decode"
  "test_parse_string_default decode" "test_parse_string_default_txt decode" "test_parse_string_empty_txt decode"
  by (simp_all add: test_string_round_trip_def test_display_round_trip_def test_parse_string_default_def
      test_parse_string_default_txt_def test_parse_string_empty_txt_def address_test_defs)

lemma address_b64_tests_pass:
  "decode (ascii ''MTkyLjE2OC4wLjE6ODA4MA=='') = Some (ascii ''192.168.0.1:8080'') \<Longrightarrow> test_parse_string_default_b64 decode"
  "decode [] = Some [] \<Longrightarrow> test_parse_string_empty_b64 decode"
  by (simp_all add: test_parse_string_default_b64_def test_parse_string_empty_b64_def address_test_defs)

lemma address_bytes_tests_pass:
  "test_compact_bytes_round_trip" "test_empty_compact_bytes_round_trip" "test_empty_compact_bytes_input = Inl DeserializeEOF"
  by (simp_all add: test_compact_bytes_round_trip_def test_empty_compact_bytes_round_trip_def
      test_empty_compact_bytes_input_def address_test_defs Address_from_bytes_def Address_to_bytes_def from_utf8_def
      STRING_SYMBOL_def)

section \<open>Pipes\<close>

text \<open>
  A pair of ends. What \<open>a\<close> sends reaches the reader of \<open>b\<close> at once; \<open>later\<close> is what a read would return
  that has to wait, which none of these does.
\<close>

type_synonym 'p draws = "'p \<Rightarrow> (bool list \<times> bool list) option"

definition arrive :: "PipeLink \<times> PipeLink \<Rightarrow> PipeLink \<times> PipeLink" where
  "arrive ab =
     (case pl_reader (snd ab) of
        None \<Rightarrow> ab
      | Some r \<Rightarrow> (let (a, r) = flow (fst ab, r) in (a, (snd ab)\<lparr>pl_reader := Some r\<rparr>)))"

definition pair_send :: "Instant \<Rightarrow> bytes \<Rightarrow> PipeLink \<times> PipeLink \<Rightarrow> (PipeLink \<times> PipeLink) option" where
  "pair_send now msg ab =
     (case pinned_send (PipeLink_ops now (Inl PipeClosed)) (fst ab) msg of
        (Inr _, a) \<Rightarrow> Some (arrive (a, snd ab))
      | (Inl _, _) \<Rightarrow> None)"

definition pair_recv :: "Instant \<Rightarrow> (PipeLinkError + bytes) \<Rightarrow> PipeLink \<times> PipeLink \<Rightarrow> bytes LinkSetResult" where
  "pair_recv now later ab = fst (pinned_recv (PipeLink_ops now later) (snd ab))"

definition pair_cancel :: "PipeLink \<times> PipeLink \<Rightarrow> PipeLink \<times> PipeLink" where
  "pair_cancel ab =
     (case (pl_reader (fst ab), pl_reader (snd ab)) of
        (Some r1, Some r2) \<Rightarrow>
          (let (r1, r2) = PipeLinkCanceler_cancel (r1, r2)
           in ((fst ab)\<lparr>pl_reader := Some r1\<rparr>, (snd ab)\<lparr>pl_reader := Some r2\<rparr>))
      | _ \<Rightarrow> ab)"

definition test_pipe_links_send_recv :: "'p draws \<Rightarrow> 'p \<Rightarrow> u32 \<times> u32 \<Rightarrow> Instant \<Rightarrow> Instant \<Rightarrow> (PipeLinkError + bytes) \<Rightarrow> bool" where
  "test_pipe_links_send_recv bernoulli one ids t1 t2 later =
     (case do { ab \<leftarrow> PipeLink_create_pair bernoulli one ids; pair_send t1 (ascii ''test'') ab } of
        Some ab \<Rightarrow> pair_recv t2 later ab = Inr (ascii ''test'')
      | None \<Rightarrow> False)"

definition test_pipe_links_send_recv_canceled ::
  "'p draws \<Rightarrow> 'p \<Rightarrow> u32 \<times> u32 \<Rightarrow> Instant \<Rightarrow> Instant \<Rightarrow> (PipeLinkError + bytes) \<Rightarrow> bool" where
  "test_pipe_links_send_recv_canceled bernoulli one ids t1 t2 later =
     (case do { ab \<leftarrow> PipeLink_create_pair bernoulli one ids; pair_send t1 (ascii ''test'') (pair_cancel ab) } of
        Some ab \<Rightarrow> (case pair_recv t2 later ab of Inl (LinkError _) \<Rightarrow> True | _ \<Rightarrow> False)
      | None \<Rightarrow> False)"

text \<open>Here the reader is taken out of the link, and the result of the send is not looked at.\<close>

definition test_pipe_links_taken_send_recv_canceled ::
  "'p draws \<Rightarrow> 'p \<Rightarrow> u32 \<times> u32 \<Rightarrow> Instant \<Rightarrow> Instant \<Rightarrow> bool" where
  "test_pipe_links_taken_send_recv_canceled bernoulli one ids t1 t2 =
     (case map_option pair_cancel (PipeLink_create_pair bernoulli one ids) of
        None \<Rightarrow> False
      | Some (a, b) \<Rightarrow>
          (case PipeLink_take_reader b of
             (Inl _, _) \<Rightarrow> False
           | (Inr reader, _) \<Rightarrow>
               (let a = snd (pinned_send (PipeLink_ops t1 (Inl PipeClosed)) a (ascii ''test''));
                    reader = snd (flow (a, reader))
                in case PipeLinkReader_read t2 reader of (Some (Inl _, _), _) \<Rightarrow> True | _ \<Rightarrow> False)))"

definition test_pipe_links_send_recv_not_expired ::
  "'p draws \<Rightarrow> 'p \<Rightarrow> u32 \<times> u32 \<Rightarrow> Instant \<Rightarrow> Instant \<Rightarrow> Instant \<Rightarrow> (PipeLinkError + bytes) \<Rightarrow> bool" where
  "test_pipe_links_send_recv_not_expired bernoulli one ids t0 t1 t2 later =
     (let builder = builder_expiration (Some (from_secs 2)) (PipeLinkBuilder_new one)
      in case do { ab \<leftarrow> builder_create_pair bernoulli t0 ids builder; pair_send t1 (ascii ''test'') ab } of
           Some ab \<Rightarrow> pair_recv t2 later ab = Inr (ascii ''test'')
         | None \<Rightarrow> False)"

definition test_pipe_links_send_recv_expired ::
  "'p draws \<Rightarrow> 'p \<Rightarrow> u32 \<times> u32 \<Rightarrow> Instant \<Rightarrow> Instant \<Rightarrow> Instant \<Rightarrow> (PipeLinkError + bytes) \<Rightarrow> bool" where
  "test_pipe_links_send_recv_expired bernoulli one ids t0 t1 t2 later =
     (let builder = builder_expiration (Some (from_secs 1)) (PipeLinkBuilder_new one)
      in case do { ab \<leftarrow> builder_create_pair bernoulli t0 ids builder; pair_send t1 (ascii ''test'') ab } of
           Some ab \<Rightarrow> (case pair_recv t2 later ab of Inl (LinkError _) \<Rightarrow> True | _ \<Rightarrow> False)
         | None \<Rightarrow> False)"

text \<open>The clock of this one starts at \<open>t2\<close>, and the read starts then and says when it ends.\<close>

definition test_pipe_links_send_recv_latency ::
  "'p draws \<Rightarrow> 'p \<Rightarrow> u32 \<times> u32 \<Rightarrow> Instant \<Rightarrow> Instant \<Rightarrow> Instant \<Rightarrow> bool" where
  "test_pipe_links_send_recv_latency bernoulli one ids t0 t1 t2 =
     (let builder = builder_latency (Some (from_millis 2000)) (PipeLinkBuilder_new one)
      in case do { ab \<leftarrow> builder_create_pair bernoulli t0 ids builder; (a, b) \<leftarrow> pair_send t1 (ascii ''test'') ab; pl_reader b } of
           Some reader \<Rightarrow>
             (case PipeLinkReader_read t2 reader of
                (Some (Inr msg, t3), _) \<Rightarrow>
                  msg = ascii ''test'' \<and> from_millis 1900 < t3 - t2 \<and> t3 - t2 < from_millis 2100
              | _ \<Rightarrow> False)
         | None \<Rightarrow> False)"

text \<open>The receiver that \<open>listen\<close> returns.\<close>

definition listener_recv :: "rust_string \<Rightarrow> 'p PipeLinkHub \<Rightarrow> (PipeLink \<times> 'p PipeLinkHub) option" where
  "listener_recv addr hub =
     (case ph_listeners hub addr of
        None \<Rightarrow> None
      | Some listener \<Rightarrow>
          (case ls_links listener of
             [] \<Rightarrow> None
           | l # ls \<Rightarrow> Some (l, hub\<lparr>ph_listeners := (ph_listeners hub)(addr \<mapsto> listener\<lparr>ls_links := ls\<rparr>)\<rparr>)))"

text \<open>A connection: the end of the one who connects, and the end of the listener.\<close>

definition hub_pair ::
  "'p draws \<Rightarrow> Instant \<Rightarrow> u32 \<times> u32 \<Rightarrow> rust_string \<Rightarrow> 'p PipeLinkHub \<Rightarrow> ((PipeLink \<times> PipeLink) \<times> 'p PipeLinkHub) option" where
  "hub_pair bernoulli now ids addr hub =
     do { (connected, hub) \<leftarrow> PipeLinkHub_connect bernoulli now ids addr hub;
          b \<leftarrow> connected;
          (a, hub) \<leftarrow> listener_recv addr hub;
          Some ((b, a), hub) }"

definition test_pipe_link_hub_send_recv ::
  "'p draws \<Rightarrow> 'p \<Rightarrow> u32 \<times> u32 \<Rightarrow> Instant \<Rightarrow> Instant \<Rightarrow> Instant \<Rightarrow> (PipeLinkError + bytes) \<Rightarrow> bool" where
  "test_pipe_link_hub_send_recv bernoulli one ids t0 t1 t2 later =
     (let hub = PipeLinkHub_listen (ascii ''addr1'') (PipeLinkHub_new (PipeLinkBuilder_new one))
      in case do { ((b, a), _) \<leftarrow> hub_pair bernoulli t0 ids (ascii ''addr1'') hub; pair_send t1 (ascii ''test'') (a, b) } of
           Some ab \<Rightarrow> pair_recv t2 later ab = Inr (ascii ''test'')
         | None \<Rightarrow> False)"

definition test_pipe_link_hub_send_recv_two_links_one_addr ::
  "'p draws \<Rightarrow> 'p \<Rightarrow> u32 \<times> u32 \<Rightarrow> u32 \<times> u32 \<Rightarrow> Instant \<Rightarrow> Instant \<Rightarrow> Instant \<Rightarrow> (PipeLinkError + bytes) \<Rightarrow> bool" where
  "test_pipe_link_hub_send_recv_two_links_one_addr bernoulli one ids1 ids2 t0 t1 t2 later =
     (let hub = PipeLinkHub_listen (ascii ''addr1'') (PipeLinkHub_new (PipeLinkBuilder_new one))
      in case do { ((b, a), hub) \<leftarrow> hub_pair bernoulli t0 ids1 (ascii ''addr1'') hub;
                   (cd, _) \<leftarrow> hub_pair bernoulli t0 ids2 (ascii ''addr1'') hub;
                   ab \<leftarrow> pair_send t1 (ascii ''test'') (a, b);
                   cd \<leftarrow> pair_send t1 (ascii ''test'') cd;
                   Some (ab, cd) } of
           Some (ab, cd) \<Rightarrow> pair_recv t2 later ab = Inr (ascii ''test'') \<and> pair_recv t2 later cd = Inr (ascii ''test'')
         | None \<Rightarrow> False)"

definition test_pipe_link_hub_send_recv_two_links_two_addr ::
  "'p draws \<Rightarrow> 'p \<Rightarrow> u32 \<times> u32 \<Rightarrow> u32 \<times> u32 \<Rightarrow> Instant \<Rightarrow> Instant \<Rightarrow> Instant \<Rightarrow> (PipeLinkError + bytes) \<Rightarrow> bool" where
  "test_pipe_link_hub_send_recv_two_links_two_addr bernoulli one ids1 ids2 t0 t1 t2 later =
     (let hub = PipeLinkHub_listen (ascii ''addr2'') (PipeLinkHub_listen (ascii ''addr1'') (PipeLinkHub_new (PipeLinkBuilder_new one)))
      in case do { ((b, a), hub) \<leftarrow> hub_pair bernoulli t0 ids1 (ascii ''addr1'') hub;
                   (cd, _) \<leftarrow> hub_pair bernoulli t0 ids2 (ascii ''addr2'') hub;
                   ab \<leftarrow> pair_send t1 (ascii ''test'') (a, b);
                   cd \<leftarrow> pair_send t1 (ascii ''test2'') cd;
                   Some (ab, cd) } of
           Some (ab, cd) \<Rightarrow> pair_recv t2 later ab = Inr (ascii ''test'') \<and> pair_recv t2 later cd = Inr (ascii ''test2'')
         | None \<Rightarrow> False)"

lemmas pipe_test_defs = PipeLink_create_pair_def pair_end_def builder_create_pair_def builder_end_def builder_expiration_def
  builder_latency_def PipeLinkBuilder_new_def expires_at_def pair_send_def pair_recv_def pair_cancel_def arrive_def flow_def
  pinned_send_def pinned_recv_def PipeLink_ops_def PipeLink_send_def tx_send_def PipeLink_recv_def PipeLink_take_reader_def
  PipeLinkReader_read_def pipe_read_start_def pipe_read_finish_def wake_at_def PipeLinkCanceler_cancel_def
  Deadline_new_def new_deadline_def has_deadline_def Deadline_poll_def map_err_def ok_or_def

lemmas hub_test_defs = hub_pair_def listener_recv_def PipeLinkHub_connect_def PipeLinkHub_listen_def PipeLinkHub_new_def

text \<open>A pipe that is given the probability one lets everything through.\<close>

lemma pipe_tests_pass:
  assumes "bernoulli one = Some ([], [])"
  shows "test_pipe_links_send_recv bernoulli one ids t1 t2 later"
    "test_pipe_links_send_recv_canceled bernoulli one ids t1 t2 later"
    "test_pipe_links_taken_send_recv_canceled bernoulli one ids t1 t2"
  using assms
  by (simp_all add: test_pipe_links_send_recv_def test_pipe_links_send_recv_canceled_def
      test_pipe_links_taken_send_recv_canceled_def pipe_test_defs Let_def)

text \<open>
  The tests with a clock: what is sent after a second is read if the read starts before the two seconds
  are over, what is read after the only second is not, and the one with a latency passes if its clock
  starts within a tenth of a second after the message was sent.
\<close>

lemma pipe_timed_tests_pass:
  assumes "bernoulli one = Some ([], [])"
  shows "t2 < t0 + from_secs 2 \<Longrightarrow> test_pipe_links_send_recv_not_expired bernoulli one ids t0 t1 t2 later"
    "t0 + from_secs 2 \<le> t2 \<Longrightarrow> test_pipe_links_send_recv_expired bernoulli one ids t0 t1 t2 later"
    "t1 \<le> t2 \<Longrightarrow> t2 < t1 + from_millis 100 \<Longrightarrow> test_pipe_links_send_recv_latency bernoulli one ids t0 t1 t2"
  using assms
  by (auto simp: test_pipe_links_send_recv_not_expired_def test_pipe_links_send_recv_expired_def
      test_pipe_links_send_recv_latency_def pipe_test_defs Let_def)

lemma hub_tests_pass:
  assumes "bernoulli one = Some ([], [])"
  shows "test_pipe_link_hub_send_recv bernoulli one ids t0 t1 t2 later"
    "test_pipe_link_hub_send_recv_two_links_one_addr bernoulli one ids ids' t0 t1 t2 later"
    "test_pipe_link_hub_send_recv_two_links_two_addr bernoulli one ids ids' t0 t1 t2 later"
  using assms
  by (simp_all add: test_pipe_link_hub_send_recv_def test_pipe_link_hub_send_recv_two_links_one_addr_def
      test_pipe_link_hub_send_recv_two_links_two_addr_def hub_test_defs pipe_test_defs ascii_def Let_def)

section \<open>TCP\<close>

text \<open>
  The listener accepts the connection; what the connecting side writes reaches the accepted socket,
  cut up in some way by \<open>segment\<close>, and no write fails.
\<close>

definition test_listen_connect :: "(bytes \<Rightarrow> bytes list) \<Rightarrow> bool" where
  "test_listen_connect segment =
     (case TcpLink_connect (\<lambda>_. Inr ([], [])) (ascii ''127.0.0.1:1940'') of
        Inl _ \<Rightarrow> False
      | Inr connect_link \<Rightarrow>
          (case TcpLink_send connect_link (ascii ''test_data'') of
             (Inl _, _) \<Rightarrow> False
           | (Inr _, connect_link) \<Rightarrow>
               (case TcpLink_listen (\<lambda>_. Inr [Inr (map Inr (segment (tl_written connect_link)), [])]) 1 (ascii ''127.0.0.1:1940'') of
                  Inr (listen_link # _) \<Rightarrow> fst (TcpLink_recv listen_link) = Some (Inr (ascii ''test_data''))
                | _ \<Rightarrow> False)))"

text \<open>However the stream is cut, as long as all of it arrives.\<close>

lemma tcp_test_passes:
  assumes "\<And>bs. pieces (segment bs)" "\<And>bs. concat (segment bs) = bs"
  shows "test_listen_connect segment"
proof -
  let ?m = "ascii ''test_data''"
  have len: "length ?m + 1024 \<le> u32_bound" "length ?m < u32_bound" by (simp_all add: ascii_def)
  obtain ys b where "recv_chunk \<lparr>tr_reads = map Inr (segment (frame ?m)), tr_length = None, tr_buffer = []\<rparr> =
      (Some (Inr ?m), \<lparr>tr_reads = map Inr ys, tr_length = None, tr_buffer = b\<rparr>)"
    by (rule recv_chunk_complete [OF assms(1), of "[]" "frame ?m" ?m "[]"]) (use len assms(2) in simp_all)
  moreover have "TcpLink_send (TcpLink_new [] []) ?m = (Inr (), (TcpLink_new [] [])\<lparr>tl_written := frame ?m\<rparr>)"
    using TcpLink_send_plain [of "TcpLink_new [] []" ?m] len by (simp add: TcpLink_new_def)
  ultimately show ?thesis
    by (simp add: test_listen_connect_def TcpLink_connect_def TcpLink_listen_def map_err_def TcpLink_recv_def
        read_chunk_def TcpLink_new_def)
qed

end
