(* ===== verification/Writing.thy ===== *)
theory Writing
  imports Sessions
begin

text \<open>
  What a link set writes to its links. A message is never written by a handler if no handler can
  tell apart two implementations of the links that treat that message differently: so that a link set
  writes honest messages only is stated as an equivalence, of the core over any implementation and
  over one that agrees with it on honest messages alone.
\<close>

section \<open>Links that agree\<close>

definition agree_on :: "(LinkProtocol \<Rightarrow> bool) \<Rightarrow> 'l Link \<Rightarrow> 'l Link \<Rightarrow> bool" where
  "agree_on Q L L' =
     ((\<exists>send. L' = L\<lparr>li_send := send\<rparr>) \<and>
      (\<forall>l p. Q p \<longrightarrow> li_send L' l (serialize p) = li_send L l (serialize p)))"

lemma agree_fields:
  assumes "agree_on Q L L'"
  shows "LinkEntry_is_closed L' = LinkEntry_is_closed L" "LinkEntry_take_reader L' = LinkEntry_take_reader L"
    "LinkEntry_max_size L' = LinkEntry_max_size L" "unusable L' = unusable L" "upkeep L' = upkeep L"
    "li_max_size L' = li_max_size L" "LinkEntry_scheme L' = LinkEntry_scheme L"
proof -
  obtain send where L': "L' = L\<lparr>li_send := send\<rparr>" using assms by (auto simp: agree_on_def)
  show closed: "LinkEntry_is_closed L' = LinkEntry_is_closed L"
    by (rule ext) (simp add: LinkEntry_is_closed_def L')
  show "LinkEntry_take_reader L' = LinkEntry_take_reader L" "LinkEntry_max_size L' = LinkEntry_max_size L"
    "li_max_size L' = li_max_size L" "LinkEntry_scheme L' = LinkEntry_scheme L"
    by (rule ext; simp add: LinkEntry_take_reader_def pinned_take_reader_def LinkEntry_max_size_def LinkEntry_scheme_def L')+
  show "unusable L' = unusable L" by (rule ext) (simp add: unusable_def closed)
  have "upkeep_loop L' es = upkeep_loop L es" for es by (induction es) (simp_all add: closed case_prod_unfold Let_def)
  then show "upkeep L' = upkeep L" by (intro ext) (simp add: upkeep_def)
qed

lemma agree_send: "agree_on Q L L' \<Longrightarrow> Q p \<Longrightarrow> LinkEntry_send L' e p = LinkEntry_send L e p"
  by (simp add: agree_on_def LinkEntry_send_def pinned_send_def)

lemma agree_send_proto:
  assumes "agree_on Q L L'" "Q p"
  shows "send_proto L' p = send_proto L p"
proof -
  have "send_proto_loop L' p es = send_proto_loop L p es" for es
    by (induction es) (simp_all add: agree_fields [OF assms(1)] agree_send [OF assms] case_prod_unfold Let_def)
  then show ?thesis by (intro ext) (simp add: send_proto_def)
qed

lemma agree_send_each: "agree_on Q L L' \<Longrightarrow> \<forall>p \<in> set ps. Q p \<Longrightarrow> send_each L' ps e = send_each L ps e"
  by (induction ps arbitrary: e) (auto simp: agree_send split: prod.split sum.split)

definition slices_in :: "(LinkProtocol \<Rightarrow> bool) \<Rightarrow> bool \<Rightarrow> SliceManager \<Rightarrow> bool" where
  "slices_in Q oc sm = (\<forall>n ps. n < u32_bound \<longrightarrow> get_slices oc sm n = Some ps \<longrightarrow> (\<forall>p \<in> set ps. Q p))"

lemma agree_send_slices:
  assumes "agree_on Q L L'" "valid_link L" "slices_in Q oc sm"
  shows "send_slices oc L' sm lm = send_slices oc L sm lm"
proof -
  have size: "LinkEntry_max_size L e < u32_bound" for e
    using assms(2) by (simp add: valid_link_def LinkEntry_max_size_def less_imp_diff_less)
  have "send_slices_loop oc L' sm es = send_slices_loop oc L sm es" for es
  proof (induction es)
    case (Cons e es)
    have "send_each L' ps e' = send_each L ps e'" if "get_slices oc sm (LinkEntry_max_size L e') = Some ps" for ps e'
      by (rule agree_send_each [OF assms(1)]) (use assms(3) size that in \<open>auto simp: slices_in_def\<close>)
    then show ?case
      using Cons.IH agree_fields [OF assms(1)]
      by (auto simp: Let_def split: prod.split intro!: Option.bind_cong)
  qed simp
  then show ?thesis by (simp add: send_slices_def)
qed

text \<open>Control messages are in \<open>Q\<close> throughout.\<close>

definition with_control :: "(LinkProtocol \<Rightarrow> bool) \<Rightarrow> bool" where
  "with_control Q = (Q Ping \<and> Q Pong \<and> (\<forall>epoch request. Q (Reset epoch request)))"

lemma agree_control:
  assumes "agree_on Q L L'" "with_control Q"
  shows "ping_all L' = ping_all L" "links_pong L' = links_pong L" "links_reset L' = links_reset L"
  using assms
  by (intro ext; simp add: ping_all_def links_pong_def links_reset_def send_ping_def send_pong_def with_control_def
      agree_send [OF assms(1)] agree_send_proto [OF assms(1)])+

lemma agree_wrap_link:
  "agree_on Q (en_link env) L' \<Longrightarrow> wrap_link (env\<lparr>en_link := L'\<rparr>) link common = wrap_link env link common"
  by (simp add: wrap_link_def agree_fields Let_def cong: if_cong)

section \<open>Handlers\<close>

lemma agree_transitions:
  assumes "agree_on Q (en_link env) L'" "with_control Q"
  shows "Connecting_from_Disconnected (env\<lparr>en_link := L'\<rparr>) dc common = Connecting_from_Disconnected env dc common"
    "Connecting_from_Disconnected_msg (env\<lparr>en_link := L'\<rparr>) dc common msg = Connecting_from_Disconnected_msg env dc common msg"
    "Connecting_from_EpochMismatch (env\<lparr>en_link := L'\<rparr>) em common = Connecting_from_EpochMismatch env em common"
    "Connecting_from_Reconnecting (env\<lparr>en_link := L'\<rparr>) rc common = Connecting_from_Reconnecting env rc common"
    "Connecting_from_GracePeriod (env\<lparr>en_link := L'\<rparr>) gp common = Connecting_from_GracePeriod env gp common"
    "EpochMismatch_from_Disconnected (env\<lparr>en_link := L'\<rparr>) dc common link = EpochMismatch_from_Disconnected env dc common link"
    "EpochMismatch_from_Connecting (env\<lparr>en_link := L'\<rparr>) cn common link = EpochMismatch_from_Connecting env cn common link"
    "EpochMismatch_from_Connected (env\<lparr>en_link := L'\<rparr>) cd common = EpochMismatch_from_Connected env cd common"
    "Connected_from_Reconnecting (env\<lparr>en_link := L'\<rparr>) rc common link = Connected_from_Reconnecting env rc common link"
    "Connected_from_GracePeriod (env\<lparr>en_link := L'\<rparr>) gp common link = Connected_from_GracePeriod env gp common link"
    "determine_state (env\<lparr>en_link := L'\<rparr>) cd common = determine_state env cd common"
    "insert_connector (env\<lparr>en_link := L'\<rparr>) conn conns = insert_connector env conn conns"
  by (simp_all add: transition_defs determine_state_def insert_connector_def agree_control [OF assms] split: option.split)

lemma agree_ctrl_msg:
  assumes "agree_on Q (en_link env) L'" "with_control Q" "valid_link (en_link env)"
    "\<And>cd data epoch seq mm sm. st = S_Connected cd \<Longrightarrow> cmd = CmdMessage data epoch \<Longrightarrow>
       epoch = None \<or> epoch = Some (cd_epoch cd) \<Longrightarrow> insert_msg (en_oc env) (cd_msg_mgr cd) data = Some (seq, mm) \<Longrightarrow>
       get_outgoing_slice mm seq = Some sm \<Longrightarrow> slices_in Q (en_oc env) sm"
  shows "States_ctrl_msg (env\<lparr>en_link := L'\<rparr>) st common cmd = States_ctrl_msg env st common cmd"
proof (cases st)
  case (S_Connected cd)
  show ?thesis
  proof (cases cmd)
    case (CmdMessage data epoch)
    have "send_slices (en_oc env) L' sm lm = send_slices (en_oc env) (en_link env) sm lm"
      if "epoch = None \<or> epoch = Some (cd_epoch cd)" "insert_msg (en_oc env) (cd_msg_mgr cd) data = Some (seq, mm)"
        "get_outgoing_slice mm seq = Some sm" for seq mm sm lm
      using agree_send_slices [OF assms(1,3) assms(4) [OF S_Connected CmdMessage that]] .
    then show ?thesis
      using S_Connected CmdMessage
      by (auto simp: agree_transitions [OF assms(1,2)] split: option.split intro!: Option.bind_cong)
  qed (use S_Connected in \<open>simp_all add: agree_wrap_link [OF assms(1)] agree_transitions [OF assms(1,2)] cong: sum.case_cong\<close>)
qed (cases cmd; simp add: agree_wrap_link [OF assms(1)] agree_transitions [OF assms(1,2)] cong: sum.case_cong)+

lemma agree_send_queued:
  assumes "agree_on Q L L'" "valid_link L"
  shows "(\<And>pre m suf mm1 seq mm2 sm. msgs = pre @ m # suf \<Longrightarrow> insert_all oc pre mm = Some mm1 \<Longrightarrow>
      insert_msg oc mm1 m = Some (seq, mm2) \<Longrightarrow> get_outgoing_slice mm2 seq = Some sm \<Longrightarrow> slices_in Q oc sm) \<Longrightarrow>
    send_queued oc L' msgs mm links = send_queued oc L msgs mm links"
proof (induction msgs arbitrary: mm links)
  case (Cons m msgs)
  have first: "slices_in Q oc sm" if "insert_msg oc mm m = Some (seq, mm2)" "get_outgoing_slice mm2 seq = Some sm"
    for seq mm2 sm
    using Cons.prems [of "[]" m msgs mm seq mm2 sm] that by simp
  have rest: "send_queued oc L' msgs mm2 links = send_queued oc L msgs mm2 links"
    if "insert_msg oc mm m = Some (seq, mm2)" for seq mm2 links
  proof (rule Cons.IH)
    fix pre m' suf mm1 seq' mm3 sm
    assume "msgs = pre @ m' # suf" "insert_all oc pre mm2 = Some mm1" "insert_msg oc mm1 m' = Some (seq', mm3)"
      "get_outgoing_slice mm3 seq' = Some sm"
    then show "slices_in Q oc sm" using Cons.prems [of "m # pre" m' suf mm1 seq' mm3 sm] that by simp
  qed
  show ?case
    using first rest
    by (auto simp: agree_send_slices [OF assms] split: prod.split intro!: Option.bind_cong)
qed simp

lemma agree_opens:
  assumes "agree_on Q (en_link env) L'" "valid_link (en_link env)"
    "Connected_from_EpochMismatch env s common e = Some sc"
    "\<And>e pre m suf mm1 seq mm2 sm. session_epoch (fst sc) = Some e \<Longrightarrow> em_queued_msgs s = pre @ m # suf \<Longrightarrow>
      insert_all (en_oc env) pre (MessageManager_new e) = Some mm1 \<Longrightarrow>
      insert_msg (en_oc env) mm1 m = Some (seq, mm2) \<Longrightarrow> get_outgoing_slice mm2 seq = Some sm \<Longrightarrow>
      slices_in Q (en_oc env) sm"
  shows "Connected_from_EpochMismatch (env\<lparr>en_link := L'\<rparr>) s common e = Some sc"
proof -
  have e: "session_epoch (fst sc) = Some e"
    using assms(3) by (auto simp: Connected_from_EpochMismatch_def Let_def split: bind_splits)
  have "send_queued (en_oc env) L' (em_queued_msgs s) (MessageManager_new e) (em_links s) =
      send_queued (en_oc env) (en_link env) (em_queued_msgs s) (MessageManager_new e) (em_links s)"
    by (rule agree_send_queued [OF assms(1,2)]) (rule assms(4) [OF e])
  then show ?thesis using assms(3) by (simp add: Connected_from_EpochMismatch_def)
qed

lemma agree_link_msg:
  assumes "agree_on Q (en_link env) L'" "with_control Q" "valid_link (en_link env)"
    "handle_link_msg env common st link_id msg = Some sc"
    "\<And>cd epoch q n f data mm. st = S_Connected cd \<Longrightarrow> msg = MsgSlice (to_int (cd_epoch cd)) q n f data \<Longrightarrow>
       MessageManager_recv (en_oc env) (cd_msg_mgr cd) q f n data = Some (True, mm) \<Longrightarrow>
       Q (Ack (to_int (cd_epoch cd)) (fst (mm_last_ack mm)) (snd (mm_last_ack mm)))"
    "\<And>e pre m suf mm1 seq mm2 sm. session_epoch (fst sc) = Some e \<Longrightarrow> session_epoch st = None \<Longrightarrow>
      queued_msgs st = pre @ m # suf \<Longrightarrow> insert_all (en_oc env) pre (MessageManager_new e) = Some mm1 \<Longrightarrow>
      insert_msg (en_oc env) mm1 m = Some (seq, mm2) \<Longrightarrow> get_outgoing_slice mm2 seq = Some sm \<Longrightarrow>
      slices_in Q (en_oc env) sm"
  shows "handle_link_msg (env\<lparr>en_link := L'\<rparr>) common st link_id msg = Some sc"
proof (cases st)
  case (S_EpochMismatch em)
  show ?thesis
  proof (cases msg)
    case (Reset epoch request)
    have opens: "Connected_from_EpochMismatch (env\<lparr>en_link := L'\<rparr>) em' common e = Some sc"
      if "Connected_from_EpochMismatch env em' common e = Some sc" "em_queued_msgs em' = em_queued_msgs em" for em' e
      by (rule agree_opens [OF assms(1,3) that(1)]) (rule assms(6), use S_EpochMismatch that(2) in simp_all)
    have "EpochMismatch_reset env em common epoch request = Some sc" using assms(4) S_EpochMismatch Reset by simp
    then have "EpochMismatch_reset (env\<lparr>en_link := L'\<rparr>) em common epoch request = Some sc"
      unfolding EpochMismatch_reset_def Let_def
      by (auto simp: agree_control [OF assms(1,2)] opens split: Ordering.splits bind_splits if_splits)
    then show ?thesis using S_EpochMismatch Reset by simp
  qed (use assms(4) S_EpochMismatch in \<open>simp_all add: agree_control [OF assms(1,2)]\<close>)
next
  case (S_Connected cd)
  show ?thesis
  proof (cases msg)
    case (MsgSlice epoch q n f data)
    have "links_ack L' (cd_epoch cd) (mm_last_ack mm) lm = links_ack (en_link env) (cd_epoch cd) (mm_last_ack mm) lm"
      if "epoch = to_int (cd_epoch cd)" "MessageManager_recv (en_oc env) (cd_msg_mgr cd) q f n data = Some (True, mm)" for mm lm
      unfolding links_ack_def using agree_send_proto [OF assms(1) assms(5) [OF S_Connected]] MsgSlice that by simp
    then show ?thesis
      using assms(4) S_Connected MsgSlice
      by (auto simp: agree_transitions [OF assms(1,2)] Let_def split: bind_splits if_splits)
  qed (use assms(4) S_Connected in \<open>auto simp: agree_control [OF assms(1,2)] agree_transitions [OF assms(1,2)]\<close>)
next
  case (S_Reconnecting rc)
  with assms(4) show ?thesis by (cases msg) (auto simp: agree_transitions [OF assms(1,2)] split: if_splits)
next
  case (S_GracePeriod gp)
  with assms(4) show ?thesis by (cases msg) (auto simp: agree_transitions [OF assms(1,2)] split: if_splits)
qed (use assms(4) in simp_all)

lemma agree_timer:
  assumes "agree_on Q (en_link env) L'" "with_control Q" "valid_link (en_link env)"
    "\<And>cd sm. st = S_Connected cd \<Longrightarrow> sm \<in> set (get_outgoing_slices (cd_msg_mgr cd)) \<Longrightarrow> slices_in Q (en_oc env) sm"
  shows "handle_timer (env\<lparr>en_link := L'\<rparr>) common st = handle_timer env common st"
proof (cases st)
  case (S_Connected cd)
  then have "send_slices (en_oc env) L' sm lm = send_slices (en_oc env) (en_link env) sm lm"
    if "get_outgoing_slices (cd_msg_mgr cd) = sm # sms" for sm sms lm
    using agree_send_slices [OF assms(1,3) assms(4) [OF S_Connected]] that by simp
  then show ?thesis
    using S_Connected
    by (auto simp: Connected_timer_def agree_control [OF assms(1,2)] agree_fields [OF assms(1)]
        agree_transitions [OF assms(1,2)] Let_def split: list.split)
qed (simp_all add: EpochMismatch_timer_def Reconnecting_timer_def GracePeriod_timer_def agree_control [OF assms(1,2)]
      agree_fields [OF assms(1)] agree_transitions [OF assms(1,2)] cong: if_cong)

lemma agree_debug:
  assumes "agree_on Q (en_link env) L'"
  shows "States_debug (env\<lparr>en_link := L'\<rparr>) st cmd = States_debug env st cmd"
  by (cases st; cases cmd; simp add: describe_links_def agree_fields [OF assms] schemes_of_def)

section \<open>Writing honestly\<close>

lemma stream_slices_in:
  assumes "stream e ms a b acks del" "(q, sm) \<in> set (mm_outgoing_slices a)" "\<And>p. slice_of_sent e ms p \<Longrightarrow> Q p"
  shows "slices_in Q oc sm"
  unfolding slices_in_def
proof (intro allI impI)
  fix n ps assume n: "n < u32_bound" "get_slices oc sm n = Some ps"
  let ?t = "\<lparr>tr_sent = ms, tr_sender = a, tr_receiver = b, tr_slices = [], tr_acks = acks, tr_delivered = del\<rparr>"
  obtain pfx where rel: "transfer_rel e pfx ?t" using assms(1) by (auto simp: stream_def)
  show "\<forall>p \<in> set ps. Q p"
  proof (cases "n = 0")
    case True
    have "get_slices_of oc sm 0 m = Some ps \<Longrightarrow> ps = []" for m ps
      by (induction m arbitrary: ps) (auto simp: make_slices_def split: bind_splits)
    then have "ps = []" using True n(2) unfolding get_slices_def by blast
    then show ?thesis by simp
  next
    case False
    then obtain ps' k where ps': "get_slices oc sm n = Some ps'" "q < length ms"
      "slice_chain (to_int e) q (ms ! q) k ps' (length (ms ! q))"
      using transmit_slices [OF rel, of q sm n oc] assms(2) n(1) by (metis gr0I transfer.select_convs(1,2))
    then show ?thesis using n(2) slice_chain_sent assms(3) by auto
  qed
qed

lemma stream_outgoing:
  assumes "stream e ms a b acks del" "get_outgoing_slice a q = Some sm"
  shows "(q, sm) \<in> set (mm_outgoing_slices a)"
  using assms by (auto simp: stream_def transfer_rel_def send_inv_def get_outgoing_slice_def bt.get_entries)

lemma slice_of_sent_longer: "slice_of_sent e ms p \<Longrightarrow> slice_of_sent e (ms @ ms') p"
  by (auto simp: slice_of_sent_def nth_append)

lemma honest_slice: "slice_of_sent e (sent_in e p) msg \<Longrightarrow> honest p msg"
  by (auto simp: slice_of_sent_def Let_def)

lemma honest_control: "with_control (honest p)"
  by (simp add: with_control_def)

lemma queue_slices:
  assumes "\<forall>x \<in> set queue. x \<noteq> [] \<and> length x \<le> isize_max" "length queue < u64_bound" "queue = pre @ m # suf"
    "insert_all oc pre (MessageManager_new e) = Some mm1" "insert_msg oc mm1 m = Some (seq, mm2)"
    "get_outgoing_slice mm2 seq = Some sm" "\<And>p. slice_of_sent e queue p \<Longrightarrow> Q p"
  shows "slices_in Q oc sm"
proof -
  have "stream e ([] @ pre) mm1 (MessageManager_new e) [] []"
    by (rule stream_insert_all [OF stream_new assms(4)]) (use assms(1-3) in auto)
  then have fl: "stream e (pre @ [m]) mm2 (MessageManager_new e) [] []"
    using stream_insert [OF _ assms(5), of e pre "MessageManager_new e" "[]" "[]"] assms(1-3) by simp
  have "Q p" if "slice_of_sent e (pre @ [m]) p" for p
    using assms(7) slice_of_sent_longer [OF that, of suf] assms(3) by simp
  then show ?thesis by (rule stream_slices_in [OF fl stream_outgoing [OF fl assms(6)]])
qed

text \<open>A connected side: its manager is the sender of a stream, to which an event adds what it sends.\<close>

lemma connected_flow:
  assumes "peer_ok m p" "\<And>e. e \<noteq> Epoch_MAX \<Longrightarrow> streams e p q (m e) (n e)" "spare (pe_core p)"
    "pe_state p = S_Connected cd"
  shows "stream (cd_epoch cd) (sent_in (cd_epoch cd) p) (cd_msg_mgr cd) (n (cd_epoch cd))
      (filter (acks_epoch (cd_epoch cd)) (pe_acks q)) (received_in (cd_epoch cd) q)"
    "sent_in (cd_epoch cd) (peer_after oc p ev core') = sent_in (cd_epoch cd) p @ sends_in (cd_epoch cd) ev"
proof -
  have "cd_epoch cd \<noteq> Epoch_MAX" using assms(3,4) by (simp add: spare_def)
  then show "stream (cd_epoch cd) (sent_in (cd_epoch cd) p) (cd_msg_mgr cd) (n (cd_epoch cd))
      (filter (acks_epoch (cd_epoch cd)) (pe_acks q)) (received_in (cd_epoch cd) q)"
    using assms(1,2,4) by (auto simp: peer_ok_def streams_def)
  show "sent_in (cd_epoch cd) (peer_after oc p ev core') = sent_in (cd_epoch cd) p @ sends_in (cd_epoch cd) ev"
    unfolding sent_in_after using assms(4) by (simp add: comp_def)
qed

lemma ctrl_slices:
  assumes p: "peer_ok m p" "\<And>e. e \<noteq> Epoch_MAX \<Longrightarrow> streams e p q (m e) (n e)" "spare (pe_core p)"
    and ev: "core_enabled env (pe_core p) ev" "offered p q ev" "ev = FromCtrl (Command (CmdMessage data epoch))"
      "epoch = None \<or> epoch = Some (cd_epoch cd)"
    and cd: "pe_state p = S_Connected cd" "insert_msg oc (cd_msg_mgr cd) data = Some (seq, mm)"
      "get_outgoing_slice mm seq = Some sm"
  shows "slices_in (honest (peer_after oc p ev core')) oc sm"
proof -
  note fl = connected_flow [OF p cd(1)]
  have "length (sent_in (cd_epoch cd) p) + 1 < u64_bound"
    using sent_in_length [of "cd_epoch cd" p] ev(2,3) by simp
  then have fl': "stream (cd_epoch cd) (sent_in (cd_epoch cd) p @ [data]) mm (n (cd_epoch cd))
      (filter (acks_epoch (cd_epoch cd)) (pe_acks q)) (received_in (cd_epoch cd) q)"
    using stream_insert [OF fl(1) cd(2)] ev(1-3) by (simp add: core_enabled_def)
  have "sent_in (cd_epoch cd) (peer_after oc p ev core') = sent_in (cd_epoch cd) p @ [data]"
    using fl(2) [of oc ev core'] ev(3,4) by auto
  then show ?thesis
    using honest_slice [of "cd_epoch cd" "peer_after oc p ev core'"]
    by (intro stream_slices_in [OF fl' stream_outgoing [OF fl' cd(3)]]) simp
qed

lemma timer_slices:
  assumes p: "peer_ok m p" "\<And>e. e \<noteq> Epoch_MAX \<Longrightarrow> streams e p q (m e) (n e)" "spare (pe_core p)"
    and cd: "pe_state p = S_Connected cd" "sm \<in> set (get_outgoing_slices (cd_msg_mgr cd))"
  shows "slices_in (honest (peer_after oc p TimerReady core')) oc sm"
proof -
  note fl = connected_flow [OF p cd(1)]
  obtain k where k: "(k, sm) \<in> set (mm_outgoing_slices (cd_msg_mgr cd))"
    using cd(2) by (auto simp: get_outgoing_slices_def)
  have "sent_in (cd_epoch cd) (peer_after oc p TimerReady core') = sent_in (cd_epoch cd) p"
    using fl(2) [of oc TimerReady core'] by simp
  then have "honest (peer_after oc p TimerReady core') x" if "slice_of_sent (cd_epoch cd) (sent_in (cd_epoch cd) p) x" for x
    using that by (intro honest_slice [of "cd_epoch cd"]) (simp only:)
  then show ?thesis by (intro stream_slices_in [OF fl(1) k]) blast
qed

lemma owes_ack:
  assumes p: "peer_ok m p" "\<And>e. e \<noteq> Epoch_MAX \<Longrightarrow> streams e p q (m e) (n e)" "spare (pe_core p)"
    and step: "core_handle env (pe_core p) ev = Some core'"
    and cd: "pe_state p = S_Connected cd" "ev = FromLink link_id (MsgSlice (to_int (cd_epoch cd)) k i f data)"
      "MessageManager_recv (en_oc env) (cd_msg_mgr cd) k f i data = Some (True, mm)"
  shows "honest (peer_after (en_oc env) p ev core')
    (Ack (to_int (cd_epoch cd)) (fst (mm_last_ack mm)) (snd (mm_last_ack mm)))"
proof -
  have "mm_epoch mm = cd_epoch cd"
    using recv_keeps [OF cd(3)] stream_epoch [OF connected_flow(1) [OF p cd(1)]] by simp
  moreover obtain new msgs mm' where "session_exec (en_oc env) (cd_epoch cd) (cd_msg_mgr cd) ev = Some (new, msgs, mm')"
    using core_session [OF step, of "cd_epoch cd" "cd_msg_mgr cd"] cd(1) by (auto simp: follows_def)
  ultimately have "owed (en_oc env) (pe_state p) ev =
      [Ack (to_int (cd_epoch cd)) (fst (mm_last_ack mm)) (snd (mm_last_ack mm))]"
    using cd by (auto simp: receive_slice_def Let_def split: bind_splits)
  then show ?thesis by (simp add: peer_after_def)
qed

lemma opening_slices:
  assumes p: "peer_ok m p"
    and step: "core_handle env (pe_core p) ev = Some core'" "core_enabled env (pe_core p) ev" "e \<noteq> Epoch_MAX"
    and e: "session_epoch (co_state core') = Some e" "session_epoch (pe_state p) = None"
      "queued_msgs (pe_state p) = pre @ x # suf" "insert_all oc pre (MessageManager_new e) = Some mm1"
      "insert_msg oc mm1 x = Some (seq, mm2)" "get_outgoing_slice mm2 seq = Some sm"
  shows "slices_in (honest (peer_after oc p ev core')) oc sm"
proof -
  have "cs_to_ctrl (co_common core') = pe_log p @ [InnerConnected e]"
    using core_outside [OF step(1) e(2)] e(1) by (auto simp: stays_out_def opens_def)
  then have "e \<notin> set (connected_epochs (pe_log p))"
    using fresh_epoch [OF handle_view_ok [OF _ step(1,2)] _ step(3)] p by (auto simp: peer_ok_def)
  then have "sent_in e (peer_after oc p ev core') = queued_msgs (pe_state p)"
    unfolding sent_in_after using p e(1,2) by (simp add: peer_ok_def comp_def)
  then show ?thesis
    using p honest_slice [of e "peer_after oc p ev core'"] by (intro queue_slices [OF _ _ e(3-)]) (auto simp: peer_ok_def)
qed

lemma core_agrees:
  assumes p: "peer_ok m p" "\<And>e. e \<noteq> Epoch_MAX \<Longrightarrow> streams e p q (m e) (n e)" "spare (pe_core p)"
    and ev: "valid_link (en_link env)" "core_enabled env (pe_core p) ev" "offered p q ev"
    and step: "core_handle env (pe_core p) ev = Some core'" "session_epoch (co_state core') \<noteq> Some Epoch_MAX"
    and agree: "agree_on (honest (peer_after (en_oc env) p ev core')) (en_link env) L'"
  shows "core_handle (env\<lparr>en_link := L'\<rparr>) (pe_core p) ev = Some core'"
proof (cases ev)
  case (FromCtrl msg)
  have "States_ctrl_msg (env\<lparr>en_link := L'\<rparr>) (pe_state p) common cmd = States_ctrl_msg env (pe_state p) common cmd"
    if "msg = Command cmd" for cmd common
    by (rule agree_ctrl_msg [OF agree honest_control ev(1)])
       (rule ctrl_slices [OF p ev(2,3)], use FromCtrl that in simp_all)
  then show ?thesis using step(1) FromCtrl by (cases msg) (simp_all add: core_handle_def)
next
  case (FromLink link_id msg)
  have h: "handle_link_msg env (co_common (pe_core p)) (pe_state p) link_id msg = Some (co_state core', co_common core')"
    using step(1) FromLink by (auto simp: core_handle_def)
  have "handle_link_msg (env\<lparr>en_link := L'\<rparr>) (co_common (pe_core p)) (pe_state p) link_id msg =
      Some (co_state core', co_common core')"
  proof (rule agree_link_msg [OF agree honest_control ev(1) h])
    fix e assume "session_epoch (fst (co_state core', co_common core')) = Some e"
    then have "e \<noteq> Epoch_MAX" "session_epoch (co_state core') = Some e" using step(2) by auto
    note opening_slices [OF p(1) step(1) ev(2) this]
    then show "slices_in (honest (peer_after (en_oc env) p ev core')) (en_oc env) sm"
      if "session_epoch (pe_state p) = None" "queued_msgs (pe_state p) = pre @ x # suf"
        "insert_all (en_oc env) pre (MessageManager_new e) = Some mm1" "insert_msg (en_oc env) mm1 x = Some (seq, mm2)"
        "get_outgoing_slice mm2 seq = Some sm" for pre x suf mm1 seq mm2 sm
      using that by blast
  qed (rule owes_ack [OF p step(1)], use FromLink in simp_all)
  then show ?thesis using FromLink by (simp add: core_handle_def)
next
  case TimerReady
  have "slices_in (honest (peer_after (en_oc env) p ev core')) (en_oc env) sm"
    if "pe_state p = S_Connected cd" "sm \<in> set (get_outgoing_slices (cd_msg_mgr cd))" for cd sm
    unfolding TimerReady by (rule timer_slices [OF p that])
  then show ?thesis
    using step(1) TimerReady agree_timer [OF agree honest_control ev(1)] by (simp add: core_handle_def)
next
  case (FromDebug cmd)
  then show ?thesis using step(1) by (simp add: core_handle_def handle_debug_def agree_debug [OF agree])
qed

section \<open>Properties\<close>

text \<open>
  C8: a link set writes honest messages only: slices of messages that its user has sent in the session
  that they name, acknowledgements that it owes, and the messages that carry no data. For an
  implementation of the links may do to any other message what it likes, refuse it or panic, and no
  handler ever notices.
\<close>

theorem writes_honest:
  assumes "reaches (duo_step oc scheme) duo_new d" "valid_link (en_link env)" "spare (pe_core (d s))"
    "core_enabled env (pe_core (d s)) ev" "offered (d s) (d (other s)) ev"
    "core_handle env (pe_core (d s)) ev = Some core'" "session_epoch (co_state core') \<noteq> Some Epoch_MAX"
    "agree_on (honest (peer_after (en_oc env) (d s) ev core')) (en_link env) L'"
  shows "core_handle (env\<lparr>en_link := L'\<rparr>) (pe_core (d s)) ev = Some core'"
proof -
  have "duo_inv d" using duo.inv_reachable assms(1) by blast
  then obtain m n where mn: "peer_ok m (d s)" "\<And>e. e \<noteq> Epoch_MAX \<Longrightarrow> streams e (d s) (d (other s)) (m e) (n e)"
    unfolding duo_inv_split [of _ s] by blast
  show ?thesis by (rule core_agrees [OF mn assms(3,2,4-)])
qed

text \<open>Links that refuse what is not honest.\<close>

definition strict_link :: "(LinkProtocol \<Rightarrow> bool) \<Rightarrow> 'l Link \<Rightarrow> 'l Link" where
  "strict_link Q L =
     L\<lparr>li_send := \<lambda>l bs. if bs \<in> serialize ` {p. Q p} then li_send L l bs else (Inl ''refused'', l)\<rparr>"

lemma strict_link_agrees: "agree_on Q L (strict_link Q L)"
  by (auto simp: agree_on_def strict_link_def)

lemma writes_honest_witness:
  "\<exists>d core'. duo_run example_env duo_new example_meeting = Some d \<and>
    core_handle (example_env\<lparr>en_link := strict_link
        (honest (peer_after (en_oc example_env) (d East) (FromLink 0 (MsgSlice 1 0 2 0 [7, 8])) core')) (en_link example_env)\<rparr>)
      (pe_core (d East)) (FromLink 0 (MsgSlice 1 0 2 0 [7, 8])) = Some core'"
proof -
  obtain d where d: "duo_run example_env duo_new example_meeting = Some d" "spare (pe_core (d East))"
    "core_enabled example_env (pe_core (d East)) (FromLink 0 (MsgSlice 1 0 2 0 [7, 8]))"
    "offered (d East) (d West) (FromLink 0 (MsgSlice 1 0 2 0 [7, 8]))"
    "session_epoch (pe_state (d East)) = Some Epoch_ONE" "state_msg_mgr (pe_state (d East)) \<noteq> None"
    "core_handle example_env (pe_core (d East)) (FromLink 0 (MsgSlice 1 0 2 0 [7, 8])) \<noteq> None"
    by (rule example_meeting_run)
  then obtain mm core' where h: "state_msg_mgr (pe_state (d East)) = Some mm"
    "core_handle example_env (pe_core (d East)) (FromLink 0 (MsgSlice 1 0 2 0 [7, 8])) = Some core'"
    by auto
  have "session_epoch (co_state core') \<noteq> Some Epoch_MAX"
    using core_session [OF h(2) d(5) h(1)] by (auto simp: follows_def keeps_session_def Epoch_ONE_def Epoch_MAX_def)
  with h(2) have "core_handle (example_env\<lparr>en_link := strict_link
        (honest (peer_after (en_oc example_env) (d East) (FromLink 0 (MsgSlice 1 0 2 0 [7, 8])) core')) (en_link example_env)\<rparr>)
      (pe_core (d East)) (FromLink 0 (MsgSlice 1 0 2 0 [7, 8])) = Some core'"
    by (intro writes_honest [OF example_meeting_reaches [OF d(1)] _ d(2,3) _ _ _ strict_link_agrees])
       (use d(4) in \<open>simp_all add: example_env_def example_link_def valid_link_def\<close>)
  with d(1) show ?thesis by blast
qed

end
