(* ===== verification/Peekable_Link.thy ===== *)
theory Peekable_Link
  imports Pipe_Link
begin

text \<open>
  \<^verbatim>\<open>src/src/adaptors/peekable.rs\<close>: a link whose next message can be looked at before it is taken.
\<close>

record 'l Peekable =
  pk_link :: 'l
  pk_peeked :: "bytes option"

definition Peekable_new :: "'l \<Rightarrow> 'l Peekable" where
  "Peekable_new link = \<lparr>pk_link = link, pk_peeked = None\<rparr>"

definition Peekable_peek :: "'l Link \<Rightarrow> 'l Peekable \<Rightarrow> bytes LinkSetResult \<times> 'l Peekable" where
  "Peekable_peek L p =
     (case pk_peeked p of
        Some data \<Rightarrow> (Inr data, p)
      | None \<Rightarrow>
          (let (r, link) = li_recv L (pk_link p); p = p\<lparr>pk_link := link\<rparr>
           in case map_err LinkError r of
                Inl e \<Rightarrow> (Inl e, p)
              | Inr new_data \<Rightarrow> (Inr new_data, p\<lparr>pk_peeked := Some new_data\<rparr>)))"

definition take_peeked :: "'l Peekable \<Rightarrow> bytes option \<times> 'l Peekable" where
  "take_peeked p = (pk_peeked p, p\<lparr>pk_peeked := None\<rparr>)"

text \<open>Everything else is passed on to the link.\<close>

definition on_link :: "('l \<Rightarrow> 'a \<times> 'l) \<Rightarrow> 'l Peekable \<Rightarrow> 'a \<times> 'l Peekable" where
  "on_link f p = (let (r, link) = f (pk_link p) in (r, p\<lparr>pk_link := link\<rparr>))"

definition Peekable_ops :: "'l Link \<Rightarrow> 'l Peekable Link" where
  "Peekable_ops L =
     \<lparr>li_scheme = li_scheme L \<circ> pk_link,
      li_send = (\<lambda>p msg. on_link (\<lambda>l. li_send L l msg) p),
      li_recv = on_link (li_recv L),
      li_take_reader = on_link (li_take_reader L),
      li_max_size = li_max_size L \<circ> pk_link,
      li_is_closed = on_link (li_is_closed L)\<rparr>"

text \<open>The adaptor keeps the contract of the link inside.\<close>

context sized_link
begin

lemma peekable_sized: "sized_link (Peekable_ops L) (ok \<circ> pk_link)"
  by unfold_locales
     (simp_all add: Peekable_ops_def on_link_def case_prod_unfold Let_def send_ok closed_ok send_size closed_size size_u32)

end

interpretation peek_pipe: sized_link "Peekable_ops (PipeLink_ops now next_read)" "tx_fits \<circ> pk_link"
  by (rule pipe.peekable_sized)

section \<open>Properties\<close>

text \<open>
  Peeking does not consume. A peek that succeeds gives the message that the link gives; until it
  is taken every further peek gives the same message and does not touch the link; and
  \<open>take_peeked\<close> gives it once, after which the next peek reads on.
\<close>

lemma peek_keeps_message:
  assumes "pk_peeked p = None" "li_recv L (pk_link p) = (Inr data, link)"
  shows "\<exists>q. Peekable_peek L p = (Inr data, q) \<and> pk_link q = link \<and> Peekable_peek L q = (Inr data, q) \<and>
    take_peeked q = (Some data, p\<lparr>pk_link := link\<rparr>) \<and> take_peeked (p\<lparr>pk_link := link\<rparr>) = (None, p\<lparr>pk_link := link\<rparr>)"
  using assms by (simp add: Peekable_peek_def take_peeked_def map_err_def)

definition example_peekable :: "PipeLink Peekable" where
  "example_peekable = Peekable_new ((pair_end [] 1)\<lparr>pl_reader :=
     Some ((the (pl_reader (pair_end [] 1)))\<lparr>pr_rx := [([7], 0), ([8], 0)]\<rparr>)\<rparr>)"

end
